(* ===== verification/Dtypes.thy ===== *)
theory Dtypes
  imports Go_Prelude
begin

text \<open>
  The numeric formats of \<open>dtype/dtype.go\<close>: the enumeration with its wire codes, the
  storage arithmetic (\<open>Size\<close>, \<open>BytesFor\<close>, \<open>LogicalElements\<close>), the two spellings of a
  format (\<open>Name\<close>, \<open>String\<close>), their parser and the classification predicates.
  \<open>DUnknown n\<close> stands for the 237 codes the enumeration leaves unassigned.
\<close>

datatype dtype =
    DInvalid | Float64 | Float32 | Float16 | BFloat16 | Float8E4M3 | Float8E5M2
  | Int64 | Int32 | Int16 | Int8 | Int4 | Uint64 | Uint32 | Uint16 | Uint8
  | DBool | Complex64 | Complex128 | DUnknown nat

datatype dtype_error =
    UnsupportedDType dtype | NegativeElements int | NegativeBytes int
  | NotMultiple int int | UnknownDTypeName string | DivideByZero

section \<open>Storage arithmetic\<close>

definition dtype_code :: "dtype \<Rightarrow> nat" where
  "dtype_code d = (case d of
     DInvalid \<Rightarrow> 0 | Float64 \<Rightarrow> 1 | Float32 \<Rightarrow> 2 | Float16 \<Rightarrow> 3 | BFloat16 \<Rightarrow> 4
   | Float8E4M3 \<Rightarrow> 5 | Float8E5M2 \<Rightarrow> 6 | Int64 \<Rightarrow> 7 | Int32 \<Rightarrow> 8 | Int16 \<Rightarrow> 9 | Int8 \<Rightarrow> 10
   | Int4 \<Rightarrow> 11 | Uint64 \<Rightarrow> 12 | Uint32 \<Rightarrow> 13 | Uint16 \<Rightarrow> 14 | Uint8 \<Rightarrow> 15 | DBool \<Rightarrow> 16
   | Complex64 \<Rightarrow> 17 | Complex128 \<Rightarrow> 18 | DUnknown n \<Rightarrow> n)"

definition dtype_size :: "dtype \<Rightarrow> (dtype_error, int) res" where
  "dtype_size d =
     (if d \<in> {Float64, Int64, Uint64, Complex64} then Ok 8
      else if d \<in> {Float32, Int32, Uint32} then Ok 4
      else if d \<in> {Float16, BFloat16, Int16, Uint16} then Ok 2
      else if d \<in> {Float8E4M3, Float8E5M2, Int8, Uint8} then Ok 1
      else if d = Complex128 then Ok 16
      else if d \<in> {Int4, DBool} then Ok 0
      else Err (UnsupportedDType d))"

definition bytes_for :: "dtype \<Rightarrow> int \<Rightarrow> (dtype_error, int) res" where
  "bytes_for d elements =
     (if elements < 0 then Err (NegativeElements elements)
      else if d = Int4 then Ok (wrap64 (elements + 1) sdiv 2)
      else if d = DBool then Ok (wrap64 (elements + 7) sdiv 8)
      else rbind (dtype_size d) (\<lambda>size. Ok (wrap64 (elements * size))))"

definition logical_elements :: "dtype \<Rightarrow> int \<Rightarrow> (dtype_error, int) res" where
  "logical_elements d bytes =
     (if bytes < 0 then Err (NegativeBytes bytes)
      else if d = Int4 then Ok (wrap64 (bytes * 2))
      else if d = DBool then Ok (wrap64 (bytes * 8))
      else rbind (dtype_size d) (\<lambda>size.
        if size = 0 then Err DivideByZero
        else if bytes smod size \<noteq> 0 then Err (NotMultiple bytes size)
        else Ok (bytes sdiv size)))"

section \<open>Spellings\<close>

definition dtype_name :: "dtype \<Rightarrow> string" where
  "dtype_name d = (case d of
     Float64 \<Rightarrow> ''f64'' | Float32 \<Rightarrow> ''f32'' | Float16 \<Rightarrow> ''f16'' | BFloat16 \<Rightarrow> ''bf16''
   | Float8E4M3 \<Rightarrow> ''fp8e4m3'' | Float8E5M2 \<Rightarrow> ''fp8e5m2''
   | Int64 \<Rightarrow> ''i64'' | Int32 \<Rightarrow> ''i32'' | Int16 \<Rightarrow> ''i16'' | Int8 \<Rightarrow> ''i8'' | Int4 \<Rightarrow> ''i4''
   | Uint64 \<Rightarrow> ''u64'' | Uint32 \<Rightarrow> ''u32'' | Uint16 \<Rightarrow> ''u16'' | Uint8 \<Rightarrow> ''u8''
   | DBool \<Rightarrow> ''bool'' | Complex64 \<Rightarrow> ''c64'' | Complex128 \<Rightarrow> ''c128'' | DInvalid \<Rightarrow> ''invalid''
   | DUnknown n \<Rightarrow> ''dtype('' @ show_nat n @ '')'')"

definition dtype_string :: "dtype \<Rightarrow> string" where
  "dtype_string d = (case d of
     Float64 \<Rightarrow> ''F64'' | Float32 \<Rightarrow> ''F32'' | Float16 \<Rightarrow> ''F16'' | BFloat16 \<Rightarrow> ''BF16''
   | Float8E4M3 \<Rightarrow> ''F8E4M3'' | Float8E5M2 \<Rightarrow> ''F8E5M2''
   | Int64 \<Rightarrow> ''I64'' | Int32 \<Rightarrow> ''I32'' | Int16 \<Rightarrow> ''I16'' | Int8 \<Rightarrow> ''I8'' | Int4 \<Rightarrow> ''I4''
   | Uint64 \<Rightarrow> ''U64'' | Uint32 \<Rightarrow> ''U32'' | Uint16 \<Rightarrow> ''U16'' | Uint8 \<Rightarrow> ''U8''
   | DBool \<Rightarrow> ''BOOL'' | Complex64 \<Rightarrow> ''C64'' | Complex128 \<Rightarrow> ''C128'' | DInvalid \<Rightarrow> ''INVALID''
   | DUnknown n \<Rightarrow> ''DTYPE('' @ show_nat n @ '')'')"

definition normalize_dtype_name :: "string \<Rightarrow> string" where
  "normalize_dtype_name s =
     remove_char (CHR ''-'') (remove_char (CHR ''_'') (to_upper (trim_space s)))"

definition parse_dtype :: "string \<Rightarrow> (dtype_error, dtype) res" where
  "parse_dtype s =
     (let n = normalize_dtype_name s in
      if n \<in> {''F64'', ''FLOAT64'', ''DOUBLE''} then Ok Float64
      else if n \<in> {''F32'', ''FLOAT32'', ''FLOAT'', ''SINGLE''} then Ok Float32
      else if n \<in> {''F16'', ''FLOAT16'', ''HALF''} then Ok Float16
      else if n \<in> {''BF16'', ''BFLOAT16'', ''BRAINFLOAT16''} then Ok BFloat16
      else if n \<in> {''F8E4M3'', ''FP8E4M3'', ''FLOAT8E4M3''} then Ok Float8E4M3
      else if n \<in> {''F8E5M2'', ''FP8E5M2'', ''FLOAT8E5M2''} then Ok Float8E5M2
      else if n \<in> {''I64'', ''INT64'', ''LONG''} then Ok Int64
      else if n \<in> {''I32'', ''INT32'', ''INT''} then Ok Int32
      else if n \<in> {''I16'', ''INT16'', ''SHORT''} then Ok Int16
      else if n \<in> {''I8'', ''INT8'', ''BYTE''} then Ok Int8
      else if n \<in> {''I4'', ''INT4''} then Ok Int4
      else if n \<in> {''U64'', ''UINT64'', ''ULONG''} then Ok Uint64
      else if n \<in> {''U32'', ''UINT32'', ''UINT''} then Ok Uint32
      else if n \<in> {''U16'', ''UINT16'', ''USHORT''} then Ok Uint16
      else if n \<in> {''U8'', ''UINT8'', ''UBYTE''} then Ok Uint8
      else if n \<in> {''BOOL'', ''BOOLEAN'', ''B1''} then Ok DBool
      else if n \<in> {''C64'', ''COMPLEX64''} then Ok Complex64
      else if n \<in> {''C128'', ''COMPLEX128''} then Ok Complex128
      else Err (UnknownDTypeName s))"

section \<open>Classification\<close>

definition is_float :: "dtype \<Rightarrow> bool" where
  "is_float d \<longleftrightarrow> d \<in> {Float64, Float32, Float16, BFloat16, Float8E4M3, Float8E5M2}"

definition is_signed_int :: "dtype \<Rightarrow> bool" where
  "is_signed_int d \<longleftrightarrow> d \<in> {Int64, Int32, Int16, Int8, Int4}"

definition is_unsigned_int :: "dtype \<Rightarrow> bool" where
  "is_unsigned_int d \<longleftrightarrow> d \<in> {Uint64, Uint32, Uint16, Uint8}"

definition is_complex :: "dtype \<Rightarrow> bool" where
  "is_complex d \<longleftrightarrow> d \<in> {Complex64, Complex128}"

definition is_packed :: "dtype \<Rightarrow> bool" where
  "is_packed d \<longleftrightarrow> d \<in> {Int4, DBool}"

definition known_dtype :: "dtype \<Rightarrow> bool" where
  "known_dtype d \<longleftrightarrow> d \<noteq> DInvalid \<and> (\<forall>n. d \<noteq> DUnknown n)"

section \<open>Lemmas\<close>

lemma dtype_size_known: "known_dtype d \<Longrightarrow> \<exists>s. dtype_size d = Ok s"
  by (cases d) (auto simp: dtype_size_def known_dtype_def)

lemma dtype_size_bound: "dtype_size d = Ok s \<Longrightarrow> 0 \<le> s \<and> s \<le> 16"
  by (cases d) (auto simp: dtype_size_def)

lemma dtype_size_zero_iff: "dtype_size d = Ok 0 \<longleftrightarrow> is_packed d"
  by (cases d) (auto simp: dtype_size_def is_packed_def)

lemma bytes_for_nonneg:
  "bytes_for d n = Ok b \<Longrightarrow> n * 16 + 7 < 2 ^ 63 \<Longrightarrow> 0 \<le> b"
proof -
  assume ok: "bytes_for d n = Ok b" and small: "n * 16 + 7 < 2 ^ 63"
  then have n: "0 \<le> n" by (auto simp: bytes_for_def split: if_splits)
  show ?thesis
  proof (cases "d = Int4 \<or> d = DBool")
    case True
    with ok n small show ?thesis
      by (auto simp: bytes_for_def wrap_simps sdiv_nonneg split: if_splits)
  next
    case False
    with ok n obtain s where s: "dtype_size d = Ok s" and b: "b = wrap64 (n * s)"
      by (auto simp: bytes_for_def split: if_splits)
    from dtype_size_bound [OF s] have "0 \<le> n * s" and "n * s \<le> n * 16"
      using n by (auto intro: mult_left_mono)
    with b small show ?thesis by (simp add: wrap_simps)
  qed
qed

lemma bytes_for_unpacked:
  assumes "dtype_size d = Ok s" and "\<not> is_packed d" and "0 \<le> n" and "n * s < 2 ^ 63"
  shows "bytes_for d n = Ok (n * s)"
  using assms dtype_size_bound [OF assms(1)]
  by (auto simp: bytes_for_def is_packed_def wrap_simps)

section \<open>Properties\<close>

text \<open>
  Storage arithmetic round trip. For every assigned format and every non-negative
  element count whose widest storage fits an int64, \<open>BytesFor\<close> succeeds with a
  non-negative byte count, and \<open>LogicalElements\<close> of that count gives back at least the
  original elements, exactly the original for the formats that are not packed, and fewer
  than eight (Bool) or two (Int4) extra padding elements for the packed ones.
\<close>

theorem bytes_for_logical_elements:
  assumes "known_dtype d" and "0 \<le> n" and "n * 16 + 16 < 2 ^ 63"
  shows "\<exists>b m. bytes_for d n = Ok b \<and> 0 \<le> b \<and> logical_elements d b = Ok m \<and> n \<le> m
     \<and> (\<not> is_packed d \<longrightarrow> m = n) \<and> (d = Int4 \<longrightarrow> m < n + 2) \<and> (d = DBool \<longrightarrow> m < n + 8)"
proof (cases "is_packed d")
  case True
  then consider "d = Int4" | "d = DBool" by (auto simp: is_packed_def)
  then show ?thesis
  proof cases
    case 1
    have "0 \<le> (n + 1) div 2" and "n \<le> (n + 1) div 2 * 2" and "(n + 1) div 2 * 2 < n + 2"
      using assms(2) by linarith+
    with 1 assms show ?thesis
      by (simp add: bytes_for_def logical_elements_def is_packed_def wrap_simps sdiv_nonneg)
  next
    case 2
    have "0 \<le> (n + 7) div 8" and "n \<le> (n + 7) div 8 * 8" and "(n + 7) div 8 * 8 < n + 8"
      using assms(2) by linarith+
    with 2 assms show ?thesis
      by (simp add: bytes_for_def logical_elements_def is_packed_def wrap_simps sdiv_nonneg)
  qed
next
  case False
  obtain s where s: "dtype_size d = Ok s" using assms(1) dtype_size_known by blast
  have "s \<noteq> 0" using s False dtype_size_zero_iff by blast
  with dtype_size_bound [OF s] have pos: "0 < s" and "s \<le> 16" by auto
  then have le: "n * s \<le> n * 16" and nn: "0 \<le> n * s"
    using assms(2) by (auto intro: mult_left_mono)
  have "bytes_for d n = Ok (n * s)"
    using bytes_for_unpacked [OF s False assms(2)] le assms(3) by simp
  moreover have "logical_elements d (n * s) = Ok n"
    using s False pos nn
    by (auto simp: logical_elements_def is_packed_def sdiv_nonneg smod_nonneg)
  ultimately show ?thesis using False nn by (auto simp: is_packed_def)
qed

theorem bytes_for_logical_elements_witness:
  "\<exists>b m. bytes_for BFloat16 100 = Ok b \<and> 0 \<le> b \<and> logical_elements BFloat16 b = Ok m \<and> 100 \<le> m
     \<and> (\<not> is_packed BFloat16 \<longrightarrow> m = 100) \<and> (BFloat16 = Int4 \<longrightarrow> m < 100 + 2)
     \<and> (BFloat16 = DBool \<longrightarrow> m < 100 + 8)"
  by (rule bytes_for_logical_elements) (simp_all add: known_dtype_def)

text \<open>
  Both spellings of every assigned format parse back to it: \<open>Parse (d.Name()) = d\<close> and
  \<open>Parse (d.String()) = d\<close>.
\<close>

theorem parse_dtype_roundtrip:
  assumes "known_dtype d"
  shows "parse_dtype (dtype_name d) = Ok d \<and> parse_dtype (dtype_string d) = Ok d"
proof (cases d)
  case (DUnknown n)
  with assms show ?thesis by (simp add: known_dtype_def)
next
  case DInvalid
  with assms show ?thesis by (simp add: known_dtype_def)
qed (simp_all only: dtype_name_def dtype_string_def dtype.case, code_simp+)

theorem parse_dtype_roundtrip_witness:
  "parse_dtype (dtype_name Float8E4M3) = Ok Float8E4M3
   \<and> parse_dtype (dtype_string Float8E4M3) = Ok Float8E4M3"
  by (rule parse_dtype_roundtrip) (simp add: known_dtype_def)

end
