(* ===== verification/Small_Floats.thy ===== *)
theory Small_Floats
  imports Dtypes
begin

unbundle bit_operations_syntax

text \<open>
  The narrow numeric encodings of the \<open>dtype\<close> package, bit for bit: packed 4-bit integers
  (\<open>int4.go\<close>), the two FP8 formats (\<open>fp8.go\<close>) and bfloat16 (\<open>bfloat16.go\<close>). A Go
  \<open>float32\<close> is its IEEE 754 bit pattern, a \<open>32 word\<close> (\<open>math.Float32bits\<close> and
  \<open>math.Float32frombits\<close> are the identity); the order of two non-negative non-NaN floats is
  the unsigned order of their patterns. Shifts of \<open>uint32\<close> and \<open>uint8\<close> values stay at
  their width.
\<close>

type_synonym f32 = "32 word"

section \<open>Packed 4-bit integers\<close>

definition int4_encode :: "8 word \<Rightarrow> 8 word" where
  "int4_encode value =
     (let value = (if sint value < - 8 then - 8 else value);
          value = (if sint value > 7 then 7 else value)
      in value AND 0x0f)"

definition int4_decode :: "8 word \<Rightarrow> 8 word" where
  "int4_decode nibble = (if nibble AND 0x08 \<noteq> 0 then nibble - 16 else nibble)"

definition new_int4_pair :: "8 word \<Rightarrow> 8 word \<Rightarrow> 8 word" where
  "new_int4_pair lo hi = int4_encode lo OR push_bit 4 (int4_encode hi)"

definition int4_lo :: "8 word \<Rightarrow> 8 word" where
  "int4_lo pair = int4_decode (pair AND 0x0f)"

definition int4_hi :: "8 word \<Rightarrow> 8 word" where
  "int4_hi pair = int4_decode (drop_bit 4 pair AND 0x0f)"

definition int4_with_lo :: "8 word \<Rightarrow> 8 word \<Rightarrow> 8 word" where
  "int4_with_lo pair value = (pair AND 0xf0) OR int4_encode value"

definition int4_with_hi :: "8 word \<Rightarrow> 8 word \<Rightarrow> 8 word" where
  "int4_with_hi pair value = (pair AND 0x0f) OR push_bit 4 (int4_encode value)"

definition clamp4 :: "int \<Rightarrow> int" where
  "clamp4 v = max (- 8) (min 7 v)"

section \<open>Rounding and the subnormal normalisation loop\<close>

definition round_to_nearest_even :: "32 word \<Rightarrow> 32 word \<Rightarrow> nat \<Rightarrow> 32 word" where
  "round_to_nearest_even truncated full shift =
     (if shift = 0 then truncated
      else let dropped = full AND (push_bit shift 1 - 1);
               half = push_bit (shift - 1) 1
           in if dropped < half then truncated
              else if dropped > half then truncated + 1
              else if truncated AND 1 = 1 then truncated + 1
              else truncated)"

text \<open>
  \<open>for mantissa & stop == 0 { mantissa <<= 1; shift++ }\<close>: 32 iterations empty a 32-bit
  mantissa, so a loop that has not stopped by then never stops (\<open>None\<close>).
\<close>

fun normalize_loop :: "nat \<Rightarrow> 32 word \<Rightarrow> 32 word \<Rightarrow> 32 word \<Rightarrow> (32 word \<times> 32 word) option" where
  "normalize_loop 0 stop mantissa shift = None"
| "normalize_loop (Suc fuel) stop mantissa shift =
     (if mantissa AND stop = 0 then normalize_loop fuel stop (push_bit 1 mantissa) (shift + 1)
      else Some (mantissa, shift))"

section \<open>FP8 E4M3\<close>

definition f8e4m3_to_f32 :: "8 word \<Rightarrow> f32 option" where
  "f8e4m3_to_f32 bits =
     (let sign = push_bit 31 (ucast (drop_bit 7 bits) :: 32 word) in
      if bits AND 0x7f = 0x7f then Some (sign OR 0x7fc00000)
      else if bits AND 0x7f = 0 then Some sign
      else
        let exponent = (ucast (drop_bit 3 bits AND 0x0f) :: 32 word);
            mantissa = (ucast (bits AND 0x07) :: 32 word)
        in map_option
             (\<lambda>(exponent, mantissa).
                sign OR push_bit 23 (exponent - 7 + 127) OR push_bit 20 mantissa)
             (if exponent = 0
              then map_option (\<lambda>(m, shift). (1 - shift, m AND 0x07))
                     (normalize_loop 32 0x08 mantissa 0)
              else Some (exponent, mantissa)))"

definition f32_to_f8e4m3 :: "f32 \<Rightarrow> 8 word" where
  "f32_to_f8e4m3 value =
     (if value AND 0x7fffffff > 0x7f800000 then 0x7f
      else
        let sign = (if value AND 0x80000000 \<noteq> 0 then 0x80 else 0);
            value = value AND 0x7fffffff
        in
        if value > 0x43e00000 then sign OR 0x7e
        else if value = 0 then sign
        else
          let exponent = uint (drop_bit 23 value AND 0xff) - 127 + 7;
              mantissa = value AND 0x7fffff
          in
          if exponent \<le> 0 then
            if exponent < - 3 then sign
            else
              let shift = nat (20 - exponent);
                  full = drop_bit shift (mantissa OR 0x800000);
                  rounded = round_to_nearest_even full (mantissa OR 0x800000) shift
              in if rounded \<ge> 0x08 then sign OR 0x08 else sign OR ucast rounded
          else if exponent \<ge> 15 then sign OR 0x7e
          else
            let mantissa8 = drop_bit 20 mantissa;
                rounded = round_to_nearest_even mantissa8 mantissa 20
            in
            if rounded \<ge> 0x08 then
              (if exponent + 1 \<ge> 15 then sign OR 0x7e
               else sign OR push_bit 3 (word_of_int (exponent + 1)))
            else sign OR push_bit 3 (word_of_int exponent) OR ucast rounded)"

section \<open>FP8 E5M2\<close>

definition f8e5m2_to_f32 :: "8 word \<Rightarrow> f32 option" where
  "f8e5m2_to_f32 bits =
     (let sign = push_bit 31 (ucast (drop_bit 7 bits) :: 32 word);
          exponent = (ucast (drop_bit 2 bits AND 0x1f) :: 32 word);
          mantissa = (ucast (bits AND 0x03) :: 32 word)
      in
      if exponent = 0x1f then
        (if mantissa = 0 then Some (sign OR 0x7f800000)
         else Some (sign OR 0x7fc00000 OR push_bit 21 mantissa))
      else if exponent = 0 \<and> mantissa = 0 then Some sign
      else map_option
             (\<lambda>(exponent, mantissa).
                sign OR push_bit 23 (exponent - 15 + 127) OR push_bit 21 mantissa)
             (if exponent = 0
              then map_option (\<lambda>(m, shift). (1 - shift, m AND 0x03))
                     (normalize_loop 32 0x04 mantissa 0)
              else Some (exponent, mantissa)))"

definition f32_to_f8e5m2 :: "f32 \<Rightarrow> 8 word" where
  "f32_to_f8e5m2 value =
     (if value AND 0x7fffffff > 0x7f800000 then 0x7f
      else
        let sign = (if value AND 0x80000000 \<noteq> 0 then 0x80 else 0);
            value = value AND 0x7fffffff
        in
        if value > 0x47600000 then sign OR 0x7c
        else if value = 0 then sign
        else
          let exponent = uint (drop_bit 23 value AND 0xff) - 127 + 15;
              mantissa = value AND 0x7fffff
          in
          if exponent \<le> 0 then
            if exponent < - 1 then sign
            else
              let shift = nat (21 - exponent);
                  full = drop_bit shift (mantissa OR 0x800000);
                  rounded = round_to_nearest_even full (mantissa OR 0x800000) shift
              in if rounded \<ge> 0x04 then sign OR 0x04 else sign OR ucast rounded
          else if exponent \<ge> 0x1f then sign OR 0x7c
          else
            let mantissa8 = drop_bit 21 mantissa;
                rounded = round_to_nearest_even mantissa8 mantissa 21
            in
            if rounded \<ge> 0x04 then
              (if exponent + 1 \<ge> 0x1f then sign OR 0x7c
               else sign OR push_bit 2 (word_of_int (exponent + 1)))
            else sign OR push_bit 2 (word_of_int exponent) OR ucast rounded)"

section \<open>bfloat16\<close>

definition f32_to_bf16 :: "f32 \<Rightarrow> 16 word" where
  "f32_to_bf16 bits =
     (if bits AND 0x7fffffff > 0x7f800000 then ucast (drop_bit 16 bits) OR 0x0040
      else let rounded = bits + 0x7fff + (drop_bit 16 bits AND 1)
           in ucast (drop_bit 16 rounded))"

definition bf16_to_f32 :: "16 word \<Rightarrow> f32" where
  "bf16_to_f32 b = push_bit 16 (ucast b)"

definition is_nan_bf16 :: "16 word \<Rightarrow> bool" where
  "is_nan_bf16 b \<longleftrightarrow> b AND 0x7fff > 0x7f80"

text \<open>Slices of bfloat16 values and their little-endian bytes.\<close>

definition bf16_bytes :: "16 word \<Rightarrow> 8 word list" where
  "bf16_bytes b = [ucast b, ucast (drop_bit 8 b)]"

fun bf16_from_bytes :: "8 word list \<Rightarrow> 16 word option" where
  "bf16_from_bytes (b0 # b1 # _) = Some (ucast b0 OR push_bit 8 (ucast b1))"
| "bf16_from_bytes _ = None"

fun decode_bf16 :: "8 word list \<Rightarrow> 16 word list" where
  "decode_bf16 (b0 # b1 # bs) = (ucast b0 OR push_bit 8 (ucast b1)) # decode_bf16 bs"
| "decode_bf16 _ = []"

definition encode_bf16 :: "16 word list \<Rightarrow> 8 word list" where
  "encode_bf16 values = concat (map bf16_bytes values)"

fun decode_bf16_to_f32 :: "8 word list \<Rightarrow> f32 list" where
  "decode_bf16_to_f32 (b0 # b1 # bs) =
     push_bit 16 (ucast ((ucast b0 :: 16 word) OR push_bit 8 (ucast b1))) # decode_bf16_to_f32 bs"
| "decode_bf16_to_f32 _ = []"

definition encode_f32_to_bf16 :: "f32 list \<Rightarrow> 8 word list" where
  "encode_f32_to_bf16 values = concat (map (\<lambda>v. bf16_bytes (f32_to_bf16 v)) values)"

section \<open>Lemmas on packed integers\<close>

lemma nibble_masks: "(15 :: 8 word) = mask 4" "(240 :: 8 word) = push_bit 4 (mask 4)"
  by (simp_all add: mask_eq_exp_minus_1 push_bit_eq_mult)

lemma int4_encode_low: "int4_encode v AND 15 = int4_encode v" "int4_encode v AND 240 = 0"
  by (simp_all add: int4_encode_def Let_def and.assoc)

lemma int4_encode_shift:
  "drop_bit 4 (int4_encode v) = 0"
  "drop_bit 4 (push_bit 4 (int4_encode v)) = int4_encode v"
  "push_bit 4 (int4_encode v) AND 15 = 0"
  unfolding int4_encode_def Let_def nibble_masks
  by (rule bit_word_eqI; auto simp: bit_simps)+

lemma nibble_split:
  fixes p :: "8 word"
  shows "drop_bit 4 (p AND 15) = 0" "drop_bit 4 (p AND 240) = drop_bit 4 p" "drop_bit 4 p AND 15 = drop_bit 4 p"
  unfolding nibble_masks
  by (rule bit_word_eqI; auto simp: bit_simps dest: bit_imp_le_length)+

lemma int4_decode_small:
  assumes "- 8 \<le> sint w" and "sint w \<le> 7"
  shows "sint (int4_decode (w AND 15)) = sint (w :: 8 word)"
proof -
  have w: "w = word_of_int (sint w)" by simp
  from assms have "sint w \<in> {- 8, - 7, - 6, - 5, - 4, - 3, - 2, - 1, 0, 1, 2, 3, 4, 5, 6, 7}"
    by simp presburger
  then have "w \<in> {- 8, - 7, - 6, - 5, - 4, - 3, - 2, - 1, 0, 1, 2, 3, 4, 5, 6, 7}"
    by (subst w) (elim insertE emptyE; simp only:; simp)
  then show ?thesis by (elim insertE emptyE) (simp_all add: int4_decode_def)
qed

lemma int4_decode_encode: "sint (int4_decode (int4_encode v)) = clamp4 (sint v)"
  by (auto simp: int4_encode_def Let_def int4_decode_small clamp4_def)

lemma int4_pair_access:
  "int4_lo (new_int4_pair a b) = int4_decode (int4_encode a)"
  "int4_hi (new_int4_pair a b) = int4_decode (int4_encode b)"
  "int4_lo (int4_with_lo p v) = int4_decode (int4_encode v)"
  "int4_hi (int4_with_lo p v) = int4_hi p"
  "int4_hi (int4_with_hi p v) = int4_decode (int4_encode v)"
  "int4_lo (int4_with_hi p v) = int4_lo p"
  by (simp_all add: int4_lo_def int4_hi_def new_int4_pair_def int4_with_lo_def int4_with_hi_def
      bit.conj_disj_distrib bit.conj_disj_distrib2 and.assoc int4_encode_low int4_encode_shift
      nibble_split drop_bit_or)

section \<open>Lemmas on bfloat16\<close>

lemma unat_and_mask31: "unat ((x :: 32 word) AND 0x7fffffff) = unat x mod 2 ^ 31"
proof -
  have "(0x7fffffff :: 32 word) = mask 31" by (simp add: mask_eq_exp_minus_1)
  then have "x AND 0x7fffffff = take_bit 31 x" by (simp only: take_bit_eq_mask)
  then show ?thesis by (simp only: unsigned_take_bit_eq) (simp only: take_bit_eq_mod)
qed

lemma unat_and_mask15: "unat ((x :: 16 word) AND 0x7fff) = unat x mod 2 ^ 15"
proof -
  have "(0x7fff :: 16 word) = mask 15" by (simp add: mask_eq_exp_minus_1)
  then have "x AND 0x7fff = take_bit 15 x" by (simp only: take_bit_eq_mask)
  then show ?thesis by (simp only: unsigned_take_bit_eq) (simp only: take_bit_eq_mod)
qed

lemma f32_to_bf16_nat:
  assumes "x AND 0x7fffffff \<le> 0x7f800000"
  shows "unat (f32_to_bf16 x) = (unat x + 0x7fff + unat x div 65536 mod 2) div 65536"
proof -
  have h: "unat (drop_bit 16 x AND 1) = unat x div 65536 mod 2"
    by (simp add: and_one_eq unat_mod unat_div drop_bit_eq_div)
  define q r where "q = unat x div 2147483648" and "r = unat x mod 2147483648"
  then have x: "unat x = 2147483648 * q + r" by simp
  have "unat x mod 2 ^ 31 \<le> 0x7f800000"
    using assms by (simp add: word_le_nat_alt unat_and_mask31)
  then have "r \<le> 2139095040" by (simp add: r_def)
  moreover have "unat x < 4294967296" using unsigned_less [of x, where 'a = nat] by simp
  moreover from this x have "q \<le> 1" by linarith
  ultimately have b: "unat x \<le> 0xff800000" using x by linarith
  then have "unat (x + 0x7fff + (drop_bit 16 x AND 1)) = unat x + 0x7fff + unat x div 65536 mod 2"
    by (simp add: unat_word_ariths h)
  moreover have "(unat x + 0x7fff + unat x div 65536 mod 2) div 65536 < 65536"
    using b by linarith
  ultimately show ?thesis
    using assms by (auto simp: f32_to_bf16_def Let_def unsigned_ucast_eq unat_drop_bit_eq drop_bit_eq_div take_bit_nat_def unat_div)
qed

lemma unat_bf16_to_f32: "unat (bf16_to_f32 b) = unat b * 65536"
proof -
  have "unat b < 65536" using unsigned_less [of b] by simp
  then show ?thesis
    by (simp add: bf16_to_f32_def push_bit_eq_mult unat_word_ariths unsigned_ucast_eq take_bit_nat_def)
qed

lemma bf16_nan_widen: "is_nan_bf16 b \<longleftrightarrow> bf16_to_f32 b AND 0x7fffffff > 0x7f800000"
proof -
  have "unat (b AND 0x7fff) = unat b mod 2 ^ 15" by (rule unat_and_mask15)
  moreover have "unat (bf16_to_f32 b AND 0x7fffffff) = (unat b mod 2 ^ 15) * 65536"
    unfolding unat_and_mask31 unat_bf16_to_f32 by (simp add: mult_mod_left)
  ultimately show ?thesis by (simp add: is_nan_bf16_def word_less_nat_alt)
qed

lemma bf16_high_half: "ucast (drop_bit 16 (bf16_to_f32 b)) = b"
  unfolding bf16_to_f32_def by (rule bit_word_eqI) (auto simp: bit_simps)

lemma bf16_bytes_join: "ucast (ucast b :: 8 word) OR push_bit 8 (ucast (ucast (drop_bit 8 b) :: 8 word)) = (b :: 16 word)"
  by (rule bit_word_eqI) (auto simp: bit_simps dest: bit_imp_le_length)

section \<open>Properties\<close>

text \<open>
  Packed int4 access. A pair holds two independent values clamped to [-8, 7]: reading
  back either half of a new pair, or the half just replaced, gives the clamped value with
  its sign, and replacing one half leaves the other unchanged.
\<close>

theorem int4_pair_roundtrip:
  "sint (int4_lo (new_int4_pair a b)) = clamp4 (sint a)
   \<and> sint (int4_hi (new_int4_pair a b)) = clamp4 (sint b)
   \<and> sint (int4_lo (int4_with_lo p a)) = clamp4 (sint a) \<and> int4_hi (int4_with_lo p a) = int4_hi p
   \<and> sint (int4_hi (int4_with_hi p b)) = clamp4 (sint b) \<and> int4_lo (int4_with_hi p b) = int4_lo p"
  by (simp add: int4_pair_access int4_decode_encode)

text \<open>
  Widening a bfloat16 to float32 and narrowing it again is the identity on every value
  that is not a NaN, and sets the quiet bit of a NaN.
\<close>

lemma bf16_narrow:
  "f32_to_bf16 (bf16_to_f32 b) = (if is_nan_bf16 b then b OR 0x0040 else b)"
proof (cases "is_nan_bf16 b")
  case True
  then show ?thesis by (simp add: f32_to_bf16_def bf16_nan_widen bf16_high_half)
next
  case False
  then have "unat (f32_to_bf16 (bf16_to_f32 b)) = unat b"
    by (subst f32_to_bf16_nat) (simp_all add: bf16_nan_widen unat_bf16_to_f32 not_less)
  with False show ?thesis by (simp add: word_unat_eq_iff)
qed

text \<open>
  Narrowing rounds to nearest, ties to even. For a float32 pattern that is not a NaN, the
  bfloat16 pattern chosen differs from it by at most half a unit in the last kept place, and
  when it is exactly half-way the last kept bit is 0.
\<close>

theorem f32_to_bf16_nearest_even:
  assumes "x AND 0x7fffffff \<le> 0x7f800000"
  shows "\<bar>int (unat (f32_to_bf16 x)) * 65536 - int (unat x)\<bar> \<le> 32768
     \<and> (\<bar>int (unat (f32_to_bf16 x)) * 65536 - int (unat x)\<bar> = 32768 \<longrightarrow> even (unat (f32_to_bf16 x)))"
proof -
  define n q r where "n = unat x" and "q = n div 65536" and "r = n mod 65536"
  then have n: "n = 65536 * q + r" and r: "r < 65536" by simp_all
  have res: "unat (f32_to_bf16 x) = (n + 32767 + q mod 2) div 65536"
    unfolding f32_to_bf16_nat [OF assms] by (simp add: n_def q_def)
  have q2: "q mod 2 \<le> 1" by simp
  show ?thesis
  proof (cases "r + 32767 + q mod 2 < 65536")
    case True
    then have "(n + 32767 + q mod 2) div 65536 = q" unfolding n by linarith
    moreover have "int q * 65536 - int n = - int r" unfolding n by simp
    moreover have "r \<le> 32768" and "r = 32768 \<longrightarrow> q mod 2 = 0" using True q2 by linarith+
    ultimately show ?thesis unfolding res
      by (simp only: n_def even_iff_mod_2_eq_zero) linarith
  next
    case False
    then have "(n + 32767 + q mod 2) div 65536 = q + 1" unfolding n using r q2 by linarith
    moreover have "int (q + 1) * 65536 - int n = 65536 - int r" unfolding n by simp
    moreover have "32768 \<le> r" and "r = 32768 \<longrightarrow> (q + 1) mod 2 = 0"
      using False q2 by (linarith, presburger)
    ultimately show ?thesis using r unfolding res
      by (simp only: n_def even_iff_mod_2_eq_zero) linarith
  qed
qed

theorem f32_to_bf16_nearest_even_witness:
  "\<bar>int (unat (f32_to_bf16 0x3f808000)) * 65536 - int (unat (0x3f808000 :: f32))\<bar> \<le> 32768
     \<and> f32_to_bf16 0x3f808000 = 0x3f80"
  using f32_to_bf16_nearest_even [of "0x3f808000"]
  by (simp add: f32_to_bf16_def Let_def drop_bit_eq_div)

text \<open>
  The slice codecs invert each other: decoding the bytes of an encoded slice gives the
  slice back.
\<close>

theorem decode_encode_bf16: "decode_bf16 (encode_bf16 vs) = vs"
  by (induction vs) (simp_all add: encode_bf16_def bf16_bytes_def bf16_bytes_join)

text \<open>
  Narrowing does not flush subnormals: a float32 subnormal pattern above the half-way
  point becomes a non-zero bfloat16 subnormal.
\<close>

theorem bf16_keeps_subnormals:
  "f32_to_bf16 0x00010000 = 0x0001 \<and> f32_to_bf16 0x00018000 = 0x0002"
  by (simp add: f32_to_bf16_def Let_def drop_bit_eq_div)

end
