(* ===== verification/Port_Types.thy ===== *)
theory Port_Types
  imports Dtypes
begin

text \<open>
  The typed contract of a port (\<open>ir/port_type.go\<close>): dimensions, shape schemas, layouts,
  semantic kinds and constraints with their diagnostic rendering; the symbol map and the
  stride polynomials of \<open>ir/port_allocation.go\<close>; the liveness interval of
  \<open>ir/workspace.go\<close>; and the byte size of a port (\<open>PortByteSize\<close> of \<open>ir/planner.go\<close>).
  A \<open>SymbolMap\<close> is a partial function from symbols to sizes.
\<close>

section \<open>Dimensions and shapes\<close>

record dimension =
  dsym :: string
  dstatic :: int

definition new_symbolic_dimension :: "string \<Rightarrow> dimension" where
  "new_symbolic_dimension s = \<lparr>dsym = s, dstatic = 0\<rparr>"

definition new_static_dimension :: "int \<Rightarrow> dimension" where
  "new_static_dimension n = \<lparr>dsym = [], dstatic = n\<rparr>"

definition dim_valid :: "dimension \<Rightarrow> bool" where
  "dim_valid d \<longleftrightarrow> \<not> (dsym d \<noteq> [] \<and> dstatic d \<noteq> 0)"

definition is_symbolic :: "dimension \<Rightarrow> bool" where
  "is_symbolic d \<longleftrightarrow> dsym d \<noteq> []"

definition dim_string :: "dimension \<Rightarrow> string" where
  "dim_string d = (if is_symbolic d then dsym d else show_int (dstatic d))"

fun join :: "string \<Rightarrow> string list \<Rightarrow> string" where
  "join sep [] = []"
| "join sep [s] = s"
| "join sep (s # t # ts) = s @ sep @ join sep (t # ts)"

type_synonym shape_schema = "dimension list"

definition shape_string :: "shape_schema \<Rightarrow> string" where
  "shape_string ds = ''['' @ join '', '' (map dim_string ds) @ '']''"

section \<open>Layouts, kinds and constraints\<close>

datatype layout =
    LayoutUnspecified | LayoutContiguous | LayoutStrided | LayoutTiled
  | LayoutChannelFirst | LayoutChannelLast | LayoutOther int

definition layout_string :: "layout \<Rightarrow> string" where
  "layout_string l = (case l of
     LayoutUnspecified \<Rightarrow> ''Unspecified'' | LayoutContiguous \<Rightarrow> ''Contiguous''
   | LayoutStrided \<Rightarrow> ''Strided'' | LayoutTiled \<Rightarrow> ''Tiled''
   | LayoutChannelFirst \<Rightarrow> ''ChannelFirst'' | LayoutChannelLast \<Rightarrow> ''ChannelLast''
   | LayoutOther n \<Rightarrow> ''LayoutSchema('' @ show_int n @ '')'')"

type_synonym semantic_kind = string

abbreviation (input) SemanticGeneric :: semantic_kind where "SemanticGeneric \<equiv> []"

datatype constraint =
    Divisibility int int
  | SymbolEquality string string
  | RangeConstraint int int int

fun constraint_string :: "constraint \<Rightarrow> string" where
  "constraint_string (Divisibility i n) =
     ''dim['' @ show_int i @ ''] % '' @ show_int n @ '' == 0''"
| "constraint_string (SymbolEquality l r) = l @ '' == '' @ r"
| "constraint_string (RangeConstraint i lo hi) =
     show_int lo @ '' <= dim['' @ show_int i @ ''] <= '' @ show_int hi"

record port_type =
  pt_dtype :: dtype
  pt_shape :: shape_schema
  pt_layout :: layout
  pt_kind :: semantic_kind
  pt_constraints :: "constraint list"

definition format_port_type :: "port_type \<Rightarrow> string" where
  "format_port_type t =
     join '' '' ([dtype_string (pt_dtype t), shape_string (pt_shape t), layout_string (pt_layout t)]
       @ (if pt_kind t \<noteq> SemanticGeneric then [pt_kind t] else []))"

section \<open>Symbol maps and strides\<close>

type_synonym symbol_map = "string \<rightharpoonup> int"

record stride_formula =
  sf_symbol :: string
  sf_multiplier :: int

definition lookup0 :: "symbol_map \<Rightarrow> string \<Rightarrow> int" where
  "lookup0 m s = (case m s of None \<Rightarrow> 0 | Some v \<Rightarrow> v)"

fun resolve_from :: "symbol_map \<Rightarrow> int \<Rightarrow> stride_formula list \<Rightarrow> int" where
  "resolve_from m acc [] = acc"
| "resolve_from m acc (f # fs) =
     (if sf_symbol f = [] then resolve_from m (wrap64 (acc + sf_multiplier f)) fs
      else resolve_from m (wrap64 (acc + wrap64 (sf_multiplier f * lookup0 m (sf_symbol f)))) fs)"

definition resolve_stride :: "symbol_map \<Rightarrow> stride_formula list \<Rightarrow> int" where
  "resolve_stride m fs = resolve_from m 0 fs"

section \<open>Ports and intervals\<close>

record port_allocation =
  pa_port_id :: int
  pa_base_offset :: int
  pa_strides :: "stride_formula list"
  pa_type :: port_type

record port =
  port_id :: int
  port_type :: port_type
  port_alloc :: "port_allocation option"

record interval =
  iv_port :: int
  iv_start :: int
  iv_end :: int
  iv_offset :: int
  iv_size :: int

definition overlaps :: "interval \<Rightarrow> interval \<Rightarrow> bool" where
  "overlaps a b \<longleftrightarrow> (if iv_end a < iv_start b then False
     else if iv_end b < iv_start a then False else True)"

datatype size_error =
    UnboundSymbol nat string
  | ScalarRejected dtype_error
  | SizeRejected int dtype_error

fun count_elements :: "symbol_map \<Rightarrow> nat \<Rightarrow> int \<Rightarrow> shape_schema \<Rightarrow> (size_error, int) res" where
  "count_elements m i acc [] = Ok acc"
| "count_elements m i acc (d # ds) =
     (if \<not> is_symbolic d then count_elements m (Suc i) (wrap64 (acc * dstatic d)) ds
      else case m (dsym d) of
          None \<Rightarrow> Err (UnboundSymbol i (dsym d))
        | Some v \<Rightarrow> count_elements m (Suc i) (wrap64 (acc * v)) ds)"

definition port_byte_size :: "port_type \<Rightarrow> symbol_map \<Rightarrow> (size_error, int) res" where
  "port_byte_size t m =
     (if pt_shape t = [] then
        map_err ScalarRejected (bytes_for (pt_dtype t) 1)
      else rbind (count_elements m 0 1 (pt_shape t)) (\<lambda>n.
        map_err (SizeRejected n) (bytes_for (pt_dtype t) n)))"

section \<open>Lemmas\<close>

lemma is_symbolic_new [simp]:
  "\<not> is_symbolic (new_static_dimension n)" "is_symbolic (new_symbolic_dimension s) \<longleftrightarrow> s \<noteq> []"
  by (simp_all add: is_symbolic_def new_static_dimension_def new_symbolic_dimension_def)

lemma overlaps_iff: "overlaps a b \<longleftrightarrow> iv_start b \<le> iv_end a \<and> iv_start a \<le> iv_end b"
  by (auto simp: overlaps_def)

lemma overlaps_sym: "overlaps a b = overlaps b a"
  by (auto simp: overlaps_iff)

text \<open>The concrete sizes of a shape, when every symbol is bound.\<close>

definition dim_value :: "symbol_map \<Rightarrow> dimension \<Rightarrow> int option" where
  "dim_value m d = (if is_symbolic d then m (dsym d) else Some (dstatic d))"

lemma count_elements_unbound:
  "(\<exists>i s. count_elements m k acc ds = Err (UnboundSymbol i s))
     \<longleftrightarrow> (\<exists>d \<in> set ds. dim_value m d = None)"
  by (induction ds arbitrary: k acc) (auto simp: dim_value_def split: option.splits)

fun dims_product :: "symbol_map \<Rightarrow> shape_schema \<Rightarrow> int option" where
  "dims_product m [] = Some 1"
| "dims_product m (d # ds) = (case (dim_value m d, dims_product m ds) of
     (Some v, Some p) \<Rightarrow> Some (v * p) | _ \<Rightarrow> None)"

lemma wrap64_mult_left: "wrap64 (wrap64 a * b) = wrap64 (a * b)"
proof -
  have w: "wrap64 x = wrap64 y" if "x mod 2 ^ 64 = y mod 2 ^ 64" for x y
  proof -
    have "(x + 2 ^ 63) mod 2 ^ 64 = (y + 2 ^ 63) mod 2 ^ 64"
      using that by (metis mod_add_left_eq)
    then show ?thesis by (simp only: wrap64_def)
  qed
  have a: "wrap64 a mod 2 ^ 64 = a mod 2 ^ 64"
    unfolding wrap64_def by (simp add: mod_diff_left_eq)
  show ?thesis by (rule w) (metis a mod_mult_left_eq)
qed

lemma wrap64_mult_right: "wrap64 (a * wrap64 b) = wrap64 (a * b)"
  by (metis mult.commute wrap64_mult_left)

lemma count_elements_product:
  "count_elements m k acc ds = Ok n \<Longrightarrow> in64 acc
     \<Longrightarrow> \<exists>p. dims_product m ds = Some p \<and> n = wrap64 (acc * p)"
proof (induction ds arbitrary: k acc)
  case Nil
  then show ?case by (simp add: wrap_simps)
next
  case (Cons d ds)
  then obtain v where v: "dim_value m d = Some v"
    and r: "count_elements m (Suc k) (wrap64 (acc * v)) ds = Ok n"
    by (auto simp: dim_value_def split: if_splits option.splits)
  from Cons.IH [OF r in64_wrap64] obtain p
    where "dims_product m ds = Some p" and "n = wrap64 (wrap64 (acc * v) * p)" by blast
  with v show ?case by (simp add: wrap64_mult_left mult.assoc)
qed

section \<open>Properties\<close>

text \<open>
  Byte size of a port. When \<open>PortByteSize\<close> succeeds on a port of positive rank, every
  dimension is a static size or a bound symbol and the result is what \<open>BytesFor\<close> gives for
  the product of the dimensions (as a 64-bit product); it reports an unbound symbol exactly
  when some symbolic dimension has no binding.
\<close>

theorem port_byte_size_sound:
  "(\<forall>b. port_byte_size t m = Ok b \<and> pt_shape t \<noteq> [] \<longrightarrow>
      (\<exists>p. dims_product m (pt_shape t) = Some p \<and> bytes_for (pt_dtype t) (wrap64 p) = Ok b))
   \<and> ((\<exists>i s. port_byte_size t m = Err (UnboundSymbol i s))
        \<longleftrightarrow> (\<exists>d \<in> set (pt_shape t). dim_value m d = None))"
proof (intro conjI allI impI)
  fix b
  assume ok: "port_byte_size t m = Ok b \<and> pt_shape t \<noteq> []"
  then obtain n where n: "count_elements m 0 1 (pt_shape t) = Ok n"
    and b: "bytes_for (pt_dtype t) n = Ok b"
    by (auto simp: port_byte_size_def split: if_splits)
  from count_elements_product [OF n] b
  show "\<exists>p. dims_product m (pt_shape t) = Some p \<and> bytes_for (pt_dtype t) (wrap64 p) = Ok b"
    by (auto simp: in64_def)
next
  have "port_byte_size t m = Err (UnboundSymbol i s)
    \<longleftrightarrow> count_elements m 0 1 (pt_shape t) = Err (UnboundSymbol i s)" for i s
    by (auto simp: port_byte_size_def rbind_Err_iff map_err_Err_iff)
  then show "(\<exists>i s. port_byte_size t m = Err (UnboundSymbol i s))
      \<longleftrightarrow> (\<exists>d \<in> set (pt_shape t). dim_value m d = None)"
    by (simp add: count_elements_unbound)
qed

theorem port_byte_size_sound_witness:
  "\<exists>p. dims_product [''B'' \<mapsto> 4] [new_symbolic_dimension ''B'', new_static_dimension 8] = Some p
     \<and> bytes_for Float32 (wrap64 p) = Ok 128"
proof -
  let ?t = "\<lparr>pt_dtype = Float32,
     pt_shape = [new_symbolic_dimension ''B'', new_static_dimension 8],
     pt_layout = LayoutContiguous, pt_kind = [], pt_constraints = []\<rparr>"
  have "port_byte_size ?t [''B'' \<mapsto> 4] = Ok 128"
    by (simp add: port_byte_size_def new_symbolic_dimension_def new_static_dimension_def
        is_symbolic_def bytes_for_def dtype_size_def wrap_simps)
  with port_byte_size_sound [of ?t "[''B'' \<mapsto> 4]"] show ?thesis by auto
qed

end
