(* ===== verification/Topology.thy ===== *)
theory Topology
  imports Port_Types
begin

text \<open>
  The compiled topology of \<open>ir/topology.go\<close>, \<open>ir/node.go\<close>, \<open>ir/port.go\<close>, \<open>ir/edge.go\<close> and
  \<open>ir/sync_event.go\<close>. A \<open>*Port\<close> is an address into a heap of ports, so that two nodes share
  a port exactly when they hold the same address; \<open>None\<close> is the nil pointer. Timestamps,
  descriptions, weights and the JIT code pointer are carried by no operation modelled here
  and are left out of the records.
\<close>

type_synonym port_heap = "nat \<Rightarrow> port"
type_synonym port_ref = "nat option"

record sync_event =
  se_event :: int
  se_stream :: int
  se_wait :: bool

record ir_node =
  n_name :: string
  n_id :: int
  n_op :: string
  n_bind :: string
  n_inputs :: "port_ref list"
  n_outputs :: "port_ref list"
  n_stream :: int
  n_sync :: "sync_event list"

record ir_edge =
  e_from :: string
  e_to :: string

record workspace_layout =
  ws_size :: int
  ws_align :: int
  ws_allocations :: "interval list"
  ws_bindings :: symbol_map

record topology =
  t_nodes :: "ir_node option list"
  t_edges :: "ir_edge list"
  t_workspace :: workspace_layout
  t_input_ports :: "string \<rightharpoonup> int"
  t_output_ports :: "string \<rightharpoonup> int"

abbreviation id_of :: "port_heap \<Rightarrow> nat \<Rightarrow> int" where
  "id_of h p \<equiv> port_id (h p)"

text \<open>The order in which the planner's passes visit the ports of a node.\<close>

definition node_ports :: "ir_node \<Rightarrow> port_ref list" where
  "node_ports n = n_outputs n @ n_inputs n"

definition all_ports :: "ir_node option list \<Rightarrow> port_ref list" where
  "all_ports ns = concat (map (\<lambda>n. case n of None \<Rightarrow> [] | Some x \<Rightarrow> node_ports x) ns)"

lemma all_ports_simps [simp]:
  "all_ports [] = []"
  "all_ports (None # ns) = all_ports ns"
  "all_ports (Some n # ns) = n_outputs n @ n_inputs n @ all_ports ns"
  by (simp_all add: all_ports_def node_ports_def)

end
