(* ===== verification/Alignment.thy ===== *)
theory Alignment
  imports Go_Prelude
begin

text \<open>
  Power-of-two alignment as the workspace planner computes it (\<open>isPowerOfTwo\<close> and \<open>alignUp\<close>
  of \<open>ir/planner.go\<close>): bit tricks on int64 values, related here to division. \<open>None\<close> is the
  panic of \<open>alignUp\<close> on an alignment that is not a power of two.
\<close>

unbundle bit_operations_syntax

definition is_power_of_two :: "int \<Rightarrow> bool" where
  "is_power_of_two v \<longleftrightarrow> v > 0 \<and> (v AND (v - 1)) = 0"

definition align_up :: "int \<Rightarrow> int \<Rightarrow> int option" where
  "align_up v align =
     (if align \<le> 1 then Some v
      else if \<not> is_power_of_two align then None
      else Some (wrap64 (wrap64 (v + align) - 1) AND NOT (align - 1)))"

text \<open>The smallest multiple of \<open>a\<close> that is at least \<open>v\<close>.\<close>

definition round_up :: "int \<Rightarrow> int \<Rightarrow> int" where
  "round_up v a = (v + a - 1) div a * a"

lemma power_of_two_iff: "is_power_of_two v \<longleftrightarrow> (\<exists>k. v = 2 ^ k)"
proof
  assume "is_power_of_two v"
  then have "0 < v" and "v AND (v - 1) = 0" by (simp_all add: is_power_of_two_def)
  then show "\<exists>k. v = 2 ^ k"
  proof (induction "nat v" arbitrary: v rule: less_induct)
    case less
    show ?case
    proof (cases "even v")
      case True
      then obtain w where v: "v = 2 * w" by blast
      have half: "(2 * w - 1) div 2 = w - 1" "2 * w \<noteq> 1" by presburger+
      have "v AND (v - 1) = 2 * (w AND (w - 1))"
        using and_int_unfold [of v "v - 1"] v half by auto
      then have "w AND (w - 1) = 0" and "0 < w" and "nat w < nat v"
        using less.prems v by auto
      with less.hyps obtain k where "w = 2 ^ k" by blast
      with v have "v = 2 ^ Suc k" by simp
      then show ?thesis by blast
    next
      case False
      then obtain w where v: "v = 2 * w + 1" by (auto elim: oddE)
      have "v AND (v - 1) = 2 * w"
        unfolding v by (subst and_int_unfold) auto
      with less.prems v have "v = 2 ^ 0" by simp
      then show ?thesis by blast
    qed
  qed
next
  assume "\<exists>k. v = 2 ^ k"
  then obtain k where v: "v = 2 ^ k" by blast
  have "v AND (v - 1) = take_bit k v"
    by (simp only: v take_bit_eq_mask mask_eq_exp_minus_1)
  with v show "is_power_of_two v" by (simp add: is_power_of_two_def)
qed

lemma power_of_two_pos: "is_power_of_two a \<Longrightarrow> 0 < a"
  by (simp add: is_power_of_two_def)

lemma round_up_ge: "0 < a \<Longrightarrow> v \<le> round_up v a"
  unfolding round_up_def
  by (smt (verit, ccfv_threshold) minus_mod_eq_div_mult pos_mod_bound)

lemma round_up_lt: "0 < a \<Longrightarrow> round_up v a < v + a"
  unfolding round_up_def
  by (smt (verit, ccfv_threshold) minus_mod_eq_div_mult pos_mod_sign)

lemma round_up_dvd [simp]: "a dvd round_up v a"
  by (simp add: round_up_def)

lemma round_up_nonneg: "0 < a \<Longrightarrow> 0 \<le> v \<Longrightarrow> 0 \<le> round_up v a"
  using round_up_ge [of a v] by simp

lemma round_up_least: "0 < a \<Longrightarrow> a dvd c \<Longrightarrow> v \<le> c \<Longrightarrow> round_up v a \<le> c"
proof -
  assume "0 < a" and "a dvd c" and "v \<le> c"
  then obtain q where c: "c = a * q" by blast
  have "(v + a - 1) div a \<le> (a - 1 + a * q) div a"
    by (rule zdiv_mono1) (use \<open>0 < a\<close> \<open>v \<le> c\<close> c in simp_all)
  also have "\<dots> = q" using \<open>0 < a\<close> by (subst div_mult_self2) simp_all
  finally have "(v + a - 1) div a * a \<le> q * a" using \<open>0 < a\<close> by simp
  then show ?thesis by (simp add: round_up_def c mult.commute)
qed

lemma round_up_id: "0 < a \<Longrightarrow> a dvd v \<Longrightarrow> round_up v a = v"
  using round_up_least [of a v v] round_up_ge [of a v] by simp

lemma round_up_zero [simp]: "0 < a \<Longrightarrow> round_up 0 a = 0"
  by (rule round_up_id) simp_all

lemma and_not_low:
  "x AND NOT (2 ^ k - 1) = x div 2 ^ k * (2 ^ k :: int)"
proof -
  have "x AND NOT (2 ^ k - 1) = x AND NOT (mask k)" by (simp only: mask_eq_exp_minus_1)
  also have "\<dots> = push_bit k (drop_bit k x)"
    by (rule bit_eqI) (auto simp: bit_simps)
  finally show ?thesis by (simp add: push_bit_eq_mult drop_bit_eq_div)
qed

lemma align_up_eq [align_simps]:
  assumes "is_power_of_two a" and "0 \<le> v" and "v + a < 2 ^ 63"
  shows "align_up v a = Some (round_up v a)"
proof -
  obtain k where k: "a = 2 ^ k" using assms(1) power_of_two_iff by blast
  show ?thesis
  proof (cases "a \<le> 1")
    case True
    then have "a = 1" using k by (simp add: antisym)
    then show ?thesis by (simp add: align_up_def round_up_def)
  next
    case False
    with assms have "wrap64 (wrap64 (v + a) - 1) = v + a - 1" by (simp add: wrap_simps)
    with False assms(1) show ?thesis
      by (simp add: align_up_def round_up_def k and_not_low)
  qed
qed

text \<open>
  Alignment. For a power-of-two alignment and a non-negative value whose sum with it stays
  below 2^63, \<open>alignUp\<close> does not panic and returns the smallest multiple of the alignment
  that is at least the value.
\<close>

theorem align_up_smallest_multiple:
  assumes "is_power_of_two a" and "0 \<le> v" and "v + a < 2 ^ 63"
  shows "\<exists>r. align_up v a = Some r \<and> a dvd r \<and> v \<le> r \<and> (\<forall>c. a dvd c \<and> v \<le> c \<longrightarrow> r \<le> c)"
  using align_up_eq [OF assms] round_up_ge round_up_least power_of_two_pos [OF assms(1)] by auto

theorem align_up_smallest_multiple_witness:
  "\<exists>r. align_up 100 64 = Some r \<and> 64 dvd r \<and> 100 \<le> r \<and> (\<forall>c. 64 dvd c \<and> 100 \<le> c \<longrightarrow> r \<le> c)"
  by (rule align_up_smallest_multiple) (simp_all add: is_power_of_two_def)

end
