(* ===== verification/Offsets.thy ===== *)
theory Offsets
  imports Alignment Port_Types "HOL-Library.Product_Lexorder" "HOL-Library.Multiset"
begin

text \<open>
  The interval-colouring allocator of \<open>ir/planner.go\<close>: \<open>AllocateOffsets\<close> and its helper
  \<open>chooseLowestNonConflictingOffset\<close>. The helper's \<open>for\<close> loop has no bound in the source, so
  \<open>scan_offsets\<close> is a partial function and \<open>None\<close> is a loop that does not return (or the
  panic of \<open>alignUp\<close>). \<open>sort.Slice\<close> is a stable sort by the key of the source; the order it
  leaves equal keys in is irrelevant to the results proved here.
\<close>

record live_block =
  lb_offset :: int
  lb_size :: int
  lb_end :: int

section \<open>The lowest free offset\<close>

fun first_conflict :: "int \<Rightarrow> int \<Rightarrow> live_block list \<Rightarrow> live_block option" where
  "first_conflict c sz [] = None"
| "first_conflict c sz (b # bs) =
     (if c \<ge> wrap64 (lb_offset b + lb_size b) then first_conflict c sz bs
      else if wrap64 (c + sz) \<le> lb_offset b then first_conflict c sz bs
      else Some b)"

partial_function (option) scan_offsets ::
  "int \<Rightarrow> int \<Rightarrow> live_block list \<Rightarrow> int \<Rightarrow> int option" where
  [code]: "scan_offsets align sz sorted_live c =
     (case first_conflict c sz sorted_live of
        None \<Rightarrow> Some c
      | Some b \<Rightarrow>
          (case align_up (wrap64 (lb_offset b + lb_size b)) align of
             None \<Rightarrow> None
           | Some c' \<Rightarrow> scan_offsets align sz sorted_live c'))"

definition choose_lowest_offset :: "int \<Rightarrow> live_block list \<Rightarrow> int \<Rightarrow> int option" where
  "choose_lowest_offset sz live align =
     (if live = [] then Some 0
      else scan_offsets align sz (sort_key lb_offset live) 0)"

section \<open>The allocation loop\<close>

fun allocate_loop ::
  "int \<Rightarrow> interval list \<Rightarrow> live_block list \<Rightarrow> int \<Rightarrow> (int \<times> interval list) option" where
  "allocate_loop align [] live high = Some (high, [])"
| "allocate_loop align (iv # ivs) live high =
     (case align_up (iv_size iv) align of
        None \<Rightarrow> None
      | Some sz \<Rightarrow>
        (let still = filter (\<lambda>b. lb_end b \<ge> iv_start iv) live in
         case choose_lowest_offset sz still align of
           None \<Rightarrow> None
         | Some off \<Rightarrow>
           (let block = \<lparr>lb_offset = off, lb_size = sz, lb_end = iv_end iv\<rparr>;
                high' = (if high < wrap64 (off + sz) then wrap64 (off + sz) else high)
            in case allocate_loop align ivs (still @ [block]) high' of
                 None \<Rightarrow> None
               | Some (h, out) \<Rightarrow> Some (h, iv\<lparr>iv_offset := off, iv_size := sz\<rparr> # out))))"

definition allocation_order :: "interval \<Rightarrow> int \<times> int" where
  "allocation_order iv = (iv_start iv, iv_port iv)"

definition allocate_offsets :: "interval list \<Rightarrow> int \<Rightarrow> (int \<times> interval list) option" where
  "allocate_offsets ivs align =
     (let align = (if align \<le> 0 then 64 else align) in
      if ivs = [] then Some (0, [])
      else case allocate_loop align (sort_key allocation_order ivs) [] 0 of
          None \<Rightarrow> None
        | Some (high, work) \<Rightarrow>
            (case align_up high align of None \<Rightarrow> None | Some top_mark \<Rightarrow> Some (top_mark, work)))"

section \<open>Well-formed live blocks\<close>

definition block_ok :: "int \<Rightarrow> int \<Rightarrow> live_block \<Rightarrow> bool" where
  "block_ok align high b \<longleftrightarrow> 0 \<le> lb_offset b \<and> 0 \<le> lb_size b \<and> align dvd lb_offset b
     \<and> align dvd lb_size b \<and> lb_offset b + lb_size b \<le> high"

definition block_conflict :: "int \<Rightarrow> int \<Rightarrow> live_block \<Rightarrow> bool" where
  "block_conflict c sz b \<longleftrightarrow> c < lb_offset b + lb_size b \<and> lb_offset b < c + sz"

lemma block_ok_mono: "block_ok a h b \<Longrightarrow> h \<le> h' \<Longrightarrow> block_ok a h' b"
  by (simp add: block_ok_def)

lemma first_conflict_spec:
  assumes "\<forall>b \<in> set bs. block_ok a high b" and "0 \<le> c" and "0 \<le> sz"
    and "c \<le> high" and "high + sz < 2 ^ 63"
  shows "(first_conflict c sz bs = None \<longleftrightarrow> (\<forall>b \<in> set bs. \<not> block_conflict c sz b))
     \<and> (\<forall>b. first_conflict c sz bs = Some b \<longrightarrow> b \<in> set bs \<and> block_conflict c sz b)"
  using assms(1)
proof (induction bs)
  case Nil
  then show ?case by simp
next
  case (Cons b bs)
  from Cons.prems have ok: "block_ok a high b" by simp
  with assms have "wrap64 (lb_offset b + lb_size b) = lb_offset b + lb_size b"
    by (intro wrap64_pos) (auto simp: block_ok_def)
  moreover from assms have "wrap64 (c + sz) = c + sz" by (intro wrap64_pos) auto
  ultimately show ?case using Cons by (auto simp: block_conflict_def)
qed

lemma filter_length_mono:
  "(\<And>x. x \<in> set xs \<Longrightarrow> P x \<Longrightarrow> Q x) \<Longrightarrow> length (filter P xs) \<le> length (filter Q xs)"
  by (induction xs) auto

lemma filter_length_strict:
  assumes "\<And>x. P x \<Longrightarrow> Q x" and "y \<in> set xs" and "Q y" and "\<not> P y"
  shows "length (filter P xs) < length (filter Q xs)"
proof -
  from assms(2) obtain us vs where xs: "xs = us @ y # vs" by (auto dest: split_list)
  have "length (filter P us) \<le> length (filter Q us)"
    and "length (filter P vs) \<le> length (filter Q vs)"
    using assms(1) by (auto intro: filter_length_mono)
  with xs assms(3,4) show ?thesis by simp
qed

section \<open>Termination and minimality of the scan\<close>

lemma scan_offsets_returns:
  assumes a: "is_power_of_two a" and ok: "\<forall>b \<in> set bs. block_ok a high b"
    and sz: "0 \<le> sz" and big: "high + sz < 2 ^ 63" "high + a < 2 ^ 63"
    and c: "0 \<le> c" "c \<le> high" "a dvd c"
    and low: "\<forall>d. 0 \<le> d \<and> d < c \<and> a dvd d \<longrightarrow> (\<exists>b \<in> set bs. block_conflict d sz b)"
  shows "\<exists>r. scan_offsets a sz bs c = Some r \<and> 0 \<le> r \<and> r \<le> high \<and> a dvd r
     \<and> (\<forall>b \<in> set bs. \<not> block_conflict r sz b)
     \<and> (\<forall>d. 0 \<le> d \<and> d < r \<and> a dvd d \<longrightarrow> (\<exists>b \<in> set bs. block_conflict d sz b))"
  using c low
proof (induction "length (filter (\<lambda>b. c < lb_offset b + lb_size b) bs)" arbitrary: c
    rule: less_induct)
  case less
  note fc = first_conflict_spec [OF ok less.prems(1) sz less.prems(2) big(1)]
  have pos: "0 < a" using a by (rule power_of_two_pos)
  show ?case
  proof (cases "first_conflict c sz bs")
    case None
    then have "scan_offsets a sz bs c = Some c" by (subst scan_offsets.simps) simp
    with None fc less.prems show ?thesis by auto
  next
    case (Some b)
    let ?e = "lb_offset b + lb_size b"
    from Some fc have b: "b \<in> set bs" "block_conflict c sz b" by auto
    with ok have okb: "0 \<le> ?e" "?e \<le> high" "a dvd ?e" by (auto simp: block_ok_def)
    have "align_up (wrap64 ?e) a = Some ?e"
      using okb big a pos by (simp add: wrap_simps align_up_eq round_up_id)
    then have step: "scan_offsets a sz bs c = scan_offsets a sz bs ?e"
      using Some by (subst scan_offsets.simps) simp
    have "c < ?e" using b by (simp add: block_conflict_def)
    have "length (filter (\<lambda>x. ?e < lb_offset x + lb_size x) bs)
        < length (filter (\<lambda>x. c < lb_offset x + lb_size x) bs)"
      using \<open>c < ?e\<close> by (intro filter_length_strict [OF _ b(1)]) auto
    moreover have "\<forall>d. 0 \<le> d \<and> d < ?e \<and> a dvd d \<longrightarrow> (\<exists>b \<in> set bs. block_conflict d sz b)"
    proof (intro allI impI)
      fix d assume d: "0 \<le> d \<and> d < ?e \<and> a dvd d"
      show "\<exists>b \<in> set bs. block_conflict d sz b"
      proof (cases "d < c")
        case True
        with d less.prems show ?thesis by blast
      next
        case False
        with d b show ?thesis by (auto simp: block_conflict_def)
      qed
    qed
    ultimately show ?thesis using less.hyps [of ?e] okb step by simp
  qed
qed

lemma choose_lowest_returns:
  assumes a: "is_power_of_two a" and ok: "\<forall>b \<in> set live. block_ok a high b"
    and sz: "0 \<le> sz" and high: "0 \<le> high" and big: "high + sz < 2 ^ 63" "high + a < 2 ^ 63"
  shows "\<exists>r. choose_lowest_offset sz live a = Some r \<and> 0 \<le> r \<and> r \<le> high \<and> a dvd r
     \<and> (\<forall>b \<in> set live. \<not> block_conflict r sz b)
     \<and> (\<forall>d. 0 \<le> d \<and> d < r \<and> a dvd d \<longrightarrow> (\<exists>b \<in> set live. block_conflict d sz b))"
proof (cases "live = []")
  case True
  with high show ?thesis by (simp add: choose_lowest_offset_def)
next
  case False
  have "\<forall>b \<in> set (sort_key lb_offset live). block_ok a high b" using ok by simp
  moreover have "\<forall>d. 0 \<le> d \<and> d < 0 \<and> a dvd d \<longrightarrow>
      (\<exists>b \<in> set (sort_key lb_offset live). block_conflict d sz b)" by auto
  ultimately show ?thesis
    using scan_offsets_returns [OF a _ sz big order_refl high, of "sort_key lb_offset live"] False
    by (simp add: choose_lowest_offset_def)
qed

section \<open>Soundness of the loop\<close>

definition disjoint_ranges :: "interval \<Rightarrow> interval \<Rightarrow> bool" where
  "disjoint_ranges x y \<longleftrightarrow>
     iv_offset x + iv_size x \<le> iv_offset y \<or> iv_offset y + iv_size y \<le> iv_offset x"

definition placed_ok :: "int \<Rightarrow> int \<Rightarrow> interval \<Rightarrow> bool" where
  "placed_ok align high iv \<longleftrightarrow> 0 \<le> iv_offset iv \<and> 0 \<le> iv_size iv \<and> align dvd iv_offset iv
     \<and> align dvd iv_size iv \<and> iv_offset iv + iv_size iv \<le> high"

definition placed_from :: "int \<Rightarrow> interval \<Rightarrow> interval \<Rightarrow> bool" where
  "placed_from align iv out \<longleftrightarrow>
     (\<exists>off. out = iv\<lparr>iv_offset := off, iv_size := round_up (iv_size iv) align\<rparr>)"

definition apart :: "interval \<Rightarrow> interval \<Rightarrow> bool" where
  "apart x y \<longleftrightarrow> (iv_start y \<le> iv_end x \<longrightarrow> disjoint_ranges x y)"

definition clear_of :: "interval \<Rightarrow> live_block \<Rightarrow> bool" where
  "clear_of iv b \<longleftrightarrow> (iv_start iv \<le> lb_end b \<longrightarrow>
     \<not> block_conflict (iv_offset iv) (iv_size iv) b)"

abbreviation rounded_total :: "int \<Rightarrow> interval list \<Rightarrow> int" where
  "rounded_total a ivs \<equiv> (\<Sum>iv \<leftarrow> ivs. round_up (iv_size iv) a)"

lemma rounded_total_nonneg:
  "0 < a \<Longrightarrow> \<forall>iv \<in> set ivs. 0 \<le> iv_size iv \<Longrightarrow> 0 \<le> rounded_total a ivs"
  by (auto intro!: sum_list_nonneg round_up_nonneg)

lemma clear_of_apart:
  assumes "clear_of y b" and "0 < iv_size x \<or> 0 < iv_size y \<or> True"
    and "lb_offset b = iv_offset x" and "lb_size b = iv_size x" and "lb_end b = iv_end x"
  shows "apart x y"
  using assms by (auto simp: clear_of_def apart_def disjoint_ranges_def block_conflict_def)

lemma allocate_loop_sound:
  assumes a: "is_power_of_two a"
  shows "\<lbrakk> \<forall>b \<in> set live. block_ok a high b; 0 \<le> high; \<forall>iv \<in> set ivs. 0 \<le> iv_size iv;
     high + rounded_total a ivs + a < 2 ^ 63; sorted (map iv_start ivs) \<rbrakk>
   \<Longrightarrow> \<exists>high' out. allocate_loop a ivs live high = Some (high', out)
     \<and> high \<le> high' \<and> high' \<le> high + rounded_total a ivs \<and> list_all2 (placed_from a) ivs out
     \<and> (\<forall>iv \<in> set out. placed_ok a high' iv) \<and> sorted_wrt apart out
     \<and> (\<forall>iv \<in> set out. \<forall>b \<in> set live. clear_of iv b)"
proof (induction ivs arbitrary: live high)
  case Nil
  then show ?case by simp
next
  case (Cons iv ivs)
  have pos: "0 < a" using a by (rule power_of_two_pos)
  define sz where "sz = round_up (iv_size iv) a"
  define still where "still = filter (\<lambda>b. lb_end b \<ge> iv_start iv) live"
  have sz: "0 \<le> sz" and szd: "a dvd sz" and up: "iv_size iv \<le> sz"
    using Cons.prems(3) pos by (simp_all add: sz_def round_up_nonneg round_up_ge)
  have rest: "0 \<le> rounded_total a ivs" using Cons.prems(3) pos by (simp add: rounded_total_nonneg)
  have split: "rounded_total a (iv # ivs) = sz + rounded_total a ivs" by (simp add: sz_def)
  have big: "high + sz < 2 ^ 63" "high + a < 2 ^ 63" "high + sz + rounded_total a ivs + a < 2 ^ 63"
    using Cons.prems(4) split rest sz pos by linarith+
  have "align_up (iv_size iv) a = Some sz"
    unfolding sz_def using Cons.prems(2,3) big up rest by (intro align_up_eq [OF a]) auto
  moreover have still_ok: "\<forall>b \<in> set still. block_ok a high b"
    using Cons.prems(1) by (simp add: still_def)
  then obtain off where off: "choose_lowest_offset sz still a = Some off" "0 \<le> off" "off \<le> high"
      "a dvd off" and nc: "\<forall>b \<in> set still. \<not> block_conflict off sz b"
    using choose_lowest_returns [OF a still_ok sz Cons.prems(2) big(1,2)] by blast
  define block where "block = \<lparr>lb_offset = off, lb_size = sz, lb_end = iv_end iv\<rparr>"
  define high1 where "high1 = (if high < off + sz then off + sz else high)"
  have w: "wrap64 (off + sz) = off + sz" using off sz big by (intro wrap64_pos) auto
  have h1: "high \<le> high1" "off + sz \<le> high1" "high1 \<le> high + sz"
    using off sz by (auto simp: high1_def)
  have "\<forall>b \<in> set (still @ [block]). block_ok a high1 b"
    using still_ok h1 off sz szd by (auto simp: block_def block_ok_def)
  moreover have "0 \<le> high1" using h1 Cons.prems(2) by linarith
  moreover have "high1 + rounded_total a ivs + a < 2 ^ 63" using h1 big by linarith
  ultimately obtain high' out where loop: "allocate_loop a ivs (still @ [block]) high1 = Some (high', out)"
    and hh: "high1 \<le> high'" "high' \<le> high1 + rounded_total a ivs"
    and l2: "list_all2 (placed_from a) ivs out"
    and pl: "\<forall>iv \<in> set out. placed_ok a high' iv" and sw: "sorted_wrt apart out"
    and cl: "\<forall>iv \<in> set out. \<forall>b \<in> set (still @ [block]). clear_of iv b"
    using Cons.IH [of "still @ [block]" high1] Cons.prems(3,5) by auto
  define ivo where "ivo = iv\<lparr>iv_offset := off, iv_size := sz\<rparr>"
  have run: "allocate_loop a (iv # ivs) live high = Some (high', ivo # out)"
    using \<open>align_up (iv_size iv) a = Some sz\<close> off(1) loop w
    by (cases "high < off + sz")
      (simp_all add: Let_def still_def [symmetric] block_def [symmetric] high1_def ivo_def)
  have later: "\<forall>x \<in> set out. iv_start iv \<le> iv_start x"
  proof
    fix x assume "x \<in> set out"
    with l2 obtain y where "y \<in> set ivs" "placed_from a y x"
      by (metis in_set_conv_nth list_all2_conv_all_nth)
    with Cons.prems(5) show "iv_start iv \<le> iv_start x" by (auto simp: placed_from_def)
  qed
  have "\<forall>x \<in> set (ivo # out). \<forall>b \<in> set live. clear_of x b"
  proof (intro ballI)
    fix x b assume x: "x \<in> set (ivo # out)" and b: "b \<in> set live"
    show "clear_of x b"
    proof (cases "b \<in> set still")
      case True
      with x nc cl show ?thesis by (auto simp: clear_of_def ivo_def)
    next
      case False
      with b have "lb_end b < iv_start iv" by (auto simp: still_def)
      moreover have "iv_start iv \<le> iv_start x" using x later by (auto simp: ivo_def)
      ultimately show ?thesis by (simp add: clear_of_def)
    qed
  qed
  moreover have "\<forall>x \<in> set out. apart ivo x"
    using cl by (auto intro!: clear_of_apart [of _ block] simp: block_def ivo_def)
  moreover have "placed_ok a high' ivo"
    using off sz szd h1 hh by (simp add: placed_ok_def ivo_def)
  moreover have "placed_from a iv ivo" by (auto simp: placed_from_def ivo_def sz_def)
  moreover have "high \<le> high'" "high' \<le> high + rounded_total a (iv # ivs)"
    using h1 hh split by linarith+
  ultimately show ?case using run l2 pl sw by auto
qed

lemma allocation_order_starts:
  assumes "sorted (map allocation_order ivs)"
  shows "sorted (map iv_start ivs)"
proof -
  have "sorted_wrt (\<lambda>x y. allocation_order x \<le> allocation_order y) ivs"
    using assms by (simp add: sorted_map)
  then have "sorted_wrt (\<lambda>x y. iv_start x \<le> iv_start y) ivs"
    by (rule sorted_wrt_mono_rel [rotated]) (auto simp: allocation_order_def)
  then show ?thesis by (simp add: sorted_map)
qed

section \<open>Properties\<close>

text \<open>
  C19. Lowest free offset. With power-of-two alignment, live blocks that are aligned and lie
  within \<open>[0, high]\<close>, and no int64 overflow, the scan returns: the result is aligned, does
  not collide with any live block, and no smaller aligned offset would do.
\<close>

theorem choose_lowest_offset_correct:
  assumes "is_power_of_two a" and "\<forall>b \<in> set live. block_ok a high b" and "0 \<le> sz"
    and "0 \<le> high" and "high + sz < 2 ^ 63" and "high + a < 2 ^ 63"
  shows "\<exists>r. choose_lowest_offset sz live a = Some r \<and> 0 \<le> r \<and> a dvd r
     \<and> (\<forall>b \<in> set live. \<not> block_conflict r sz b)
     \<and> (\<forall>d. 0 \<le> d \<and> d < r \<and> a dvd d \<longrightarrow> (\<exists>b \<in> set live. block_conflict d sz b))"
  using choose_lowest_returns [OF assms] by blast

theorem choose_lowest_offset_correct_witness:
  "\<exists>r. choose_lowest_offset 64 [\<lparr>lb_offset = 128, lb_size = 64, lb_end = 3\<rparr>,
        \<lparr>lb_offset = 0, lb_size = 64, lb_end = 2\<rparr>] 64 = Some r \<and> 0 \<le> r \<and> 64 dvd r
     \<and> (\<forall>b \<in> set [\<lparr>lb_offset = 128, lb_size = 64, lb_end = 3\<rparr>,
          \<lparr>lb_offset = 0, lb_size = 64, lb_end = 2\<rparr>]. \<not> block_conflict r 64 b)
     \<and> (\<forall>d. 0 \<le> d \<and> d < r \<and> 64 dvd d \<longrightarrow>
          (\<exists>b \<in> set [\<lparr>lb_offset = 128, lb_size = 64, lb_end = 3\<rparr>,
            \<lparr>lb_offset = 0, lb_size = 64, lb_end = 2\<rparr>]. block_conflict d 64 b))"
  by (rule choose_lowest_offset_correct [where high = 192])
    (simp_all add: is_power_of_two_def block_ok_def)

lemma allocate_offsets_spec:
  assumes a: "a = (if align \<le> 0 then 64 else align)" and p2: "is_power_of_two a"
    and sizes: "\<forall>iv \<in> set ivs. 0 \<le> iv_size iv"
    and small: "(\<Sum>iv \<leftarrow> ivs. round_up (iv_size iv) a) + a < 2 ^ 63"
  shows "\<exists>ws out. allocate_offsets ivs align = Some (ws, out)
     \<and> list_all2 (placed_from a) (sort_key allocation_order ivs) out
     \<and> a dvd ws \<and> ws \<le> (\<Sum>iv \<leftarrow> ivs. round_up (iv_size iv) a)
     \<and> (\<forall>iv \<in> set out. placed_ok a ws iv)
     \<and> (\<forall>i j. i < j \<and> j < length out \<and> overlaps (out ! i) (out ! j)
           \<longrightarrow> disjoint_ranges (out ! i) (out ! j))"
proof (cases "ivs = []")
  case True
  then show ?thesis by (simp add: allocate_offsets_def)
next
  case False
  let ?work = "sort_key allocation_order ivs"
  have pos: "0 < a" using p2 by (rule power_of_two_pos)
  have "mset (map (\<lambda>iv. round_up (iv_size iv) a) ?work)
      = mset (map (\<lambda>iv. round_up (iv_size iv) a) ivs)" by simp
  then have tot: "rounded_total a ?work = rounded_total a ivs"
    by (metis sum_mset_sum_list)
  have srt: "sorted (map iv_start ?work)" by (rule allocation_order_starts) simp
  have "\<forall>iv \<in> set ?work. 0 \<le> iv_size iv" using sizes by simp
  moreover have "0 + rounded_total a ?work + a < 2 ^ 63" using small tot by simp
  ultimately obtain high out where run: "allocate_loop a ?work [] 0 = Some (high, out)"
    and h: "0 \<le> high" "high \<le> 0 + rounded_total a ?work" and l2: "list_all2 (placed_from a) ?work out"
    and pl: "\<forall>iv \<in> set out. placed_ok a high iv" and sw: "sorted_wrt apart out"
    using allocate_loop_sound [OF p2, of "[]" 0 ?work] srt by auto
  define ws where "ws = round_up high a"
  have up: "align_up high a = Some ws"
    unfolding ws_def using h small tot by (intro align_up_eq [OF p2]) simp_all
  have "a dvd rounded_total a ivs" by (induction ivs) auto
  then have "ws \<le> rounded_total a ivs" using h tot by (simp add: ws_def round_up_least [OF pos])
  moreover have "high \<le> ws" by (simp add: ws_def round_up_ge [OF pos])
  then have "\<forall>iv \<in> set out. placed_ok a ws iv" using pl by (auto simp: placed_ok_def)
  moreover have "disjoint_ranges (out ! i) (out ! j)"
    if "i < j" "j < length out" "overlaps (out ! i) (out ! j)" for i j
    using sw that by (auto simp: sorted_wrt_iff_nth_less apart_def overlaps_iff)
  moreover have "allocate_offsets ivs align = Some (ws, out)"
    using run up False a by (simp add: allocate_offsets_def Let_def)
  ultimately show ?thesis using l2 by (auto simp: ws_def)
qed

text \<open>
  C3. Allocation soundness. For a power-of-two alignment (or one \<open>\<le> 0\<close>, which becomes 64)
  and intervals of non-negative size whose rounded total fits an int64, \<open>AllocateOffsets\<close>
  returns; it keeps every interval, only setting its offset and rounding its size; every
  offset and size is aligned and lies inside the workspace; two intervals whose lifetimes
  overlap get disjoint byte ranges; and the workspace is never larger than the sum of the
  rounded sizes.
\<close>

theorem allocate_offsets_sound:
  assumes a: "a = (if align \<le> 0 then 64 else align)" and p2: "is_power_of_two a"
    and sizes: "\<forall>iv \<in> set ivs. 0 \<le> iv_size iv"
    and small: "(\<Sum>iv \<leftarrow> ivs. round_up (iv_size iv) a) + a < 2 ^ 63"
  shows "\<exists>ws out. allocate_offsets ivs align = Some (ws, out)
     \<and> list_all2 (placed_from a) (sort_key allocation_order ivs) out
     \<and> a dvd ws \<and> ws \<le> (\<Sum>iv \<leftarrow> ivs. round_up (iv_size iv) a)
     \<and> (\<forall>iv \<in> set out. placed_ok a ws iv)
     \<and> (\<forall>i j. i < j \<and> j < length out \<and> overlaps (out ! i) (out ! j)
           \<longrightarrow> disjoint_ranges (out ! i) (out ! j))"
  using assms by (rule allocate_offsets_spec)

theorem allocate_offsets_sound_witness:
  "\<exists>ws out. allocate_offsets [\<lparr>iv_port = 1, iv_start = 0, iv_end = 2, iv_offset = 0, iv_size = 100\<rparr>,
        \<lparr>iv_port = 2, iv_start = 1, iv_end = 3, iv_offset = 0, iv_size = 10\<rparr>] 0 = Some (ws, out)
     \<and> 64 dvd ws \<and> (\<forall>iv \<in> set out. placed_ok 64 ws iv)"
  using allocate_offsets_sound [of 64 0 "[\<lparr>iv_port = 1, iv_start = 0, iv_end = 2, iv_offset = 0,
      iv_size = 100\<rparr>, \<lparr>iv_port = 2, iv_start = 1, iv_end = 3, iv_offset = 0, iv_size = 10\<rparr>]"]
  by (simp add: is_power_of_two_def round_up_def) blast

end
