(* ===== verification/Liveness.thy ===== *)
theory Liveness
  imports Topology Offsets
begin

text \<open>
  Port numbering and liveness analysis of \<open>ir/planner.go\<close>: \<open>AssignPortIDs\<close> and
  \<open>AnalyzeLiveness\<close>. The analysis keeps a Go map from port id to interval; here it is the
  list of its intervals, with at most one per id, in insertion order. Go's random map
  iteration order does not show, because the final sort is by a key that is unique per
  interval.
\<close>

section \<open>Port numbering\<close>

fun bump_pass :: "port_heap \<Rightarrow> nat set \<Rightarrow> int \<Rightarrow> port_ref list \<Rightarrow> int" where
  "bump_pass h seen nxt [] = nxt"
| "bump_pass h seen nxt (None # ps) = bump_pass h seen nxt ps"
| "bump_pass h seen nxt (Some p # ps) =
     (if p \<in> seen then bump_pass h seen nxt ps
      else bump_pass h (insert p seen) (if id_of h p \<ge> nxt then wrap32 (id_of h p + 1) else nxt) ps)"

fun assign_pass :: "port_heap \<Rightarrow> nat set \<Rightarrow> int \<Rightarrow> port_ref list \<Rightarrow> port_heap" where
  "assign_pass h seen nxt [] = h"
| "assign_pass h seen nxt (None # ps) = assign_pass h seen nxt ps"
| "assign_pass h seen nxt (Some p # ps) =
     (if p \<in> seen then assign_pass h seen nxt ps
      else if id_of h p = 0
      then assign_pass (h(p := (h p)\<lparr>port_id := nxt\<rparr>)) (insert p seen) (wrap32 (nxt + 1)) ps
      else assign_pass h (insert p seen) nxt ps)"

text \<open>\<open>None\<close> is the nil dereference on a nil node.\<close>

definition assign_port_ids :: "port_heap \<Rightarrow> ir_node option list \<Rightarrow> port_heap option" where
  "assign_port_ids h nodes =
     (if None \<in> set nodes then None
      else Some (assign_pass h {} (bump_pass h {} 1 (all_ports nodes)) (all_ports nodes)))"

section \<open>Liveness analysis\<close>

datatype liveness_error = ProducedSize int size_error | UnproducedSize int size_error

definition register_output ::
  "symbol_map \<Rightarrow> port_heap \<Rightarrow> int \<Rightarrow> port_ref \<Rightarrow> interval list
     \<Rightarrow> (liveness_error, interval list) res" where
  "register_output m h step p ivs = (case p of
     None \<Rightarrow> Ok ivs
   | Some a \<Rightarrow>
       if id_of h a = 0 then Ok ivs
       else if id_of h a \<in> iv_port ` set ivs then Ok ivs
       else rbind (map_err (ProducedSize (id_of h a)) (port_byte_size (port_type (h a)) m)) (\<lambda>sz.
         Ok (ivs @ [\<lparr>iv_port = id_of h a, iv_start = step, iv_end = step, iv_offset = 0,
                     iv_size = sz\<rparr>])))"

definition extend_for_consumer ::
  "symbol_map \<Rightarrow> port_heap \<Rightarrow> int \<Rightarrow> port_ref \<Rightarrow> interval list
     \<Rightarrow> (liveness_error, interval list) res" where
  "extend_for_consumer m h step p ivs = (case p of
     None \<Rightarrow> Ok ivs
   | Some a \<Rightarrow>
       if id_of h a = 0 then Ok ivs
       else if id_of h a \<notin> iv_port ` set ivs
       then rbind (map_err (UnproducedSize (id_of h a)) (port_byte_size (port_type (h a)) m)) (\<lambda>sz.
         Ok (ivs @ [\<lparr>iv_port = id_of h a, iv_start = 0, iv_end = step, iv_offset = 0,
                     iv_size = sz\<rparr>]))
       else Ok (map (\<lambda>iv. if iv_port iv = id_of h a \<and> step > iv_end iv
                          then iv\<lparr>iv_end := step\<rparr> else iv) ivs))"

fun liveness_loop ::
  "symbol_map \<Rightarrow> port_heap \<Rightarrow> int \<Rightarrow> ir_node option list \<Rightarrow> interval list
     \<Rightarrow> (liveness_error, interval list) res" where
  "liveness_loop m h step [] ivs = Ok ivs"
| "liveness_loop m h step (None # ns) ivs = liveness_loop m h (step + 1) ns ivs"
| "liveness_loop m h step (Some n # ns) ivs =
     rbind (fold_res (register_output m h step) (n_outputs n) ivs) (\<lambda>ivs1.
     rbind (fold_res (extend_for_consumer m h step) (n_inputs n) ivs1) (\<lambda>ivs2.
     liveness_loop m h (step + 1) ns ivs2))"

definition analyze_liveness ::
  "ir_node option list \<Rightarrow> port_heap \<Rightarrow> symbol_map \<Rightarrow> (liveness_error, interval list) res" where
  "analyze_liveness nodes h m =
     (if nodes = [] then Ok []
      else rbind (liveness_loop m h 0 nodes []) (\<lambda>ivs. Ok (sort_key allocation_order ivs)))"

section \<open>Numbering: lemmas\<close>

abbreviation refs :: "port_ref list \<Rightarrow> nat set" where
  "refs ps \<equiv> {p. Some p \<in> set ps}"

lemma bump_pass_above:
  "\<lbrakk> \<forall>p \<in> refs ps - seen. id_of h p < 2 ^ 31 - 1; 1 \<le> nxt; nxt < 2 ^ 31 \<rbrakk>
   \<Longrightarrow> nxt \<le> bump_pass h seen nxt ps \<and> (\<forall>p \<in> refs ps - seen. id_of h p < bump_pass h seen nxt ps)
      \<and> (\<forall>k. nxt \<le> k \<and> (\<forall>p \<in> refs ps - seen. id_of h p < k) \<longrightarrow> bump_pass h seen nxt ps \<le> k)"
proof (induction h seen nxt ps rule: bump_pass.induct)
  case (3 h seen nxt p ps)
  show ?case
  proof (cases "p \<in> seen")
    case True
    with 3 show ?thesis by auto
  next
    case False
    let ?n = "if id_of h p \<ge> nxt then wrap32 (id_of h p + 1) else nxt"
    have b: "id_of h p < 2 ^ 31 - 1" using "3.prems"(1) False by simp
    then have n: "nxt \<le> ?n" "id_of h p < ?n" "?n < 2 ^ 31"
        "\<forall>k. nxt \<le> k \<and> id_of h p < k \<longrightarrow> ?n \<le> k"
      using "3.prems" by (auto simp: wrap_simps)
    have "refs ps - insert p seen \<subseteq> refs (Some p # ps) - seen" by auto
    with "3.prems"(1) have "\<forall>q \<in> refs ps - insert p seen. id_of h q < 2 ^ 31 - 1" by blast
    from "3.IH"(2) [OF False this] n "3.prems"(2)
    have "?n \<le> bump_pass h (insert p seen) ?n ps"
      "\<forall>q \<in> refs ps - insert p seen. id_of h q < bump_pass h (insert p seen) ?n ps"
      "\<forall>k. ?n \<le> k \<and> (\<forall>q \<in> refs ps - insert p seen. id_of h q < k)
         \<longrightarrow> bump_pass h (insert p seen) ?n ps \<le> k" by auto
    with n False show ?thesis by (auto simp del: if_split)
  qed
qed auto

lemma assign_pass_sound:
  "\<lbrakk> 1 \<le> nxt; nxt + int (length ps) < 2 ^ 31 \<rbrakk>
   \<Longrightarrow> (\<forall>p. p \<in> seen \<or> p \<notin> refs ps \<or> id_of h p \<noteq> 0 \<longrightarrow> assign_pass h seen nxt ps p = h p)
      \<and> (\<forall>p \<in> refs ps - seen. id_of h p = 0 \<longrightarrow>
           (\<exists>i \<ge> nxt. assign_pass h seen nxt ps p = (h p)\<lparr>port_id := i\<rparr>))
      \<and> inj_on (id_of (assign_pass h seen nxt ps)) {p \<in> refs ps - seen. id_of h p = 0}"
proof (induction h seen nxt ps rule: assign_pass.induct)
  case (3 h seen nxt p ps)
  show ?case
  proof (cases "p \<in> seen")
    case True
    then have "refs (Some p # ps) - seen = refs ps - seen" by auto
    with 3 True show ?thesis by auto
  next
    case new: False
    show ?thesis
    proof (cases "id_of h p = 0")
      case False
      then have "{q \<in> refs (Some p # ps) - seen. id_of h q = 0}
          = {q \<in> refs ps - insert p seen. id_of h q = 0}" by auto
      with "3.IH"(3) [OF new False] "3.prems" new False show ?thesis by auto
    next
      case True
      let ?h = "h(p := (h p)\<lparr>port_id := nxt\<rparr>)"
      let ?r = "assign_pass ?h (insert p seen) (nxt + 1) ps"
      have w: "wrap32 (nxt + 1) = nxt + 1" using "3.prems" by (simp add: wrap_simps)
      have pre: "1 \<le> nxt + 1" "nxt + 1 + int (length ps) < 2 ^ 31" using "3.prems" by auto
      note ih = "3.IH"(2) [OF new True, unfolded w, OF pre]
      let ?Z = "{q \<in> refs ps - insert p seen. id_of h q = 0}"
      have Z: "{q \<in> refs ps - insert p seen. id_of ?h q = 0} = ?Z" by auto
      note same = ih [THEN conjunct1, rule_format]
        and zero = ih [THEN conjunct2, THEN conjunct1, rule_format]
        and inj = ih [THEN conjunct2, THEN conjunct2]
      have fixp: "?r p = (h p)\<lparr>port_id := nxt\<rparr>" using same [of p] by simp
      have ge: "\<forall>q \<in> ?Z. \<exists>i \<ge> nxt + 1. ?r q = (h q)\<lparr>port_id := i\<rparr>"
      proof
        fix q assume q: "q \<in> ?Z"
        then have "q \<noteq> p" by blast
        with q zero [of q] show "\<exists>i \<ge> nxt + 1. ?r q = (h q)\<lparr>port_id := i\<rparr>" by simp
      qed
      have "inj_on (id_of ?r) ?Z" using inj unfolding Z .
      moreover have "id_of ?r p = nxt" using fixp by simp
      moreover have "id_of ?r q \<noteq> nxt" if "q \<in> ?Z" for q
      proof -
        from ge that obtain i where "nxt + 1 \<le> i" "?r q = (h q)\<lparr>port_id := i\<rparr>" by blast
        then show ?thesis by simp
      qed
      ultimately have "inj_on (id_of ?r) (insert p ?Z)"
        unfolding inj_on_insert by (metis (no_types, lifting) DiffD1 imageE)
      moreover have "{q \<in> refs (Some p # ps) - seen. id_of h q = 0} = insert p ?Z"
        using new True by auto
      moreover have "assign_pass h seen nxt (Some p # ps) = ?r" using new True w by simp
      moreover have "\<forall>q. q \<in> seen \<or> q \<notin> refs (Some p # ps) \<or> id_of h q \<noteq> 0 \<longrightarrow> ?r q = h q"
      proof (intro allI impI)
        fix q assume q: "q \<in> seen \<or> q \<notin> refs (Some p # ps) \<or> id_of h q \<noteq> 0"
        with new True have "q \<noteq> p" by auto
        with q same [of q] show "?r q = h q" by auto
      qed
      moreover have "\<forall>q \<in> insert p ?Z. \<exists>i \<ge> nxt. ?r q = (h q)\<lparr>port_id := i\<rparr>"
      proof
        fix q assume "q \<in> insert p ?Z"
        then consider "q = p" | "q \<in> ?Z" by blast
        then show "\<exists>i \<ge> nxt. ?r q = (h q)\<lparr>port_id := i\<rparr>"
        proof cases
          case 1
          then show ?thesis using fixp by blast
        next
          case 2
          then obtain i where "nxt + 1 \<le> i" "?r q = (h q)\<lparr>port_id := i\<rparr>" using ge by blast
          then show ?thesis by (intro exI [of _ i]) simp
        qed
      qed
      ultimately show ?thesis by (simp only:) blast
    qed
  qed
qed auto

section \<open>Liveness: the events of a topology\<close>

record live_event =
  ev_step :: int
  ev_out :: bool
  ev_ref :: port_ref

definition node_events :: "int \<Rightarrow> ir_node \<Rightarrow> live_event list" where
  "node_events step n =
     map (\<lambda>p. \<lparr>ev_step = step, ev_out = True, ev_ref = p\<rparr>) (n_outputs n)
     @ map (\<lambda>p. \<lparr>ev_step = step, ev_out = False, ev_ref = p\<rparr>) (n_inputs n)"

fun events_from :: "int \<Rightarrow> ir_node option list \<Rightarrow> live_event list" where
  "events_from step [] = []"
| "events_from step (None # ns) = events_from (step + 1) ns"
| "events_from step (Some n # ns) = node_events step n @ events_from (step + 1) ns"

definition live_step ::
  "symbol_map \<Rightarrow> port_heap \<Rightarrow> live_event \<Rightarrow> interval list \<Rightarrow> (liveness_error, interval list) res" where
  "live_step m h e ivs =
     (if ev_out e then register_output m h (ev_step e) (ev_ref e) ivs
      else extend_for_consumer m h (ev_step e) (ev_ref e) ivs)"

lemma liveness_loop_events:
  "liveness_loop m h step ns ivs = fold_res (live_step m h) (events_from step ns) ivs"
proof (induction m h step ns ivs rule: liveness_loop.induct)
  case (3 m h step n ns ivs)
  have "liveness_loop m h step (Some n # ns) ivs =
     rbind (fold_res (register_output m h step) (n_outputs n) ivs) (\<lambda>ivs1.
     rbind (fold_res (extend_for_consumer m h step) (n_inputs n) ivs1)
       (fold_res (live_step m h) (events_from (step + 1) ns)))"
    using 3 by (simp add: rbind_def split: sum.splits)
  moreover have "fold_res (live_step m h) (node_events step n) ivs =
     rbind (fold_res (register_output m h step) (n_outputs n) ivs)
       (fold_res (extend_for_consumer m h step) (n_inputs n))"
  proof -
    have "(\<lambda>p. live_step m h \<lparr>ev_step = step, ev_out = True, ev_ref = p\<rparr>) = register_output m h step"
      and "(\<lambda>p. live_step m h \<lparr>ev_step = step, ev_out = False, ev_ref = p\<rparr>)
        = extend_for_consumer m h step"
      by (simp_all add: live_step_def fun_eq_iff)
    then show ?thesis by (simp add: node_events_def fold_res_map rbind_def split: sum.splits)
  qed
  ultimately show ?case by (simp add: rbind_def split: sum.splits)
qed simp_all

text \<open>
  What the interval of a port id should be, read off the events: its first event decides
  start and size, its reads the end.
\<close>

definition ev_id :: "port_heap \<Rightarrow> live_event \<Rightarrow> int" where
  "ev_id h e = (case ev_ref e of None \<Rightarrow> 0 | Some a \<Rightarrow> id_of h a)"

definition first_event :: "port_heap \<Rightarrow> live_event list \<Rightarrow> int \<Rightarrow> live_event option" where
  "first_event h es i = List.find (\<lambda>e. ev_id h e = i) es"

definition reads :: "port_heap \<Rightarrow> live_event list \<Rightarrow> int \<Rightarrow> int list" where
  "reads h es i = map ev_step (filter (\<lambda>e. \<not> ev_out e \<and> ev_id h e = i) es)"

definition lifetime_of ::
  "symbol_map \<Rightarrow> port_heap \<Rightarrow> live_event list \<Rightarrow> interval \<Rightarrow> bool" where
  "lifetime_of m h es iv \<longleftrightarrow> iv_port iv \<noteq> 0 \<and> (\<exists>e a. first_event h es (iv_port iv) = Some e
     \<and> ev_ref e = Some a \<and> port_byte_size (port_type (h a)) m = Ok (iv_size iv)
     \<and> iv_start iv = (if ev_out e then ev_step e else 0)
     \<and> iv_end iv = fold max (reads h es (iv_port iv)) (ev_step e))"

definition live_intervals ::
  "symbol_map \<Rightarrow> port_heap \<Rightarrow> live_event list \<Rightarrow> interval list \<Rightarrow> bool" where
  "live_intervals m h es ivs \<longleftrightarrow> distinct (map iv_port ivs) \<and> (\<forall>iv \<in> set ivs. lifetime_of m h es iv)
     \<and> iv_port ` set ivs = ev_id h ` set es - {0}"

lemma first_event_snoc:
  "first_event h (es @ [e]) i = (case first_event h es i of
     Some f \<Rightarrow> Some f | None \<Rightarrow> if ev_id h e = i then Some e else None)"
  unfolding first_event_def by (induction es) auto

lemma first_event_None: "first_event h es i = None \<longleftrightarrow> i \<notin> ev_id h ` set es"
  unfolding first_event_def by (induction es) auto

lemma first_event_Some: "first_event h es i = Some e \<Longrightarrow> e \<in> set es \<and> ev_id h e = i"
  unfolding first_event_def by (induction es) (auto split: if_splits)

lemma reads_snoc: "reads h (es @ [e]) i =
    (if \<not> ev_out e \<and> ev_id h e = i then reads h es i @ [ev_step e] else reads h es i)"
  by (simp add: reads_def)

lemma reads_subset: "ev_id h ` set es \<inter> {i} = {} \<Longrightarrow> reads h es i = []"
  by (auto simp: reads_def filter_empty_conv)

lemma lifetime_extend:
  assumes "lifetime_of m h es iv" and "iv_port iv' = iv_port iv" and "iv_start iv' = iv_start iv"
    and "iv_size iv' = iv_size iv"
    and "iv_end iv' = (if \<not> ev_out e \<and> ev_id h e = iv_port iv then max (ev_step e) (iv_end iv)
                       else iv_end iv)"
  shows "lifetime_of m h (es @ [e]) iv'"
proof -
  obtain f a where "first_event h es (iv_port iv) = Some f" "ev_ref f = Some a"
     "port_byte_size (port_type (h a)) m = Ok (iv_size iv)" "iv_port iv \<noteq> 0"
     "iv_start iv = (if ev_out f then ev_step f else 0)"
     "iv_end iv = fold max (reads h es (iv_port iv)) (ev_step f)"
    using assms(1) by (auto simp: lifetime_of_def)
  with assms(2-) show ?thesis
    unfolding lifetime_of_def
    by (intro conjI exI [of _ f] exI [of _ a]) (auto simp: first_event_snoc reads_snoc)
qed

lemma lifetime_new:
  assumes "ev_id h e \<notin> ev_id h ` set es" and "ev_ref e = Some a"
    and "port_byte_size (port_type (h a)) m = Ok (iv_size iv)"
    and "iv_port iv = ev_id h e" and "iv_port iv \<noteq> 0" and "iv_end iv = ev_step e"
    and "iv_start iv = (if ev_out e then ev_step e else 0)"
  shows "lifetime_of m h (es @ [e]) iv"
proof -
  have "reads h es (ev_id h e) = []" using assms(1) by (intro reads_subset) auto
  moreover have "first_event h es (ev_id h e) = None" using assms(1) by (simp add: first_event_None)
  ultimately show ?thesis using assms(2-)
    unfolding lifetime_of_def
    by (intro conjI exI [of _ e] exI [of _ a]) (auto simp: first_event_snoc reads_snoc)
qed

lemma fold_max_ge_init: "(y :: int) \<le> fold max xs y"
  by (induction xs arbitrary: y) (auto intro: order_trans [OF max.cobounded2])

lemma fold_max_upper: "x \<in> set xs \<Longrightarrow> x \<le> fold max xs (y :: int)"
  by (induction xs arbitrary: y) (auto intro: order_trans [OF max.cobounded1 fold_max_ge_init])

lemma live_step_spec:
  assumes sp: "live_intervals m h es ivs" and st: "live_step m h e ivs = Ok ivs'"
  shows "live_intervals m h (es @ [e]) ivs'"
proof -
  have skip: ?thesis if "ivs' = ivs" "ev_id h e = 0 \<or> ev_out e \<and> ev_id h e \<in> iv_port ` set ivs"
  proof -
    have "lifetime_of m h (es @ [e]) iv" if "iv \<in> set ivs" for iv
    proof (rule lifetime_extend [of m h es iv])
      show l: "lifetime_of m h es iv" using sp that by (simp add: live_intervals_def)
      then have "iv_port iv \<noteq> 0" by (simp add: lifetime_of_def)
      with \<open>ev_id h e = 0 \<or> _\<close> show "iv_end iv = (if \<not> ev_out e \<and> ev_id h e = iv_port iv
          then max (ev_step e) (iv_end iv) else iv_end iv)" by auto
    qed simp_all
    with sp that show ?thesis by (auto simp: live_intervals_def)
  qed
  have fresh: ?thesis if new: "ev_id h e \<noteq> 0" "ev_id h e \<notin> iv_port ` set ivs"
      and a: "ev_ref e = Some a" and sz: "port_byte_size (port_type (h a)) m = Ok s"
      and iv: "ivs' = ivs @ [\<lparr>iv_port = ev_id h e, iv_start = (if ev_out e then ev_step e else 0),
          iv_end = ev_step e, iv_offset = 0, iv_size = s\<rparr>]" for a s
  proof -
    have no: "ev_id h e \<notin> ev_id h ` set es" using sp new by (auto simp: live_intervals_def)
    have "lifetime_of m h (es @ [e]) iv" if "iv \<in> set ivs" for iv
    proof (rule lifetime_extend [of m h es iv])
      have "ev_id h e \<noteq> iv_port iv" using new(2) that by blast
      then show "iv_end iv = (if \<not> ev_out e \<and> ev_id h e = iv_port iv
          then max (ev_step e) (iv_end iv) else iv_end iv)" by simp
    qed (use sp that in \<open>simp_all add: live_intervals_def\<close>)
    moreover have "lifetime_of m h (es @ [e]) \<lparr>iv_port = ev_id h e,
        iv_start = (if ev_out e then ev_step e else 0), iv_end = ev_step e, iv_offset = 0, iv_size = s\<rparr>"
      by (rule lifetime_new [OF no a]) (use sz new in auto)
    ultimately show ?thesis using sp iv new by (auto simp: live_intervals_def)
  qed
  show ?thesis
  proof (cases "ev_ref e")
    case None
    then have "ev_id h e = 0" "ivs' = ivs"
      using st by (auto simp: ev_id_def live_step_def register_output_def extend_for_consumer_def
          split: if_splits)
    then show ?thesis using skip by blast
  next
    case (Some a)
    then have id: "ev_id h e = id_of h a" by (simp add: ev_id_def)
    show ?thesis
    proof (cases "id_of h a = 0 \<or> ev_out e \<and> id_of h a \<in> iv_port ` set ivs")
      case True
      with st Some have "ivs' = ivs"
        by (auto simp: live_step_def register_output_def extend_for_consumer_def split: if_splits)
      with True id skip show ?thesis by simp
    next
      case ne: False
      show ?thesis
      proof (cases "id_of h a \<in> iv_port ` set ivs")
        case False
        with ne st Some id fresh show ?thesis
          by (auto simp: live_step_def register_output_def extend_for_consumer_def split: if_splits)
      next
        case True
        with ne have rd: "\<not> ev_out e" and nz: "id_of h a \<noteq> 0" by auto
        define g where "g = (\<lambda>iv :: interval. if iv_port iv = id_of h a \<and> ev_step e > iv_end iv
             then iv\<lparr>iv_end := ev_step e\<rparr> else iv)"
        have g: "iv_port (g iv) = iv_port iv" "iv_start (g iv) = iv_start iv" "iv_size (g iv) = iv_size iv"
          "iv_end (g iv) = (if iv_port iv = id_of h a then max (ev_step e) (iv_end iv) else iv_end iv)"
          for iv by (auto simp: g_def)
        have ivs': "ivs' = map g ivs"
          using st Some rd nz True by (auto simp: live_step_def extend_for_consumer_def g_def)
        have "lifetime_of m h (es @ [e]) (g iv)" if "iv \<in> set ivs" for iv
          by (rule lifetime_extend [of m h es iv]) (use sp that rd id in \<open>auto simp: live_intervals_def g\<close>)
        moreover have "iv_port \<circ> g = iv_port" by (auto simp: g)
        moreover have "id_of h a \<in> iv_port ` set ivs" by (rule True)
        ultimately show ?thesis using sp ivs' nz id
          by (auto simp: live_intervals_def image_comp)
      qed
    qed
  qed
qed

lemma live_fold_spec:
  "fold_res (live_step m h) es [] = Ok ivs \<Longrightarrow> live_intervals m h es ivs"
proof (induction es arbitrary: ivs rule: rev_induct)
  case Nil
  then show ?case by (simp add: live_intervals_def)
next
  case (snoc e es)
  then obtain ivs0 where "fold_res (live_step m h) es [] = Ok ivs0" "live_step m h e ivs0 = Ok ivs"
    by auto
  with snoc.IH live_step_spec show ?case by blast
qed

lemma live_intervals_perm:
  assumes "live_intervals m h es ivs" and "mset ivs' = mset ivs"
  shows "live_intervals m h es ivs'"
proof -
  have "set ivs' = set ivs" using assms(2) by (rule mset_eq_setD)
  moreover have "distinct (map iv_port ivs')"
    using assms by (metis live_intervals_def mset_eq_imp_distinct_iff mset_map)
  ultimately show ?thesis using assms(1) by (simp add: live_intervals_def)
qed

lemma analyze_liveness_spec:
  assumes "analyze_liveness nodes h m = Ok ivs"
  shows "live_intervals m h (events_from 0 nodes) ivs" and "sorted (map allocation_order ivs)"
proof -
  show "live_intervals m h (events_from 0 nodes) ivs"
  proof (cases "nodes = []")
    case True
    with assms show ?thesis by (simp add: analyze_liveness_def live_intervals_def)
  next
    case False
    with assms obtain ivs0 where l: "liveness_loop m h 0 nodes [] = Ok ivs0"
      and i: "ivs = sort_key allocation_order ivs0" by (auto simp: analyze_liveness_def)
    from l have "live_intervals m h (events_from 0 nodes) ivs0"
      by (intro live_fold_spec) (simp add: liveness_loop_events)
    then show ?thesis by (rule live_intervals_perm) (simp add: i)
  qed
  show "sorted (map allocation_order ivs)"
    using assms by (auto simp: analyze_liveness_def split: if_splits)
qed

lemma assign_port_ids_spec:
  assumes "None \<notin> set nodes" and "0 \<le> B"
    and "\<forall>p \<in> refs (all_ports nodes). id_of h p \<le> B"
    and "B + int (length (all_ports nodes)) < 2 ^ 31 - 1"
  shows "\<exists>h' nxt. assign_port_ids h nodes = Some h' \<and> 1 \<le> nxt
      \<and> (\<forall>p \<in> refs (all_ports nodes). id_of h p < nxt)
      \<and> (\<forall>p. p \<notin> refs (all_ports nodes) \<or> id_of h p \<noteq> 0 \<longrightarrow> h' p = h p)
      \<and> (\<forall>p \<in> refs (all_ports nodes). id_of h p = 0 \<longrightarrow> (\<exists>i \<ge> nxt. h' p = (h p)\<lparr>port_id := i\<rparr>))
      \<and> inj_on (id_of h') {p \<in> refs (all_ports nodes). id_of h p = 0}"
proof -
  let ?ps = "all_ports nodes"
  define nxt where "nxt = bump_pass h {} 1 ?ps"
  have "\<forall>p \<in> refs ?ps - {}. id_of h p < 2 ^ 31 - 1" using assms by fastforce
  from bump_pass_above [OF this, of 1] have n: "1 \<le> nxt" "\<forall>p \<in> refs ?ps. id_of h p < nxt"
    and least: "\<forall>k. 1 \<le> k \<and> (\<forall>p \<in> refs ?ps. id_of h p < k) \<longrightarrow> nxt \<le> k"
    by (simp_all add: nxt_def)
  have "nxt \<le> B + 1" using least assms(2,3) by fastforce
  then have "nxt + int (length ?ps) < 2 ^ 31" using assms(4) by simp
  from assign_pass_sound [OF n(1) this, of "{}" h] n assms(1) show ?thesis
    by (intro exI [of _ "assign_pass h {} nxt ?ps"] exI [of _ nxt])
      (simp add: assign_port_ids_def nxt_def)
qed

lemma assign_pass_idem: "\<forall>p \<in> refs ps. id_of h p \<noteq> 0 \<Longrightarrow> assign_pass h seen nxt ps = h"
  by (induction h seen nxt ps rule: assign_pass.induct) auto

definition ids_unique :: "port_heap \<Rightarrow> port_ref list \<Rightarrow> bool" where
  "ids_unique h ps \<longleftrightarrow> inj_on (id_of h) {p \<in> refs ps. id_of h p \<noteq> 0}"

section \<open>Properties\<close>

lemma assign_port_ids_numbers:
  assumes "None \<notin> set nodes" and "0 \<le> B" and "\<forall>p \<in> refs (all_ports nodes). id_of h p \<le> B"
    and "B + int (length (all_ports nodes)) < 2 ^ 31 - 1" and "ids_unique h (all_ports nodes)"
  shows "\<exists>h'. assign_port_ids h nodes = Some h'
     \<and> (\<forall>p \<in> refs (all_ports nodes). id_of h' p \<noteq> 0) \<and> inj_on (id_of h') (refs (all_ports nodes))
     \<and> (\<forall>p. id_of h p \<noteq> 0 \<longrightarrow> h' p = h p) \<and> (\<forall>p. port_type (h' p) = port_type (h p))
     \<and> assign_port_ids h' nodes = Some h'"
proof -
  let ?R = "refs (all_ports nodes)"
  obtain h' nxt where h': "assign_port_ids h nodes = Some h'" "1 \<le> nxt"
    and below: "\<forall>p \<in> ?R. id_of h p < nxt"
    and same: "\<forall>p. p \<notin> ?R \<or> id_of h p \<noteq> 0 \<longrightarrow> h' p = h p"
    and new: "\<forall>p \<in> ?R. id_of h p = 0 \<longrightarrow> (\<exists>i \<ge> nxt. h' p = (h p)\<lparr>port_id := i\<rparr>)"
    and inj: "inj_on (id_of h') {p \<in> ?R. id_of h p = 0}"
    using assign_port_ids_spec [OF assms(1-4)] by blast
  have big: "nxt \<le> id_of h' p" if "p \<in> ?R" "id_of h p = 0" for p
    using new that by fastforce
  have old: "id_of h' p < nxt" if "p \<in> ?R" "id_of h p \<noteq> 0" for p
    using same below that by fastforce
  have nz: "\<forall>p \<in> ?R. id_of h' p \<noteq> 0"
    using big h'(2) same by (metis linorder_not_less zero_less_one order_less_le_trans)
  have "inj_on (id_of h') ?R"
  proof (rule inj_onI)
    fix p q assume pq: "p \<in> ?R" "q \<in> ?R" "id_of h' p = id_of h' q"
    consider "id_of h p = 0" "id_of h q = 0" | "id_of h p \<noteq> 0" "id_of h q \<noteq> 0"
      | "id_of h p = 0 \<longleftrightarrow> id_of h q \<noteq> 0" by blast
    then show "p = q"
    proof cases
      case 1
      with inj pq show ?thesis by (auto dest: inj_onD)
    next
      case 2
      with same pq have "id_of h p = id_of h q" by metis
      with 2 assms(5) pq show ?thesis by (auto simp: ids_unique_def dest: inj_onD)
    next
      case 3
      with big [of p] big [of q] old [of p] old [of q] pq show ?thesis by linarith
    qed
  qed
  moreover have "port_type (h' p) = port_type (h p)" for p
  proof (cases "p \<in> ?R \<and> id_of h p = 0")
    case True
    with new obtain i where "h' p = (h p)\<lparr>port_id := i\<rparr>" by blast
    then show ?thesis by simp
  next
    case False
    with same show ?thesis by metis
  qed
  moreover have "assign_port_ids h' nodes = Some h'"
    using nz assms(1) by (simp add: assign_port_ids_def assign_pass_idem)
  ultimately show ?thesis using h'(1) nz same by blast
qed

text \<open>
  C26. Port numbering. When the existing ids are pairwise distinct, not above some bound \<open>B\<close>,
  and \<open>B\<close> plus the number of port references stays below 2^31 - 1, \<open>AssignPortIDs\<close> gives
  every reachable port a non-zero id, all ids are pairwise distinct, ids that were already
  set and everything but the id are unchanged, and running it again changes nothing.
\<close>

theorem assign_port_ids_correct:
  assumes "None \<notin> set nodes" and "0 \<le> B" and "\<forall>p \<in> refs (all_ports nodes). id_of h p \<le> B"
    and "B + int (length (all_ports nodes)) < 2 ^ 31 - 1" and "ids_unique h (all_ports nodes)"
  shows "\<exists>h'. assign_port_ids h nodes = Some h'
     \<and> (\<forall>p \<in> refs (all_ports nodes). id_of h' p \<noteq> 0) \<and> inj_on (id_of h') (refs (all_ports nodes))
     \<and> (\<forall>p. id_of h p \<noteq> 0 \<longrightarrow> h' p = h p) \<and> (\<forall>p. port_type (h' p) = port_type (h p))
     \<and> assign_port_ids h' nodes = Some h'"
  using assms by (rule assign_port_ids_numbers)

theorem assign_port_ids_correct_witness:
  "let h = (\<lambda>a. \<lparr>port_id = (if a = 7 then 5 else 0), port_type = \<lparr>pt_dtype = Float32, pt_shape = [],
        pt_layout = LayoutContiguous, pt_kind = [], pt_constraints = []\<rparr>, port_alloc = None\<rparr>);
      n = \<lparr>n_name = ''a'', n_id = 0, n_op = ''op'', n_bind = [], n_inputs = [Some 7, None], n_outputs = [Some 8],
        n_stream = 0, n_sync = []\<rparr>
   in \<exists>h'. assign_port_ids h [Some n] = Some h' \<and> id_of h' 8 \<noteq> 0 \<and> id_of h' 7 = 5"
proof -
  let ?h = "\<lambda>a. \<lparr>port_id = (if a = 7 then 5 else 0), port_type = \<lparr>pt_dtype = Float32, pt_shape = [],
        pt_layout = LayoutContiguous, pt_kind = [], pt_constraints = []\<rparr>, port_alloc = None\<rparr>"
  let ?n = "\<lparr>n_name = ''a'', n_id = 0, n_op = ''op'', n_bind = [], n_inputs = [Some 7, None], n_outputs = [Some 8],
        n_stream = 0, n_sync = []\<rparr>"
  have "ids_unique ?h (all_ports [Some ?n])" by (auto simp: ids_unique_def inj_on_def)
  then show ?thesis
    using assign_port_ids_correct [of "[Some ?n]" 5 ?h] by (auto simp: Let_def)
qed

text \<open>
  C18. Liveness. When \<open>AnalyzeLiveness\<close> succeeds, there is exactly one interval for every
  non-zero port id that some node reads or writes, ordered by start and id. A port first
  seen as an output starts at that step, any other at step 0; the interval ends at the last
  step that reads the port (or at its first event), so it covers every read; its size is the
  port's byte size.
\<close>

theorem analyze_liveness_correct:
  "analyze_liveness nodes h m = Ok ivs \<longrightarrow>
     distinct (map iv_port ivs) \<and> sorted (map allocation_order ivs)
     \<and> iv_port ` set ivs = ev_id h ` set (events_from 0 nodes) - {0}
     \<and> (\<forall>iv \<in> set ivs. lifetime_of m h (events_from 0 nodes) iv
          \<and> (\<forall>s \<in> set (reads h (events_from 0 nodes) (iv_port iv)). s \<le> iv_end iv))"
proof (intro impI conjI ballI)
  assume ok: "analyze_liveness nodes h m = Ok ivs"
  note sp = analyze_liveness_spec [OF ok]
  show "distinct (map iv_port ivs)" and "sorted (map allocation_order ivs)"
    and "iv_port ` set ivs = ev_id h ` set (events_from 0 nodes) - {0}"
    using sp by (simp_all add: live_intervals_def)
  fix iv assume iv: "iv \<in> set ivs"
  with sp show l: "lifetime_of m h (events_from 0 nodes) iv" by (simp add: live_intervals_def)
  fix s assume "s \<in> set (reads h (events_from 0 nodes) (iv_port iv))"
  with l show "s \<le> iv_end iv" by (auto simp: lifetime_of_def fold_max_upper)
qed

theorem analyze_liveness_correct_witness:
  "let h = (\<lambda>a. \<lparr>port_id = int a, port_type = \<lparr>pt_dtype = Float32, pt_shape = [],
        pt_layout = LayoutContiguous, pt_kind = [], pt_constraints = []\<rparr>, port_alloc = None\<rparr>);
      n = \<lparr>n_name = ''a'', n_id = 0, n_op = ''op'', n_bind = [], n_inputs = [Some 1], n_outputs = [Some 2],
        n_stream = 0, n_sync = []\<rparr>
   in \<exists>ivs. analyze_liveness [Some n] h Map.empty = Ok ivs \<and> iv_port ` set ivs = {1, 2}"
proof -
  let ?h = "\<lambda>a. \<lparr>port_id = int a, port_type = \<lparr>pt_dtype = Float32, pt_shape = [],
        pt_layout = LayoutContiguous, pt_kind = [], pt_constraints = []\<rparr>, port_alloc = None\<rparr>"
  let ?n = "\<lparr>n_name = ''a'', n_id = 0, n_op = ''op'', n_bind = [], n_inputs = [Some 1], n_outputs = [Some 2],
        n_stream = 0, n_sync = []\<rparr>"
  have "\<exists>ivs. analyze_liveness [Some ?n] ?h Map.empty = Ok ivs"
    by (simp add: analyze_liveness_def register_output_def extend_for_consumer_def
        port_byte_size_def bytes_for_def dtype_size_def)
  then obtain ivs where "analyze_liveness [Some ?n] ?h Map.empty = Ok ivs" by blast
  with analyze_liveness_correct [of "[Some ?n]" ?h Map.empty ivs] show ?thesis
    by (auto simp: Let_def node_events_def ev_id_def)
qed

end
