(* ===== verification/Workspace_Plan.thy ===== *)
theory Workspace_Plan
  imports Liveness
begin

text \<open>
  \<open>PlanWorkspace\<close> of \<open>ir/planner.go\<close>: it numbers the ports, analyses liveness, allocates
  offsets, stores the layout in the topology and attaches an allocation to every port. The
  result carries the updated heap of ports next to the updated topology; \<open>PlanPanic\<close> is the
  nil dereference on a nil node and \<open>AllocatorStuck\<close> a call of the allocator that does not
  return.
\<close>

datatype plan_error =
    TopologyRequired
  | AlignNotPowerOfTwo int
  | PlanPanic
  | PlanLiveness liveness_error
  | AllocatorStuck

section \<open>Attaching allocations\<close>

fun attach_pass ::
  "(int \<rightharpoonup> interval) \<Rightarrow> port_heap \<Rightarrow> nat set \<Rightarrow> port_ref list \<Rightarrow> port_heap" where
  "attach_pass byid h seen [] = h"
| "attach_pass byid h seen (None # ps) = attach_pass byid h seen ps"
| "attach_pass byid h seen (Some p # ps) =
     (if p \<in> seen then attach_pass byid h seen ps
      else case byid (id_of h p) of
          None \<Rightarrow> attach_pass byid h (insert p seen) ps
        | Some iv \<Rightarrow>
            attach_pass byid
              (h(p := (h p)\<lparr>port_alloc := Some \<lparr>pa_port_id = id_of h p, pa_base_offset = iv_offset iv,
                  pa_strides = [], pa_type = port_type (h p)\<rparr>\<rparr>))
              (insert p seen) ps)"

definition attach_allocations ::
  "(int \<rightharpoonup> interval) \<Rightarrow> port_heap \<Rightarrow> ir_node option list \<Rightarrow> port_heap" where
  "attach_allocations byid h nodes = attach_pass byid h {} (all_ports nodes)"

definition by_port_id :: "interval list \<Rightarrow> (int \<rightharpoonup> interval)" where
  "by_port_id allocated = foldl (\<lambda>m iv. m(iv_port iv \<mapsto> iv)) Map.empty allocated"

definition plan_workspace ::
  "topology option \<Rightarrow> port_heap \<Rightarrow> symbol_map \<Rightarrow> int \<Rightarrow> (plan_error, topology \<times> port_heap) res" where
  "plan_workspace topo h bindings align0 = (case topo of
     None \<Rightarrow> Err TopologyRequired
   | Some t \<Rightarrow>
      (let align = (if align0 \<le> 0 then 64 else align0) in
       if \<not> is_power_of_two align then Err (AlignNotPowerOfTwo align)
       else case assign_port_ids h (t_nodes t) of
           None \<Rightarrow> Err PlanPanic
         | Some h1 \<Rightarrow>
            rbind (map_err PlanLiveness (analyze_liveness (t_nodes t) h1 bindings)) (\<lambda>ivs.
              case allocate_offsets ivs align of
                None \<Rightarrow> Err AllocatorStuck
              | Some (ws, allocated) \<Rightarrow>
                  Ok (t\<lparr>t_workspace := \<lparr>ws_size = ws, ws_align = align, ws_allocations = allocated,
                         ws_bindings = bindings\<rparr>\<rparr>,
                      attach_allocations (by_port_id allocated) h1 (t_nodes t)))))"

section \<open>Lemmas\<close>

lemma by_port_id_lookup:
  assumes "distinct (map iv_port ivs)" and "iv \<in> set ivs"
  shows "by_port_id ivs (iv_port iv) = Some iv"
  using assms unfolding by_port_id_def
  by (induction ivs rule: rev_induct) (auto simp: image_iff)

lemma attach_pass_other: "p \<in> seen \<or> p \<notin> refs ps \<Longrightarrow> attach_pass byid h seen ps p = h p"
  by (induction byid h seen ps rule: attach_pass.induct) (auto split: option.splits)

lemma attach_pass_at:
  "\<lbrakk> p \<in> refs ps; p \<notin> seen; byid (id_of h p) = Some iv \<rbrakk>
   \<Longrightarrow> attach_pass byid h seen ps p = (h p)\<lparr>port_alloc := Some \<lparr>pa_port_id = id_of h p,
         pa_base_offset = iv_offset iv, pa_strides = [], pa_type = port_type (h p)\<rparr>\<rparr>"
proof (induction byid h seen ps rule: attach_pass.induct)
  case (3 byid h seen q ps)
  show ?case
  proof (cases "q = p")
    case True
    with "3.prems" show ?thesis by (simp add: attach_pass_other)
  next
    case ne: False
    show ?thesis
    proof (cases "q \<in> seen")
      case True
      with "3.IH"(1) "3.prems" ne show ?thesis by simp
    next
      case new: False
      show ?thesis
      proof (cases "byid (id_of h q)")
        case None
        with "3.IH"(2) [OF new None] "3.prems" ne new show ?thesis by simp
      next
        case (Some x)
        with "3.IH"(3) [OF new Some] "3.prems" ne new show ?thesis by (simp add: fun_upd_def)
      qed
    qed
  qed
qed auto

lemma event_refs:
  "(\<exists>e \<in> set (events_from s nodes). ev_ref e = Some p) \<longleftrightarrow> p \<in> refs (all_ports nodes)"
  by (induction s nodes rule: events_from.induct) (auto simp: node_events_def bex_Un)

lemma event_step_nonneg: "e \<in> set (events_from s nodes) \<Longrightarrow> 0 \<le> s \<Longrightarrow> 0 \<le> ev_step e"
  by (induction s nodes rule: events_from.induct) (auto simp: node_events_def)

lemma placed_from_ports:
  "list_all2 (placed_from a) ivs out \<Longrightarrow> map iv_port out = map iv_port ivs"
  by (induction rule: list_all2_induct) (auto simp: placed_from_def)

lemma placed_from_mem:
  assumes "list_all2 (placed_from a) ivs out" and "x \<in> set ivs"
  shows "\<exists>y \<in> set out. placed_from a x y"
  using assms by (metis in_set_conv_nth list_all2_conv_all_nth)

text \<open>
  What a run of the planner on well-formed input amounts to: numbering, the intervals of the
  liveness analysis, and their placement.
\<close>

lemma plan_workspace_runs:
  assumes al: "a = (if align \<le> 0 then 64 else align)" "is_power_of_two a"
    and ids: "assign_port_ids h (t_nodes t) = Some h1"
    and live: "analyze_liveness (t_nodes t) h1 m = Ok ivs"
    and sizes: "\<forall>iv \<in> set ivs. 0 \<le> iv_size iv" "rounded_total a ivs + a < 2 ^ 63"
  shows "\<exists>ws out. plan_workspace (Some t) h m align
        = Ok (t\<lparr>t_workspace := \<lparr>ws_size = ws, ws_align = a, ws_allocations = out, ws_bindings = m\<rparr>\<rparr>,
              attach_allocations (by_port_id out) h1 (t_nodes t))
     \<and> list_all2 (placed_from a) ivs out \<and> (\<forall>iv \<in> set out. placed_ok a ws iv)
     \<and> (\<forall>x \<in> set out. \<forall>y \<in> set out. x \<noteq> y \<and> overlaps x y \<longrightarrow> disjoint_ranges x y)"
proof -
  from analyze_liveness_spec (2) [OF live] have "sort_key allocation_order ivs = ivs"
    by (simp add: sort_key_id_if_sorted)
  with allocate_offsets_spec [OF al sizes] obtain ws out
    where run: "allocate_offsets ivs align = Some (ws, out)"
    and l2: "list_all2 (placed_from a) ivs out" and ok: "\<forall>iv \<in> set out. placed_ok a ws iv"
    and dj: "\<And>i j. i < j \<Longrightarrow> j < length out \<Longrightarrow> overlaps (out ! i) (out ! j)
        \<Longrightarrow> disjoint_ranges (out ! i) (out ! j)"
    by auto
  have "disjoint_ranges x y" if xy: "x \<in> set out" "y \<in> set out" "x \<noteq> y" "overlaps x y" for x y
  proof -
    from xy obtain i j where ij: "i < length out" "out ! i = x" "j < length out" "out ! j = y"
      by (metis in_set_conv_nth)
    with xy consider "i < j" | "j < i" by (metis linorder_neqE_nat)
    then show ?thesis
    proof cases
      case 1
      with dj [of i j] ij xy show ?thesis by simp
    next
      case 2
      with dj [of j i] ij xy overlaps_sym show ?thesis by (auto simp: disjoint_ranges_def)
    qed
  qed
  moreover have "allocate_offsets ivs a = allocate_offsets ivs align"
    using al by (simp add: allocate_offsets_def Let_def)
  ultimately show ?thesis
    using run l2 ok al ids live
    by (intro exI [of _ ws] exI [of _ out]) (simp add: plan_workspace_def Let_def)
qed

section \<open>Producers and readers of a port\<close>

definition produced_at :: "ir_node option list \<Rightarrow> nat \<Rightarrow> int \<Rightarrow> bool" where
  "produced_at nodes p i \<longleftrightarrow> (case List.find (\<lambda>e. ev_ref e = Some p) (events_from 0 nodes) of
     None \<Rightarrow> False | Some e \<Rightarrow> ev_out e \<and> ev_step e = i)"

definition read_at :: "ir_node option list \<Rightarrow> nat \<Rightarrow> int \<Rightarrow> bool" where
  "read_at nodes p k \<longleftrightarrow>
     (\<exists>e \<in> set (events_from 0 nodes). \<not> ev_out e \<and> ev_ref e = Some p \<and> ev_step e = k)"

definition port_base :: "port_heap \<Rightarrow> nat \<Rightarrow> int option" where
  "port_base h p = map_option pa_base_offset (port_alloc (h p))"

lemma find_by_id:
  assumes "inj_on (id_of h) R" and "p \<in> R" and "id_of h p \<noteq> 0"
    and "\<forall>e \<in> set es. \<forall>q. ev_ref e = Some q \<longrightarrow> q \<in> R"
  shows "first_event h es (id_of h p) = List.find (\<lambda>e. ev_ref e = Some p) es"
  using assms(4)
proof (induction es)
  case Nil
  then show ?case by (simp add: first_event_def)
next
  case (Cons e es)
  have "ev_id h e = id_of h p \<longleftrightarrow> ev_ref e = Some p"
    using Cons.prems assms(1-3) by (cases "ev_ref e") (auto simp: ev_id_def dest: inj_onD)
  with Cons show ?case by (simp add: first_event_def)
qed

lemma port_interval:
  assumes live: "analyze_liveness nodes h m = Ok ivs" and p: "p \<in> refs (all_ports nodes)"
    and inj: "inj_on (id_of h) (refs (all_ports nodes))"
    and nz: "\<forall>p \<in> refs (all_ports nodes). id_of h p \<noteq> 0"
  shows "\<exists>iv \<in> set ivs. iv_port iv = id_of h p
     \<and> port_byte_size (port_type (h p)) m = Ok (iv_size iv)
     \<and> (\<forall>i. produced_at nodes p i \<longrightarrow> iv_start iv = i \<and> i \<le> iv_end iv)
     \<and> (\<forall>k. read_at nodes p k \<longrightarrow> k \<le> iv_end iv)"
proof -
  let ?es = "events_from 0 nodes"
  have sp: "live_intervals m h ?es ivs" using analyze_liveness_spec [OF live] by blast
  have er: "\<forall>e \<in> set ?es. \<forall>q. ev_ref e = Some q \<longrightarrow> q \<in> refs (all_ports nodes)"
    using event_refs by fastforce
  from p obtain e0 where "e0 \<in> set ?es" "ev_ref e0 = Some p" using event_refs by blast
  then have "id_of h p \<in> ev_id h ` set ?es - {0}"
    using nz p by (auto simp: ev_id_def intro!: rev_image_eqI [of e0])
  then obtain iv where iv: "iv \<in> set ivs" "iv_port iv = id_of h p"
    using sp by (metis imageE live_intervals_def)
  with sp have lt: "lifetime_of m h ?es iv" by (simp add: live_intervals_def)
  have fe: "first_event h ?es (iv_port iv) = List.find (\<lambda>e. ev_ref e = Some p) ?es"
    unfolding iv(2) by (rule find_by_id [OF inj p _ er]) (use nz p in blast)
  from lt obtain f a where f: "first_event h ?es (iv_port iv) = Some f" "ev_ref f = Some a"
    and sz: "port_byte_size (port_type (h a)) m = Ok (iv_size iv)"
    and st: "iv_start iv = (if ev_out f then ev_step f else 0)"
    and en: "iv_end iv = fold max (reads h ?es (iv_port iv)) (ev_step f)"
    by (auto simp: lifetime_of_def)
  have "ev_ref f = Some p" using f(1) fe by (auto simp: find_Some_iff)
  with f sz have "port_byte_size (port_type (h p)) m = Ok (iv_size iv)" by simp
  moreover have "iv_start iv = i \<and> i \<le> iv_end iv" if "produced_at nodes p i" for i
    using that f(1) fe st en fold_max_ge_init by (auto simp: produced_at_def)
  moreover have "k \<le> iv_end iv" if "read_at nodes p k" for k
  proof -
    from that have "k \<in> set (reads h ?es (iv_port iv))"
      by (auto simp: read_at_def reads_def iv(2) ev_id_def)
    then show ?thesis using en fold_max_upper by simp
  qed
  ultimately show ?thesis using iv by blast
qed

section \<open>Properties\<close>

lemma plan_workspace_spec:
  fixes t :: topology
  defines "ps \<equiv> all_ports (t_nodes t)"
  assumes al: "a = (if align \<le> 0 then 64 else align)" "is_power_of_two a"
    and nodes: "None \<notin> set (t_nodes t)"
    and ids: "0 \<le> B" "\<forall>p \<in> refs ps. id_of h p \<le> B" "B + int (length ps) < 2 ^ 31 - 1"
      "ids_unique h ps"
    and num: "assign_port_ids h (t_nodes t) = Some h1"
    and live: "analyze_liveness (t_nodes t) h1 m = Ok ivs"
    and sizes: "\<forall>iv \<in> set ivs. 0 \<le> iv_size iv" "(\<Sum>iv \<leftarrow> ivs. round_up (iv_size iv) a) + a < 2 ^ 63"
  shows "\<exists>t' h'. plan_workspace (Some t) h m align = Ok (t', h')
     \<and> (\<forall>p \<in> refs ps. \<exists>b s. port_base h' p = Some b \<and> port_byte_size (port_type (h p)) m = Ok s
          \<and> a dvd b \<and> 0 \<le> b \<and> b + s \<le> ws_size (t_workspace t'))
     \<and> (\<forall>p \<in> refs ps. \<forall>q \<in> refs ps. \<forall>i j k b c s s'.
          p \<noteq> q \<and> produced_at (t_nodes t) p i \<and> read_at (t_nodes t) p k
          \<and> produced_at (t_nodes t) q j \<and> i \<le> j \<and> j \<le> k
          \<and> port_base h' p = Some b \<and> port_byte_size (port_type (h p)) m = Ok s
          \<and> port_base h' q = Some c \<and> port_byte_size (port_type (h q)) m = Ok s'
          \<longrightarrow> b + s \<le> c \<or> c + s' \<le> b)"
proof -
  from assign_port_ids_numbers [OF nodes ids(1) ids(2-4) [unfolded ps_def]] num
  have nz: "\<forall>p \<in> refs ps. id_of h1 p \<noteq> 0" and inj: "inj_on (id_of h1) (refs ps)"
    and ty: "\<And>p. port_type (h1 p) = port_type (h p)" by (auto simp: ps_def)
  from plan_workspace_runs [OF al num live sizes] obtain ws out
    where run: "plan_workspace (Some t) h m align
        = Ok (t\<lparr>t_workspace := \<lparr>ws_size = ws, ws_align = a, ws_allocations = out, ws_bindings = m\<rparr>\<rparr>,
              attach_allocations (by_port_id out) h1 (t_nodes t))"
    and l2: "list_all2 (placed_from a) ivs out" and ok: "\<forall>iv \<in> set out. placed_ok a ws iv"
    and dj: "\<forall>x \<in> set out. \<forall>y \<in> set out. x \<noteq> y \<and> overlaps x y \<longrightarrow> disjoint_ranges x y"
    by blast
  define h' where "h' = attach_allocations (by_port_id out) h1 (t_nodes t)"
  have pos: "0 < a" using al(2) by (rule power_of_two_pos)
  have dist: "distinct (map iv_port out)"
    using placed_from_ports [OF l2] analyze_liveness_spec [OF live] by (simp add: live_intervals_def)
  have place: "\<exists>x \<in> set out. iv_port x = id_of h1 p \<and> port_base h' p = Some (iv_offset x)
      \<and> (\<exists>s. port_byte_size (port_type (h p)) m = Ok s \<and> s \<le> iv_size x)
      \<and> (\<forall>i. produced_at (t_nodes t) p i \<longrightarrow> iv_start x = i \<and> i \<le> iv_end x)
      \<and> (\<forall>k. read_at (t_nodes t) p k \<longrightarrow> k \<le> iv_end x)" if p: "p \<in> refs ps" for p
  proof -
    from port_interval [OF live, of p] p inj nz obtain iv
      where iv: "iv \<in> set ivs" "iv_port iv = id_of h1 p"
        "port_byte_size (port_type (h1 p)) m = Ok (iv_size iv)"
        "\<forall>i. produced_at (t_nodes t) p i \<longrightarrow> iv_start iv = i \<and> i \<le> iv_end iv"
        "\<forall>k. read_at (t_nodes t) p k \<longrightarrow> k \<le> iv_end iv"
      unfolding ps_def by blast
    from placed_from_mem [OF l2 iv(1)] obtain x where x: "x \<in> set out" "placed_from a iv x" by blast
    with iv(2) have "by_port_id out (id_of h1 p) = Some x"
      using by_port_id_lookup [OF dist x(1)] by (auto simp: placed_from_def)
    with p have "port_base h' p = Some (iv_offset x)"
      by (simp add: h'_def attach_allocations_def ps_def port_base_def attach_pass_at)
    with x iv show ?thesis
      by (intro bexI [OF _ x(1)]) (auto simp: placed_from_def ty round_up_ge pos)
  qed
  have placed: "\<exists>b s. port_base h' p = Some b \<and> port_byte_size (port_type (h p)) m = Ok s
      \<and> a dvd b \<and> 0 \<le> b \<and> b + s \<le> ws" if "p \<in> refs ps" for p
    using place [OF that] ok by (fastforce simp: placed_ok_def)
  have "b + s \<le> c \<or> c + s' \<le> b"
    if pq: "p \<in> refs ps" "q \<in> refs ps" "p \<noteq> q" and ev: "produced_at (t_nodes t) p i"
      "read_at (t_nodes t) p k" "produced_at (t_nodes t) q j" "i \<le> j" "j \<le> k"
      and at: "port_base h' p = Some b" "port_byte_size (port_type (h p)) m = Ok s"
      "port_base h' q = Some c" "port_byte_size (port_type (h q)) m = Ok s'" for p q i j k b c s s'
  proof -
    from place [OF pq(1)] ev at obtain x where x: "x \<in> set out" "iv_port x = id_of h1 p"
      "b = iv_offset x" "s \<le> iv_size x" "iv_start x = i" "k \<le> iv_end x" by auto
    from place [OF pq(2)] ev at obtain y where y: "y \<in> set out" "iv_port y = id_of h1 q"
      "c = iv_offset y" "s' \<le> iv_size y" "iv_start y = j" "j \<le> iv_end y" by auto
    have "x \<noteq> y" using x(2) y(2) inj pq by (auto dest: inj_onD)
    moreover have "overlaps x y" using x y ev by (simp add: overlaps_iff)
    ultimately have "disjoint_ranges x y" using dj x(1) y(1) by blast
    with x y show ?thesis by (auto simp: disjoint_ranges_def)
  qed
  note apart = this
  let ?t' = "t\<lparr>t_workspace := \<lparr>ws_size = ws, ws_align = a, ws_allocations = out, ws_bindings = m\<rparr>\<rparr>"
  show ?thesis
  proof (intro exI [of _ ?t'] exI [of _ h'] conjI)
    show "plan_workspace (Some t) h m align = Ok (?t', h')" using run by (simp only: h'_def)
    show "\<forall>p \<in> refs ps. \<exists>b s. port_base h' p = Some b \<and> port_byte_size (port_type (h p)) m = Ok s
        \<and> a dvd b \<and> 0 \<le> b \<and> b + s \<le> ws_size (t_workspace ?t')" using placed by simp
  qed (intro ballI allI impI, elim conjE, rule apart)
qed

text \<open>
  C2. Workspace planning end to end. On a topology without nil nodes, whose port ids are
  unique and small, with a power-of-two alignment and byte sizes that fit an int64,
  \<open>PlanWorkspace\<close> succeeds. Every port of the topology then has an aligned byte range inside
  the workspace that holds its type, and a port produced at step \<open>i\<close> and read at a later step
  \<open>k\<close> shares no byte with any other port produced at a step from \<open>i\<close> to \<open>k\<close>: no later
  output can overwrite a value that is still to be read.
\<close>

theorem plan_workspace_safe:
  fixes t :: topology
  defines "ps \<equiv> all_ports (t_nodes t)"
  assumes al: "a = (if align \<le> 0 then 64 else align)" "is_power_of_two a"
    and nodes: "None \<notin> set (t_nodes t)"
    and ids: "0 \<le> B" "\<forall>p \<in> refs ps. id_of h p \<le> B" "B + int (length ps) < 2 ^ 31 - 1"
      "ids_unique h ps"
    and num: "assign_port_ids h (t_nodes t) = Some h1"
    and live: "analyze_liveness (t_nodes t) h1 m = Ok ivs"
    and sizes: "\<forall>iv \<in> set ivs. 0 \<le> iv_size iv" "(\<Sum>iv \<leftarrow> ivs. round_up (iv_size iv) a) + a < 2 ^ 63"
  shows "\<exists>t' h'. plan_workspace (Some t) h m align = Ok (t', h')
     \<and> (\<forall>p \<in> refs ps. \<exists>b s. port_base h' p = Some b \<and> port_byte_size (port_type (h p)) m = Ok s
          \<and> a dvd b \<and> 0 \<le> b \<and> b + s \<le> ws_size (t_workspace t'))
     \<and> (\<forall>p \<in> refs ps. \<forall>q \<in> refs ps. \<forall>i j k b c s s'.
          p \<noteq> q \<and> produced_at (t_nodes t) p i \<and> read_at (t_nodes t) p k
          \<and> produced_at (t_nodes t) q j \<and> i \<le> j \<and> j \<le> k
          \<and> port_base h' p = Some b \<and> port_byte_size (port_type (h p)) m = Ok s
          \<and> port_base h' q = Some c \<and> port_byte_size (port_type (h q)) m = Ok s'
          \<longrightarrow> b + s \<le> c \<or> c + s' \<le> b)"
  unfolding ps_def by (rule plan_workspace_spec [OF al nodes ids [unfolded ps_def] num live sizes])

text \<open>A two-node chain that shares its middle port, used as the concrete input below.\<close>

definition scalar_type :: port_type where
  "scalar_type = \<lparr>pt_dtype = Float32, pt_shape = [], pt_layout = LayoutContiguous, pt_kind = [],
     pt_constraints = []\<rparr>"

definition chain_node :: "nat \<Rightarrow> nat \<Rightarrow> ir_node option" where
  "chain_node i out = Some \<lparr>n_name = ''n'', n_id = 0, n_op = ''math.exp'', n_bind = [], n_inputs = [Some i],
     n_outputs = [Some out], n_stream = 0, n_sync = []\<rparr>"

definition chain_topology :: topology where
  "chain_topology = \<lparr>t_nodes = [chain_node 1 2, chain_node 2 3], t_edges = [],
     t_workspace = \<lparr>ws_size = 0, ws_align = 0, ws_allocations = [], ws_bindings = Map.empty\<rparr>,
     t_input_ports = Map.empty, t_output_ports = Map.empty\<rparr>"

definition chain_heap :: port_heap where
  "chain_heap a = \<lparr>port_id = int a, port_type = scalar_type, port_alloc = None\<rparr>"


theorem plan_workspace_safe_witness:
  "\<exists>t' h'. plan_workspace (Some chain_topology) chain_heap Map.empty 0 = Ok (t', h')
     \<and> (\<forall>p \<in> {1, 2, 3}. \<exists>b. port_base h' p = Some b \<and> 64 dvd b \<and> 0 \<le> b)"
proof -
  have ps: "all_ports (t_nodes chain_topology) = [Some 2, Some 1, Some 3, Some 2]"
    by (simp add: chain_topology_def chain_node_def)
  have num: "assign_port_ids chain_heap (t_nodes chain_topology) = Some chain_heap"
    unfolding assign_port_ids_def ps
    by (simp add: chain_topology_def chain_node_def chain_heap_def)
  have sz: "port_byte_size scalar_type Map.empty = Ok 4"
    by (simp add: port_byte_size_def scalar_type_def bytes_for_def dtype_size_def wrap_simps)
  obtain ivs where live: "analyze_liveness (t_nodes chain_topology) chain_heap Map.empty = Ok ivs"
    and ivs: "length ivs = 3" "\<forall>iv \<in> set ivs. iv_size iv = 4"
    by (simp add: analyze_liveness_def chain_topology_def chain_node_def register_output_def
        extend_for_consumer_def chain_heap_def sz)
  have "(\<Sum>iv \<leftarrow> ivs. round_up (iv_size iv) 64) = (\<Sum>iv \<leftarrow> ivs. 64)"
    using ivs(2) by (intro arg_cong [where f = sum_list] map_cong) (simp_all add: round_up_def)
  then have tot: "(\<Sum>iv \<leftarrow> ivs. round_up (iv_size iv) 64) = 192" using ivs(1) by (simp add: sum_list_triv)
  have prems: "(64 :: int) = (if (0 :: int) \<le> 0 then 64 else 0)" "is_power_of_two 64"
    "None \<notin> set (t_nodes chain_topology)" "(0 :: int) \<le> 3"
    by (simp_all add: is_power_of_two_def chain_topology_def chain_node_def)
  have ids: "\<forall>p \<in> refs (all_ports (t_nodes chain_topology)). id_of chain_heap p \<le> 3"
    "3 + int (length (all_ports (t_nodes chain_topology))) < 2 ^ 31 - 1"
    "ids_unique chain_heap (all_ports (t_nodes chain_topology))"
    unfolding ps by (auto simp: chain_heap_def ids_unique_def inj_on_def)
  have sizes: "\<forall>iv \<in> set ivs. 0 \<le> iv_size iv" "(\<Sum>iv \<leftarrow> ivs. round_up (iv_size iv) 64) + 64 < 2 ^ 63"
    using ivs(2) tot by simp_all
  from plan_workspace_safe [OF prems ids num live sizes] obtain t' h'
    where run: "plan_workspace (Some chain_topology) chain_heap Map.empty 0 = Ok (t', h')"
    and pl: "\<forall>p \<in> refs (all_ports (t_nodes chain_topology)). \<exists>b s. port_base h' p = Some b
      \<and> port_byte_size (port_type (chain_heap p)) Map.empty = Ok s
      \<and> 64 dvd b \<and> 0 \<le> b \<and> b + s \<le> ws_size (t_workspace t')" by (elim exE conjE)
  have "{1, 2, 3} \<subseteq> refs (all_ports (t_nodes chain_topology))" unfolding ps by auto
  with run pl show ?thesis by (intro exI conjI) (assumption, blast)
qed

end
