(* ===== verification/Unify.thy ===== *)
theory Unify
  imports Port_Types
begin

text \<open>
  Port-type unification of \<open>ir/unify.go\<close>. The symbol bindings, which the source mutates in
  place, are threaded through the functions. \<open>unify_error\<close> has one constructor per message;
  \<open>adaptor_hint\<close> is the hint the error carries. On an error the source also returns the
  bindings made so far, which no caller reads; they are dropped here.
\<close>

datatype unify_error =
    DTypeMismatch dtype dtype
  | LayoutMismatch layout layout
  | RankMismatch shape_schema shape_schema
  | StaticMismatch int int
  | AlreadyBound string int int
  | AtDim nat unify_error
  | KindMismatch semantic_kind semantic_kind
  | ZeroDivisor constraint
  | NotDivisible int int int
  | OutOfRange int int int int
  | BoundApart string int string int

fun adaptor_hint :: "unify_error \<Rightarrow> string" where
  "adaptor_hint (DTypeMismatch _ _) = ''cast''"
| "adaptor_hint (LayoutMismatch _ _) = ''transpose''"
| "adaptor_hint (AtDim _ e) = adaptor_hint e"
| "adaptor_hint _ = []"

section \<open>Formats, layouts, kinds\<close>

definition unify_dtype :: "port_type \<Rightarrow> port_type \<Rightarrow> (unify_error, unit) res" where
  "unify_dtype p c =
     (if pt_dtype p = pt_dtype c then Ok ()
      else if pt_dtype p = DInvalid \<or> pt_dtype c = DInvalid then Ok ()
      else Err (DTypeMismatch (pt_dtype p) (pt_dtype c)))"

definition unified_dtype :: "port_type \<Rightarrow> port_type \<Rightarrow> dtype" where
  "unified_dtype p c =
     (if pt_dtype p \<noteq> DInvalid then pt_dtype p
      else if pt_dtype c \<noteq> DInvalid then pt_dtype c
      else Float32)"

definition unify_layout :: "layout \<Rightarrow> layout \<Rightarrow> (unify_error, layout) res" where
  "unify_layout p c =
     (if p = LayoutUnspecified then Ok c
      else if c = LayoutUnspecified then Ok p
      else if p = c then Ok p
      else Err (LayoutMismatch p c))"

definition unify_kind :: "semantic_kind \<Rightarrow> semantic_kind \<Rightarrow> (unify_error, semantic_kind) res" where
  "unify_kind p c =
     (if p = SemanticGeneric then Ok c
      else if c = SemanticGeneric then Ok p
      else if p = c then Ok p
      else Err (KindMismatch p c))"

section \<open>Shapes\<close>

definition bind_symbol :: "symbol_map \<Rightarrow> string \<Rightarrow> int \<Rightarrow> (unify_error, symbol_map) res" where
  "bind_symbol m s v = (case m s of
     Some existing \<Rightarrow> if existing = v then Ok m else Err (AlreadyBound s existing v)
   | None \<Rightarrow> Ok (m(s \<mapsto> v)))"

definition unify_dimension ::
  "dimension \<Rightarrow> dimension \<Rightarrow> symbol_map
     \<Rightarrow> (unify_error, dimension \<times> constraint option \<times> symbol_map) res" where
  "unify_dimension p c m =
     (if \<not> is_symbolic p \<and> \<not> is_symbolic c then
        (if dstatic p = dstatic c then Ok (p, None, m)
         else Err (StaticMismatch (dstatic p) (dstatic c)))
      else if is_symbolic p \<and> \<not> is_symbolic c then
        rbind (bind_symbol m (dsym p) (dstatic c)) (\<lambda>m'. Ok (c, None, m'))
      else if \<not> is_symbolic p \<and> is_symbolic c then
        rbind (bind_symbol m (dsym c) (dstatic p)) (\<lambda>m'. Ok (p, None, m'))
      else if dsym p = dsym c then Ok (p, None, m)
      else Ok (p, Some (SymbolEquality (dsym p) (dsym c)), m))"

fun unify_dims ::
  "nat \<Rightarrow> shape_schema \<Rightarrow> shape_schema \<Rightarrow> symbol_map
     \<Rightarrow> (unify_error, shape_schema \<times> constraint list \<times> symbol_map) res" where
  "unify_dims i (p # ps) (c # cs) m =
     rbind (map_err (AtDim i) (unify_dimension p c m)) (\<lambda>(d, eq, m').
     rbind (unify_dims (Suc i) ps cs m') (\<lambda>(ds, eqs, m'').
     Ok (d # ds, (case eq of None \<Rightarrow> eqs | Some e \<Rightarrow> e # eqs), m'')))"
| "unify_dims i _ _ m = Ok ([], [], m)"

definition unify_shape ::
  "shape_schema \<Rightarrow> shape_schema \<Rightarrow> symbol_map
     \<Rightarrow> (unify_error, shape_schema \<times> constraint list \<times> symbol_map) res" where
  "unify_shape p c m =
     (if length p \<noteq> length c then Err (RankMismatch p c) else unify_dims 0 p c m)"

section \<open>Constraints\<close>

fun merge_into :: "string list \<Rightarrow> constraint list \<Rightarrow> constraint list \<Rightarrow> constraint list" where
  "merge_into seen merged [] = merged"
| "merge_into seen merged (c # cs) =
     (if constraint_string c \<in> set seen then merge_into seen merged cs
      else merge_into (constraint_string c # seen) (merged @ [c]) cs)"

definition merge_constraints ::
  "constraint list \<Rightarrow> constraint list \<Rightarrow> constraint list \<Rightarrow> constraint list" where
  "merge_constraints p c s = merge_into [] [] (p @ c @ s)"

definition resolve_dimension_value :: "shape_schema \<Rightarrow> int \<Rightarrow> symbol_map \<Rightarrow> int option" where
  "resolve_dimension_value shape index m =
     (if shape = [] then None
      else let i = (if index < 0 then int (length shape) + index else index) in
        if i < 0 \<or> i \<ge> int (length shape) then None
        else let d = shape ! nat i in
          if \<not> is_symbolic d then Some (dstatic d) else m (dsym d))"

definition check_constraint ::
  "shape_schema \<Rightarrow> symbol_map \<Rightarrow> constraint \<Rightarrow> (unify_error, unit) res" where
  "check_constraint shape m k = (case k of
     Divisibility i n \<Rightarrow>
       (case resolve_dimension_value shape i m of
          None \<Rightarrow> Ok ()
        | Some v \<Rightarrow>
            if n = 0 then Err (ZeroDivisor k)
            else if v smod n \<noteq> 0 then Err (NotDivisible i v n)
            else Ok ())
   | RangeConstraint i lo hi \<Rightarrow>
       (case resolve_dimension_value shape i m of
          None \<Rightarrow> Ok ()
        | Some v \<Rightarrow> if v < lo \<or> v > hi then Err (OutOfRange i v lo hi) else Ok ())
   | SymbolEquality l r \<Rightarrow>
       (case (m l, m r) of
          (Some x, Some y) \<Rightarrow> if x \<noteq> y then Err (BoundApart l x r y) else Ok ()
        | _ \<Rightarrow> Ok ()))"

fun validate_constraints ::
  "constraint list \<Rightarrow> shape_schema \<Rightarrow> symbol_map \<Rightarrow> (unify_error, unit) res" where
  "validate_constraints [] shape m = Ok ()"
| "validate_constraints (k # ks) shape m =
     rbind (check_constraint shape m k) (\<lambda>_. validate_constraints ks shape m)"

section \<open>Unify\<close>

definition unify :: "port_type \<Rightarrow> port_type \<Rightarrow> (unify_error, port_type \<times> symbol_map) res" where
  "unify p c =
     rbind (unify_dtype p c) (\<lambda>_.
     rbind (unify_layout (pt_layout p) (pt_layout c)) (\<lambda>layout.
     rbind (unify_shape (pt_shape p) (pt_shape c) Map.empty) (\<lambda>(shape, eqs, m).
     rbind (unify_kind (pt_kind p) (pt_kind c)) (\<lambda>kind.
     let merged = merge_constraints (pt_constraints p) (pt_constraints c) eqs in
     rbind (validate_constraints merged shape m) (\<lambda>_.
     Ok (\<lparr>pt_dtype = unified_dtype p c, pt_shape = shape, pt_layout = layout, pt_kind = kind,
          pt_constraints = merged\<rparr>, m))))))"

section \<open>Solutions\<close>

text \<open>
  A valuation gives every symbol a size. It solves the unification problem of two shapes when
  the shapes have the same rank and every pair of dimensions has the same size.
\<close>

definition dval :: "(string \<Rightarrow> int) \<Rightarrow> dimension \<Rightarrow> int" where
  "dval \<rho> d = (if is_symbolic d then \<rho> (dsym d) else dstatic d)"

definition extends :: "(string \<Rightarrow> int) \<Rightarrow> symbol_map \<Rightarrow> bool" where
  "extends \<rho> m \<longleftrightarrow> (\<forall>s v. m s = Some v \<longrightarrow> \<rho> s = v)"

definition eq_holds :: "(string \<Rightarrow> int) \<Rightarrow> constraint \<Rightarrow> bool" where
  "eq_holds \<rho> k = (case k of SymbolEquality l r \<Rightarrow> \<rho> l = \<rho> r | _ \<Rightarrow> True)"

lemma extends_upd: "m s = None \<Longrightarrow> extends \<rho> (m(s \<mapsto> v)) \<longleftrightarrow> \<rho> s = v \<and> extends \<rho> m"
  by (auto simp: extends_def)

lemma bind_symbol_solutions:
  "(\<forall>m'. bind_symbol m s v = Ok m' \<longrightarrow> (extends \<rho> m' \<longleftrightarrow> \<rho> s = v \<and> extends \<rho> m))
   \<and> (\<forall>e. bind_symbol m s v = Err e \<longrightarrow> \<not> (\<rho> s = v \<and> extends \<rho> m))"
  by (cases "m s") (auto simp: bind_symbol_def extends_upd, auto simp: extends_def)

lemma unify_dimension_solutions:
  "(\<forall>d eq m'. unify_dimension p c m = Ok (d, eq, m') \<longrightarrow>
      ((dval \<rho> p = dval \<rho> c \<and> extends \<rho> m) \<longleftrightarrow> (extends \<rho> m' \<and> pred_option (eq_holds \<rho>) eq))
      \<and> (dval \<rho> p = dval \<rho> c \<longrightarrow> dval \<rho> d = dval \<rho> p))
   \<and> (\<forall>e. unify_dimension p c m = Err e \<longrightarrow> \<not> (dval \<rho> p = dval \<rho> c \<and> extends \<rho> m))"
proof -
  note b1 = bind_symbol_solutions [of m "dsym p" "dstatic c" \<rho>]
    and b2 = bind_symbol_solutions [of m "dsym c" "dstatic p" \<rho>]
  show ?thesis
  proof (cases "is_symbolic p"; cases "is_symbolic c")
    assume "is_symbolic p" "is_symbolic c"
    then show ?thesis by (auto simp: unify_dimension_def dval_def eq_holds_def)
  next
    assume "is_symbolic p" "\<not> is_symbolic c"
    then show ?thesis using b1 by (auto simp: unify_dimension_def dval_def rbind_Err_iff)
  next
    assume "\<not> is_symbolic p" "is_symbolic c"
    then show ?thesis using b2 by (auto simp: unify_dimension_def dval_def rbind_Err_iff)
  next
    assume "\<not> is_symbolic p" "\<not> is_symbolic c"
    then show ?thesis by (auto simp: unify_dimension_def dval_def)
  qed
qed

lemma unify_dims_solutions:
  assumes "length ps = length cs"
  shows "(\<forall>ds eqs m'. unify_dims i ps cs m = Ok (ds, eqs, m') \<longrightarrow>
      ((map (dval \<rho>) ps = map (dval \<rho>) cs \<and> extends \<rho> m)
         \<longleftrightarrow> (extends \<rho> m' \<and> list_all (eq_holds \<rho>) eqs))
      \<and> (map (dval \<rho>) ps = map (dval \<rho>) cs \<longrightarrow> map (dval \<rho>) ds = map (dval \<rho>) ps)
      \<and> length ds = length ps)
   \<and> (\<forall>e. unify_dims i ps cs m = Err e \<longrightarrow>
      \<not> (map (dval \<rho>) ps = map (dval \<rho>) cs \<and> extends \<rho> m))"
  using assms
proof (induction ps cs arbitrary: i m rule: list_induct2)
  case Nil
  then show ?case by simp
next
  case (Cons p ps c cs)
  note hd = unify_dimension_solutions [of p c m \<rho>]
  show ?case
  proof (cases "unify_dimension p c m")
    case (Inl e)
    with hd show ?thesis by auto
  next
    case (Inr r)
    obtain d eq m1 where r: "r = (d, eq, m1)" by (cases r)
    note tl = Cons.IH [of "Suc i" m1]
    show ?thesis
    proof (cases "unify_dims (Suc i) ps cs m1")
      case (Inl e)
      with Inr r hd tl show ?thesis by (cases eq) auto
    next
      case (Inr r')
      obtain ds eqs m2 where r': "r' = (ds, eqs, m2)" by (cases r')
      show ?thesis
        using hd tl \<open>unify_dimension p c m = Inr r\<close> r Inr r'
        by (cases eq) auto
    qed
  qed
qed

lemma unify_eqs_kind:
  "unify_dims i ps cs m = Ok (ds, eqs, m') \<Longrightarrow>
     \<forall>k \<in> set eqs. \<exists>p \<in> set ps. \<exists>c \<in> set cs. k = SymbolEquality (dsym p) (dsym c)"
proof (induction i ps cs m arbitrary: ds eqs m' rule: unify_dims.induct)
  case (1 i p ps c cs m)
  then show ?case
    by (fastforce simp: unify_dimension_def split: if_splits option.splits)
qed auto

section \<open>Rendered constraints identify constraints\<close>

text \<open>
  Duplicates are detected on the rendered text, so this matters: on symbols without blanks two
  constraints with the same text are the same constraint.
\<close>

definition clean_constraint :: "constraint \<Rightarrow> bool" where
  "clean_constraint k = (case k of
     SymbolEquality l r \<Rightarrow> CHR '' '' \<notin> set l \<and> CHR '' '' \<notin> set r | _ \<Rightarrow> True)"

definition blanks :: "string \<Rightarrow> nat" where
  "blanks s = length (filter (\<lambda>c. c = CHR '' '') s)"

lemma blanks_simps [simp]:
  "blanks [] = 0" "blanks (c # s) = (if c = CHR '' '' then Suc (blanks s) else blanks s)"
  "blanks (s @ t) = blanks s + blanks t"
  by (simp_all add: blanks_def)

lemma blanks_none: "CHR '' '' \<notin> set s \<Longrightarrow> blanks s = 0"
  by (auto simp: blanks_def filter_empty_conv)

lemma show_int_chars: "c \<in> set (show_int i) \<Longrightarrow> c \<noteq> CHR '' '' \<and> c \<noteq> CHR '']''"
  using show_int_digits [of c i] by auto

lemma divisibility_not_range:
  "constraint_string (Divisibility i m) \<noteq> constraint_string (RangeConstraint i' x y)"
proof
  assume "constraint_string (Divisibility i m) = constraint_string (RangeConstraint i' x y)"
  then have "CHR ''d'' \<in> set (show_int x)"
    using show_int_nonempty [of x] by (cases "show_int x") auto
  then show False using show_int_digits [of "CHR ''d''" x] by auto
qed

lemma constraint_string_inj:
  assumes "clean_constraint k" and "clean_constraint k'"
    and eq: "constraint_string k = constraint_string k'"
  shows "k = k'"
proof -
  have b: "blanks (show_int i) = 0" for i by (rule blanks_none) (use show_int_chars in blast)
  have n: "CHR '']'' \<notin> set (show_int i)" "CHR '' '' \<notin> set (show_int i)" for i
    using show_int_chars by blast+
  have "blanks (constraint_string k) = blanks (constraint_string k')" using eq by simp
  then consider (div) i m i' m' where "k = Divisibility i m" "k' = Divisibility i' m'"
    | (sym) l r l' r' where "k = SymbolEquality l r" "k' = SymbolEquality l' r'"
    | (range) i x y i' x' y' where "k = RangeConstraint i x y" "k' = RangeConstraint i' x' y'"
    using assms eq divisibility_not_range divisibility_not_range [symmetric]
    by (cases k; cases k') (simp_all add: b clean_constraint_def blanks_none)
  then show ?thesis
  proof cases
    case div
    with eq have e: "show_int i @ CHR '']'' # '' % '' @ show_int m @ '' == 0''
        = show_int i' @ CHR '']'' # '' % '' @ show_int m' @ '' == 0''" by simp
    from split_at [OF n(1) n(1) e] have "show_int i = show_int i'" "show_int m = show_int m'"
      by simp_all
    with div show ?thesis by (simp add: show_int_inj)
  next
    case sym
    with assms(1,2) have "CHR '' '' \<notin> set l" "CHR '' '' \<notin> set l'" by (auto simp: clean_constraint_def)
    moreover from eq sym have "l @ CHR '' '' # ''== '' @ r = l' @ CHR '' '' # ''== '' @ r'" by simp
    ultimately have "l = l' \<and> ''== '' @ r = ''== '' @ r'" by (rule split_at)
    with sym show ?thesis by simp
  next
    case range
    with eq have e: "show_int x @ CHR '' '' # ''<= dim['' @ show_int i @ ''] <= '' @ show_int y
        = show_int x' @ CHR '' '' # ''<= dim['' @ show_int i' @ ''] <= '' @ show_int y'" by simp
    from split_at [OF n(2) n(2) e] have x: "show_int x = show_int x'"
      and r: "show_int i @ CHR '']'' # '' <= '' @ show_int y = show_int i' @ CHR '']'' # '' <= '' @ show_int y'"
      by simp_all
    from split_at [OF n(1) n(1) r] have "show_int i = show_int i'" "show_int y = show_int y'"
      by simp_all
    with x range show ?thesis by (simp add: show_int_inj)
  qed
qed

section \<open>Merging and validating constraints\<close>

lemma merge_into_spec:
  "set seen = constraint_string ` set merged \<Longrightarrow> distinct (map constraint_string merged) \<Longrightarrow>
   constraint_string ` set (merge_into seen merged cs) = constraint_string ` (set merged \<union> set cs)
   \<and> set (merge_into seen merged cs) \<subseteq> set merged \<union> set cs
   \<and> set merged \<subseteq> set (merge_into seen merged cs)
   \<and> distinct (map constraint_string (merge_into seen merged cs))"
proof (induction seen merged cs rule: merge_into.induct)
  case (1 seen merged)
  then show ?case by simp
next
  case (2 seen merged c cs)
  show ?case
  proof (cases "constraint_string c \<in> set seen")
    case True
    with 2 show ?thesis by auto
  next
    case False
    have "set (constraint_string c # seen) = constraint_string ` set (merged @ [c])"
      using "2.prems" by auto
    moreover have "distinct (map constraint_string (merged @ [c]))" using "2.prems" False by auto
    ultimately show ?thesis using "2.IH"(2) [OF False] False by auto
  qed
qed

lemma merge_into_known: "constraint_string ` set cs \<subseteq> set seen \<Longrightarrow> merge_into seen merged cs = merged"
  by (induction seen merged cs rule: merge_into.induct) auto

lemma merge_into_fresh:
  "distinct (map constraint_string cs) \<Longrightarrow> set seen \<inter> constraint_string ` set cs = {} \<Longrightarrow>
   merge_into seen merged (cs @ ds)
     = merge_into (rev (map constraint_string cs) @ seen) (merged @ cs) ds"
proof (induction cs arbitrary: seen merged)
  case Nil
  then show ?case by simp
next
  case (Cons c cs)
  have "set (constraint_string c # seen) \<inter> constraint_string ` set cs = {}" using Cons.prems by auto
  with Cons show ?case by auto
qed

lemma merge_distinct: "distinct (map constraint_string (merge_constraints p c s))"
  unfolding merge_constraints_def using merge_into_spec [of "[]" "[]"] by simp

lemma merge_self:
  "distinct (map constraint_string ks) \<Longrightarrow> merge_constraints ks ks [] = ks"
  unfolding merge_constraints_def
  by (subst merge_into_fresh) (simp_all add: merge_into_known)

lemma merge_union:
  assumes "\<forall>k \<in> set p \<union> set c \<union> set s. clean_constraint k"
  shows "set (merge_constraints p c s) = set p \<union> set c \<union> set s"
proof -
  from merge_into_spec [of "[]" "[]" "p @ c @ s"]
  have m: "constraint_string ` set (merge_constraints p c s) = constraint_string ` (set p \<union> set c \<union> set s)"
    "set (merge_constraints p c s) \<subseteq> set p \<union> set c \<union> set s"
    by (simp_all add: merge_constraints_def Un_assoc)
  have "k \<in> set (merge_constraints p c s)" if k: "k \<in> set p \<union> set c \<union> set s" for k
  proof -
    from k m(1) obtain k' where k': "k' \<in> set (merge_constraints p c s)"
      "constraint_string k = constraint_string k'" by (metis (no_types, lifting) imageE imageI)
    with m(2) assms k have "clean_constraint k" "clean_constraint k'" by blast+
    with k' constraint_string_inj show ?thesis by blast
  qed
  with m(2) show ?thesis by blast
qed

lemma validate_iff:
  "validate_constraints ks shape m = Ok () \<longleftrightarrow> (\<forall>k \<in> set ks. check_constraint shape m k = Ok ())"
  by (induction ks) auto

text \<open>What a passed check says of a constraint, dimension by dimension.\<close>

definition respected :: "shape_schema \<Rightarrow> symbol_map \<Rightarrow> constraint \<Rightarrow> bool" where
  "respected shape m k = (case k of
     Divisibility i n \<Rightarrow> (\<forall>v. resolve_dimension_value shape i m = Some v \<longrightarrow> n \<noteq> 0 \<and> n dvd v)
   | RangeConstraint i lo hi \<Rightarrow>
       (\<forall>v. resolve_dimension_value shape i m = Some v \<longrightarrow> lo \<le> v \<and> v \<le> hi)
   | SymbolEquality l r \<Rightarrow> (\<forall>x y. m l = Some x \<and> m r = Some y \<longrightarrow> x = y))"

lemma smod_zero_iff: "v smod n = 0 \<longleftrightarrow> n dvd (v :: int)"
  by (auto simp: signed_modulo_int_def sgn_eq_0_iff mod_eq_0_iff_dvd)

lemma check_respected: "check_constraint shape m k = Ok () \<longleftrightarrow> respected shape m k"
  by (auto simp: check_constraint_def respected_def smod_zero_iff not_less
      split: constraint.split option.splits if_splits)

lemma unify_result:
  assumes "unify p c = Ok (u, m)"
  shows "\<exists>eqs. unify_shape (pt_shape p) (pt_shape c) Map.empty = Ok (pt_shape u, eqs, m)
     \<and> unify_dtype p c = Ok () \<and> pt_dtype u = unified_dtype p c
     \<and> unify_layout (pt_layout p) (pt_layout c) = Ok (pt_layout u)
     \<and> unify_kind (pt_kind p) (pt_kind c) = Ok (pt_kind u)
     \<and> pt_constraints u = merge_constraints (pt_constraints p) (pt_constraints c) eqs
     \<and> (\<forall>k \<in> set (pt_constraints u). respected (pt_shape u) m k)"
proof -
  from assms obtain layout shape eqs kind where
    dt: "unify_dtype p c = Ok ()" and ly: "unify_layout (pt_layout p) (pt_layout c) = Ok layout"
    and sh: "unify_shape (pt_shape p) (pt_shape c) Map.empty = Ok (shape, eqs, m)"
    and kd: "unify_kind (pt_kind p) (pt_kind c) = Ok kind"
    and vc: "validate_constraints (merge_constraints (pt_constraints p) (pt_constraints c) eqs) shape m
        = Ok ()"
    and u: "u = \<lparr>pt_dtype = unified_dtype p c, pt_shape = shape, pt_layout = layout, pt_kind = kind,
        pt_constraints = merge_constraints (pt_constraints p) (pt_constraints c) eqs\<rparr>"
    unfolding unify_def by (fastforce simp: Let_def)
  from vc have "\<forall>k \<in> set (merge_constraints (pt_constraints p) (pt_constraints c) eqs).
      respected shape m k"
    by (simp only: validate_iff check_respected)
  with dt ly sh kd show ?thesis unfolding u by simp
qed

definition no_blank_symbols :: "port_type \<Rightarrow> bool" where
  "no_blank_symbols t \<longleftrightarrow> (\<forall>d \<in> set (pt_shape t). CHR '' '' \<notin> set (dsym d))
     \<and> (\<forall>k \<in> set (pt_constraints t). clean_constraint k)"

lemma no_symbols_bound:
  "unify_dims i ps ps m = Ok (ps, [], m)"
  by (induction ps arbitrary: i) (auto simp: unify_dimension_def)

lemma resolve_empty:
  "resolve_dimension_value shape i Map.empty = Some v \<Longrightarrow> resolve_dimension_value shape i m = Some v"
  by (auto simp: resolve_dimension_value_def Let_def split: if_splits)

lemma unify_shape_exact_core:
  assumes "unify_shape p c Map.empty = Ok (u, eqs, m)"
  shows "((map (dval \<rho>) p = map (dval \<rho>) c) \<longleftrightarrow> (extends \<rho> m \<and> list_all (eq_holds \<rho>) eqs))
      \<and> (map (dval \<rho>) p = map (dval \<rho>) c \<longrightarrow> map (dval \<rho>) u = map (dval \<rho>) p)"
proof -
  from assms have l: "length p = length c" and d: "unify_dims 0 p c Map.empty = Ok (u, eqs, m)"
    by (auto simp: unify_shape_def split: if_splits)
  have "extends \<rho> Map.empty" by (simp add: extends_def)
  with conjunct1 [OF unify_dims_solutions [OF l, of 0 Map.empty \<rho>], rule_format, OF d]
  show ?thesis by blast
qed

lemma respected_weaken: "respected shape m k \<Longrightarrow> respected shape Map.empty k"
  using resolve_empty [of shape _ _ m] by (cases k) (simp_all add: respected_def)

section \<open>Properties\<close>

text \<open>
  Shape unification is exact. When \<open>unifyShape\<close> succeeds, a valuation of the symbols
  makes the two shapes equal if and only if it agrees with the returned bindings and satisfies
  the returned symbol equalities, and then the unified shape has those same sizes; when it
  fails on shapes of equal rank, no valuation makes them equal.
\<close>

theorem unify_shape_exact:
  "(\<forall>u eqs m. unify_shape p c Map.empty = Ok (u, eqs, m) \<longrightarrow>
      ((map (dval \<rho>) p = map (dval \<rho>) c) \<longleftrightarrow> (extends \<rho> m \<and> list_all (eq_holds \<rho>) eqs))
      \<and> (map (dval \<rho>) p = map (dval \<rho>) c \<longrightarrow> map (dval \<rho>) u = map (dval \<rho>) p))
   \<and> (\<forall>e. unify_shape p c Map.empty = Err e \<longrightarrow> map (dval \<rho>) p \<noteq> map (dval \<rho>) c)"
proof (intro conjI allI impI)
  fix e assume err: "unify_shape p c Map.empty = Err e"
  show "map (dval \<rho>) p \<noteq> map (dval \<rho>) c"
  proof (cases "length p = length c")
    case True
    have "extends \<rho> Map.empty" by (simp add: extends_def)
    with unify_dims_solutions [OF True, of 0 Map.empty \<rho>] True err show ?thesis
      by (simp add: unify_shape_def)
  next
    case False
    then show ?thesis using map_eq_imp_length_eq by blast
  qed
qed (use unify_shape_exact_core in blast)+

theorem unify_shape_exact_witness:
  "\<exists>u eqs m. unify_shape [new_symbolic_dimension ''B'', new_static_dimension 8]
        [new_static_dimension 4, new_symbolic_dimension ''D''] Map.empty = Ok (u, eqs, m)
     \<and> map (dval (\<lambda>s. if s = ''B'' then 4 else 8)) u = [4, 8]"
  using unify_shape_exact [of "[new_symbolic_dimension ''B'', new_static_dimension 8]"
      "[new_static_dimension 4, new_symbolic_dimension ''D'']" "\<lambda>s. if s = ''B'' then 4 else 8"]
  by (simp add: unify_shape_def unify_dimension_def bind_symbol_def dval_def
      new_symbolic_dimension_def new_static_dimension_def is_symbolic_def)

text \<open>
  C11. Unification is sound. When \<open>Unify\<close> succeeds on port types whose symbols contain no
  blanks: under every valuation that agrees with the bindings and satisfies the symbol
  equalities of the unified type, producer, consumer and unified shape have the same sizes;
  the formats agree or one is unset; and every constraint of either side is in the unified
  type and respected by every dimension whose size is known.
\<close>

theorem unify_sound:
  assumes u: "unify p c = Ok (u, m)" and clean: "no_blank_symbols p" "no_blank_symbols c"
    and ext: "extends \<rho> m" and eqs: "\<forall>k \<in> set (pt_constraints u). eq_holds \<rho> k"
  shows "map (dval \<rho>) (pt_shape u) = map (dval \<rho>) (pt_shape p)
     \<and> map (dval \<rho>) (pt_shape u) = map (dval \<rho>) (pt_shape c)
     \<and> pt_dtype u \<noteq> DInvalid
     \<and> (pt_dtype p = pt_dtype u \<or> pt_dtype p = DInvalid) \<and> (pt_dtype c = pt_dtype u \<or> pt_dtype c = DInvalid)
     \<and> set (pt_constraints p) \<union> set (pt_constraints c) \<subseteq> set (pt_constraints u)
     \<and> (\<forall>k \<in> set (pt_constraints u). respected (pt_shape u) m k)"
proof -
  from unify_result [OF u] obtain es
    where sh: "unify_shape (pt_shape p) (pt_shape c) Map.empty = Ok (pt_shape u, es, m)"
    and dt: "unify_dtype p c = Ok ()" "pt_dtype u = unified_dtype p c"
    and k: "pt_constraints u = merge_constraints (pt_constraints p) (pt_constraints c) es"
    and r: "\<forall>k \<in> set (pt_constraints u). respected (pt_shape u) m k" by blast
  from sh have "unify_dims 0 (pt_shape p) (pt_shape c) Map.empty = Ok (pt_shape u, es, m)"
    by (simp add: unify_shape_def split: if_splits)
  from unify_eqs_kind [OF this] clean have "\<forall>k \<in> set es. clean_constraint k"
    by (fastforce simp: no_blank_symbols_def clean_constraint_def)
  with clean have un: "set (pt_constraints u) = set (pt_constraints p) \<union> set (pt_constraints c) \<union> set es"
    unfolding k by (intro merge_union) (auto simp: no_blank_symbols_def)
  with eqs have "list_all (eq_holds \<rho>) es" by (auto simp: list_all_iff)
  with unify_shape_exact_core [OF sh] ext have "map (dval \<rho>) (pt_shape p) = map (dval \<rho>) (pt_shape c)"
    and "map (dval \<rho>) (pt_shape u) = map (dval \<rho>) (pt_shape p)" by blast+
  with dt un r show ?thesis
    by (auto simp: unify_dtype_def unified_dtype_def split: if_splits)
qed

text \<open>
  Unification is idempotent: the unified type unifies with itself to itself, with no
  bindings and no further constraints.
\<close>

theorem unify_idempotent:
  assumes "unify p c = Ok (u, m)"
  shows "unify u u = Ok (u, Map.empty)"
proof -
  from unify_result [OF assms] obtain es where dt: "pt_dtype u = unified_dtype p c"
    and k: "pt_constraints u = merge_constraints (pt_constraints p) (pt_constraints c) es"
    and r: "\<forall>k \<in> set (pt_constraints u). respected (pt_shape u) m k" by blast
  have nd: "pt_dtype u \<noteq> DInvalid" unfolding dt by (simp add: unified_dtype_def)
  have "merge_constraints (pt_constraints u) (pt_constraints u) [] = pt_constraints u"
    unfolding k by (rule merge_self) (rule merge_distinct)
  moreover have "\<forall>k \<in> set (pt_constraints u). respected (pt_shape u) Map.empty k"
    using r respected_weaken by blast
  ultimately show ?thesis
    using nd by (auto simp: unify_def Let_def unify_dtype_def unify_layout_def unify_kind_def
        unify_shape_def no_symbols_bound validate_iff check_respected unified_dtype_def)
qed


definition batch_type :: port_type where
  "batch_type = \<lparr>pt_dtype = Float32, pt_shape = [new_symbolic_dimension ''B'', new_static_dimension 8],
     pt_layout = LayoutUnspecified, pt_kind = [], pt_constraints = [Divisibility (- 1) 8]\<rparr>"

definition fixed_type :: port_type where
  "fixed_type = \<lparr>pt_dtype = DInvalid, pt_shape = [new_static_dimension 4, new_symbolic_dimension ''D''],
     pt_layout = LayoutContiguous, pt_kind = ''Logits'', pt_constraints = [RangeConstraint 0 1 16]\<rparr>"

definition unified_example :: port_type where
  "unified_example = \<lparr>pt_dtype = Float32, pt_shape = [new_static_dimension 4, new_static_dimension 8],
     pt_layout = LayoutContiguous, pt_kind = ''Logits'',
     pt_constraints = [Divisibility (- 1) 8, RangeConstraint 0 1 16]\<rparr>"

lemma unify_example:
  "unify batch_type fixed_type = Ok (unified_example, [''B'' \<mapsto> 4, ''D'' \<mapsto> 8])"
proof -
  have ne: "constraint_string (RangeConstraint 0 1 16) \<noteq> constraint_string (Divisibility (- 1) 8)"
    by (rule divisibility_not_range [symmetric])
  then have mg: "merge_constraints [Divisibility (- 1) 8] [RangeConstraint 0 1 16] []
      = [Divisibility (- 1) 8, RangeConstraint 0 1 16]"
    by (simp add: merge_constraints_def del: constraint_string.simps)
  have sh: "unify_shape [new_symbolic_dimension ''B'', new_static_dimension 8]
      [new_static_dimension 4, new_symbolic_dimension ''D''] Map.empty
      = Ok ([new_static_dimension 4, new_static_dimension 8], [], [''B'' \<mapsto> 4, ''D'' \<mapsto> 8])"
    by (simp add: unify_shape_def unify_dimension_def bind_symbol_def
        new_symbolic_dimension_def new_static_dimension_def is_symbolic_def)
  show ?thesis
    by (simp add: unify_def batch_type_def fixed_type_def unified_example_def Let_def unify_dtype_def
        unify_layout_def unify_kind_def sh [unfolded new_static_dimension_def] mg check_constraint_def resolve_dimension_value_def
        unified_dtype_def new_static_dimension_def is_symbolic_def signed_modulo_int_def)
qed

theorem unify_sound_witness:
  "map (dval (\<lambda>s. if s = ''B'' then 4 else 8)) (pt_shape unified_example)
     = map (dval (\<lambda>s. if s = ''B'' then 4 else 8)) (pt_shape batch_type)"
proof -
  let ?r = "\<lambda>s. if s = ''B'' then 4 else (8 :: int)"
  have "no_blank_symbols batch_type" "no_blank_symbols fixed_type"
    by (simp_all add: no_blank_symbols_def batch_type_def fixed_type_def clean_constraint_def
        new_symbolic_dimension_def new_static_dimension_def)
  moreover have "extends ?r [''B'' \<mapsto> 4, ''D'' \<mapsto> 8]" by (simp add: extends_def)
  moreover have "\<forall>k \<in> set (pt_constraints unified_example). eq_holds ?r k"
    by (simp add: unified_example_def eq_holds_def)
  ultimately show ?thesis using unify_sound [OF unify_example, of ?r] by blast
qed

theorem unify_idempotent_witness:
  "unify unified_example unified_example = Ok (unified_example, Map.empty)"
  by (rule unify_idempotent [OF unify_example])

end
