(* ===== verification/Streams.thy ===== *)
theory Streams
  imports Topology "HOL-Library.Multiset"
begin

text \<open>
  The stream scheduler of \<open>ir/stream_scheduler.go\<close>: every node gets a hardware stream, and
  every dependency that crosses streams a wait on the consumer and a matching signal on the
  producer's stream. \<open>collectPredecessorStreams\<close> returns a Go map, which \<open>ScheduleStreams\<close>
  walks in an arbitrary order: the map is an association list in order of first insertion, and
  the parameter \<open>order\<close> chooses the order of the walk.
\<close>

datatype sched_error =
    SchedTopologyRequired
  | NoStreamFits string int int
  | NoSuchProducer string int int int

section \<open>Predecessors\<close>

fun producer_index_from :: "nat \<Rightarrow> ir_node option list \<Rightarrow> (nat \<rightharpoonup> nat) \<Rightarrow> (nat \<rightharpoonup> nat)" where
  "producer_index_from i [] idx = idx"
| "producer_index_from i (None # ns) idx = producer_index_from (Suc i) ns idx"
| "producer_index_from i (Some n # ns) idx =
     producer_index_from (Suc i) ns
       (fold (\<lambda>p idx. case p of None \<Rightarrow> idx
                | Some a \<Rightarrow> if idx a = None then idx(a \<mapsto> i) else idx) (n_outputs n) idx)"

definition build_producer_index :: "ir_node option list \<Rightarrow> (nat \<rightharpoonup> nat)" where
  "build_producer_index nodes = producer_index_from 0 nodes Map.empty"

text \<open>Insert or raise the node id recorded for a stream.\<close>

fun record_stream :: "int \<Rightarrow> int \<Rightarrow> (int \<times> int) list \<Rightarrow> (int \<times> int) list" where
  "record_stream s i [] = [(s, i)]"
| "record_stream s i ((t, j) # ps) =
     (if s = t then (if i > j then (t, i) # ps else (t, j) # ps)
      else (t, j) # record_stream s i ps)"

fun collect_streams ::
  "port_ref list \<Rightarrow> ir_node option list \<Rightarrow> (nat \<rightharpoonup> nat) \<Rightarrow> (int \<times> int) list \<Rightarrow> (int \<times> int) list" where
  "collect_streams [] nodes pidx acc = acc"
| "collect_streams (p # ps) nodes pidx acc =
     (case p of
        None \<Rightarrow> collect_streams ps nodes pidx acc
      | Some a \<Rightarrow>
         (case pidx a of
            None \<Rightarrow> collect_streams ps nodes pidx acc
          | Some j \<Rightarrow>
             (case nodes ! j of
                None \<Rightarrow> collect_streams ps nodes pidx acc
              | Some n \<Rightarrow> collect_streams ps nodes pidx (record_stream (n_stream n) (n_id n) acc))))"

definition collect_predecessor_streams ::
  "ir_node \<Rightarrow> ir_node option list \<Rightarrow> (nat \<rightharpoonup> nat) \<Rightarrow> (int \<times> int) list" where
  "collect_predecessor_streams n nodes pidx = collect_streams (n_inputs n) nodes pidx []"

section \<open>Choosing a stream\<close>

definition pick_stream ::
  "(int \<times> int) list \<Rightarrow> (int \<rightharpoonup> int) \<Rightarrow> int \<Rightarrow> int \<Rightarrow> int \<times> int" where
  "pick_stream preds lastn nxt maxs = (case preds of
     [] \<Rightarrow> if nxt < maxs then (nxt, wrap32 (nxt + 1)) else (0, nxt)
   | [(s, i)] \<Rightarrow>
       if (case lastn s of None \<Rightarrow> 0 | Some l \<Rightarrow> l) = i then (s, nxt)
       else if nxt < maxs then (nxt, wrap32 (nxt + 1))
       else (s, nxt)
   | _ \<Rightarrow> (fold (\<lambda>(s, i) lowest. if lowest < 0 \<or> s < lowest then s else lowest) preds (- 1), nxt))"

definition find_node_by_id :: "ir_node option list \<Rightarrow> int \<Rightarrow> nat option" where
  "find_node_by_id nodes i =
     List.find (\<lambda>k. case nodes ! k of None \<Rightarrow> False | Some n \<Rightarrow> n_id n = i) [0..<length nodes]"

section \<open>The pass\<close>

record sched_state =
  ss_nodes :: "ir_node option list"
  ss_last :: "int \<rightharpoonup> int"
  ss_next_stream :: int
  ss_next_event :: int

definition add_barrier :: "nat \<Rightarrow> sync_event \<Rightarrow> ir_node option list \<Rightarrow> ir_node option list" where
  "add_barrier k e nodes = nodes[k := map_option (\<lambda>n. n\<lparr>n_sync := n_sync n @ [e]\<rparr>) (nodes ! k)]"

definition emit_barriers ::
  "nat \<Rightarrow> int \<Rightarrow> (int \<times> int) \<Rightarrow> sched_state \<Rightarrow> (sched_error, sched_state) res" where
  "emit_barriers k assigned pred st =
     (if fst pred = assigned then Ok st
      else
        let event = ss_next_event st;
            nodes = add_barrier k \<lparr>se_event = event, se_stream = fst pred, se_wait = True\<rparr> (ss_nodes st)
        in case find_node_by_id nodes (snd pred) of
             None \<Rightarrow> Err (case nodes ! k of None \<Rightarrow> SchedTopologyRequired
                      | Some n \<Rightarrow> NoSuchProducer (n_name n) (n_id n) (fst pred) (snd pred))
           | Some j \<Rightarrow> Ok (st\<lparr>ss_next_event := wrap32 (event + 1),
               ss_nodes := add_barrier j \<lparr>se_event = event, se_stream = fst pred, se_wait = False\<rparr> nodes\<rparr>))"

definition schedule_node ::
  "((int \<times> int) list \<Rightarrow> (int \<times> int) list) \<Rightarrow> int \<Rightarrow> (nat \<rightharpoonup> nat) \<Rightarrow> nat \<Rightarrow> sched_state
     \<Rightarrow> (sched_error, sched_state) res" where
  "schedule_node order maxs pidx k st = (case ss_nodes st ! k of
     None \<Rightarrow> Ok st
   | Some n0 \<Rightarrow>
      (let n = (if n_id n0 = 0 then n0\<lparr>n_id := wrap32 (int k + 1)\<rparr> else n0);
           nodes = (ss_nodes st)[k := Some n];
           preds = collect_predecessor_streams n nodes pidx;
           (assigned, nxt) = pick_stream preds (ss_last st) (ss_next_stream st) maxs
       in if assigned < 0 then Err (NoStreamFits (n_name n) (n_id n) maxs)
          else fold_res (emit_barriers k assigned) (order preds)
                 \<lparr>ss_nodes = nodes[k := Some (n\<lparr>n_stream := assigned\<rparr>)],
                  ss_last = (ss_last st)(assigned \<mapsto> n_id n),
                  ss_next_stream = nxt, ss_next_event = ss_next_event st\<rparr>))"

definition schedule_streams ::
  "((int \<times> int) list \<Rightarrow> (int \<times> int) list) \<Rightarrow> topology option \<Rightarrow> int \<Rightarrow> (sched_error, topology) res" where
  "schedule_streams order topo max0 = (case topo of
     None \<Rightarrow> Err SchedTopologyRequired
   | Some t \<Rightarrow>
      if t_nodes t = [] then Ok t
      else
        (let maxs = (if max0 < 1 then wrap32 (int (length (t_nodes t))) else max0);
             pidx = build_producer_index (t_nodes t)
         in rbind (fold_res (schedule_node order maxs pidx) [0..<length (t_nodes t)]
                \<lparr>ss_nodes = t_nodes t, ss_last = Map.empty, ss_next_stream = 0, ss_next_event = 1\<rparr>)
              (\<lambda>st. Ok (t\<lparr>t_nodes := ss_nodes st\<rparr>))))"

section \<open>Predecessor lists\<close>

text \<open>Stored pairs never lose a stream and only ever grow in node id.\<close>

lemma record_stream_spec:
  "distinct (map fst ps) \<Longrightarrow> distinct (map fst (record_stream s i ps))
     \<and> map_of (record_stream s i ps) = (map_of ps)(s \<mapsto> (case map_of ps s of None \<Rightarrow> i | Some j \<Rightarrow> max i j))
     \<and> fst ` set (record_stream s i ps) = insert s (fst ` set ps)"
  by (induction s i ps rule: record_stream.induct) (auto simp: fun_eq_iff max_def)

text \<open>
  The predecessors of a list of inputs: the indices of the producing nodes.
\<close>

definition producers :: "port_ref list \<Rightarrow> ir_node option list \<Rightarrow> (nat \<rightharpoonup> nat) \<Rightarrow> nat set" where
  "producers ps nodes pidx = {j. \<exists>a n. Some a \<in> set ps \<and> pidx a = Some j \<and> nodes ! j = Some n}"

lemma collect_streams_spec:
  assumes "distinct (map fst acc)"
  shows "distinct (map fst (collect_streams ps nodes pidx acc))
     \<and> (\<forall>j \<in> producers ps nodes pidx. \<forall>n. nodes ! j = Some n \<longrightarrow>
          (\<exists>i. map_of (collect_streams ps nodes pidx acc) (n_stream n) = Some i \<and> n_id n \<le> i))
     \<and> (\<forall>s i. map_of (collect_streams ps nodes pidx acc) s = Some i \<longrightarrow>
          map_of acc s = Some i \<or> (\<exists>j \<in> producers ps nodes pidx. \<exists>n. nodes ! j = Some n
             \<and> n_stream n = s \<and> n_id n = i))
     \<and> (\<forall>s i. map_of acc s = Some i \<longrightarrow>
          (\<exists>i'. map_of (collect_streams ps nodes pidx acc) s = Some i' \<and> i \<le> i'))"
  using assms
proof (induction ps nodes pidx acc rule: collect_streams.induct)
  case (1 nodes pidx acc)
  then show ?case by (simp add: producers_def)
next
  case (2 p ps nodes pidx acc)
  consider (nil) "p = None" | (input) a where "p = Some a" "pidx a = None"
    | (gone) a j where "p = Some a" "pidx a = Some j" "nodes ! j = None"
    | (hit) a j n where "p = Some a" "pidx a = Some j" "nodes ! j = Some n"
    by (cases p; cases "pidx (the p)"; cases "nodes ! the (pidx (the p))") auto
  then show ?case
  proof cases
    case nil
    then have "collect_streams (p # ps) nodes pidx acc = collect_streams ps nodes pidx acc"
      "producers (p # ps) nodes pidx = producers ps nodes pidx" by (auto simp: producers_def)
    with "2.IH"(1) [OF nil "2.prems"] show ?thesis by (simp only:) blast
  next
    case input
    then have "collect_streams (p # ps) nodes pidx acc = collect_streams ps nodes pidx acc"
      "producers (p # ps) nodes pidx = producers ps nodes pidx" by (auto simp: producers_def)
    with "2.IH"(2) [OF input "2.prems"] show ?thesis by (simp only:) blast
  next
    case gone
    then have "collect_streams (p # ps) nodes pidx acc = collect_streams ps nodes pidx acc"
      "producers (p # ps) nodes pidx = producers ps nodes pidx" by (auto simp: producers_def)
    with "2.IH"(3) [OF gone "2.prems"] show ?thesis by (simp only:) blast
  next
    case hit
    let ?acc = "record_stream (n_stream n) (n_id n) acc"
    note rs = record_stream_spec [OF "2.prems", of "n_stream n" "n_id n"]
    have pr: "producers (p # ps) nodes pidx = insert j (producers ps nodes pidx)"
      using hit by (auto simp: producers_def)
    have run: "collect_streams (p # ps) nodes pidx acc = collect_streams ps nodes pidx ?acc"
      using hit by simp
    have dist: "distinct (map fst ?acc)" using rs by blast
    note ih = "2.IH"(4) [OF hit(1,2,3) dist]
    have acc: "map_of ?acc = (map_of acc)(n_stream n \<mapsto>
        (case map_of acc (n_stream n) of None \<Rightarrow> n_id n | Some j \<Rightarrow> max (n_id n) j))" using rs by blast
    have up: "\<exists>i'. map_of (collect_streams ps nodes pidx ?acc) s = Some i' \<and> i \<le> i'"
      if "map_of ?acc s = Some i" for s i using ih that by blast
    have "\<exists>i. map_of ?acc (n_stream n) = Some i \<and> n_id n \<le> i" by (simp add: acc split: option.splits)
    then have jok: "\<exists>i. map_of (collect_streams ps nodes pidx ?acc) (n_stream n) = Some i \<and> n_id n \<le> i"
      using up by (meson order_trans)
    have keep: "\<exists>i'. map_of (collect_streams ps nodes pidx ?acc) s = Some i' \<and> i \<le> i'"
      if "map_of acc s = Some i" for s i
    proof -
      from that have "\<exists>i1. map_of ?acc s = Some i1 \<and> i \<le> i1" by (auto simp: acc)
      with up show ?thesis by (meson order_trans)
    qed
    have from_acc: "map_of acc s = Some i \<or> (n_stream n = s \<and> n_id n = i)"
      if "map_of ?acc s = Some i" for s i
      using that by (auto simp: acc max_def split: if_splits option.splits)
    show ?thesis unfolding run pr
    proof (intro conjI ballI allI impI)
      show "distinct (map fst (collect_streams ps nodes pidx ?acc))" using ih by blast
      fix j' n' assume "j' \<in> insert j (producers ps nodes pidx)" "nodes ! j' = Some n'"
      then show "\<exists>i. map_of (collect_streams ps nodes pidx ?acc) (n_stream n') = Some i \<and> n_id n' \<le> i"
        using ih jok hit(3) by (cases "j' = j") auto
    next
      fix s i assume "map_of (collect_streams ps nodes pidx ?acc) s = Some i"
      with ih have "map_of ?acc s = Some i \<or> (\<exists>j \<in> producers ps nodes pidx. \<exists>n. nodes ! j = Some n
          \<and> n_stream n = s \<and> n_id n = i)" by blast
      with from_acc hit(3) show "map_of acc s = Some i \<or> (\<exists>j \<in> insert j (producers ps nodes pidx).
          \<exists>n. nodes ! j = Some n \<and> n_stream n = s \<and> n_id n = i)" by blast
    next
      fix s i assume "map_of acc s = Some i"
      with keep show "\<exists>i'. map_of (collect_streams ps nodes pidx ?acc) s = Some i' \<and> i \<le> i'" by blast
    qed
  qed
qed

lemma record_stream_length: "length (record_stream s i ps) \<le> Suc (length ps)"
  by (induction s i ps rule: record_stream.induct) auto

lemma collect_streams_length:
  "length (collect_streams ps nodes pidx acc) \<le> length ps + length acc"
proof (induction ps nodes pidx acc rule: collect_streams.induct)
  case (2 p ps nodes pidx acc)
  show ?case
  proof (cases p)
    case None
    with "2.IH"(1) show ?thesis by simp
  next
    case p: (Some a)
    show ?thesis
    proof (cases "pidx a")
      case None
      with "2.IH"(2) [OF p None] p show ?thesis by simp
    next
      case j: (Some j)
      show ?thesis
      proof (cases "nodes ! j")
        case None
        with "2.IH"(3) [OF p j None] p j show ?thesis by simp
      next
        case (Some n)
        with "2.IH"(4) [OF p j Some] record_stream_length [of "n_stream n" "n_id n" acc] p j
        show ?thesis by simp
      qed
    qed
  qed
qed simp

section \<open>The invariant of the pass\<close>

text \<open>
  \<open>k\<close> nodes are scheduled; \<open>b\<close> bounds the next event id. Scheduled nodes carry the id of
  their position, the others are untouched.
\<close>

definition sched_inv :: "ir_node option list \<Rightarrow> int \<Rightarrow> nat \<Rightarrow> int \<Rightarrow> sched_state \<Rightarrow> bool" where
  "sched_inv orig maxs k b st \<longleftrightarrow>
     length (ss_nodes st) = length orig
     \<and> (\<forall>i < length orig. k \<le> i \<longrightarrow> ss_nodes st ! i = orig ! i)
     \<and> (\<forall>i < length orig. rel_option (\<lambda>n m. n_inputs n = n_inputs m \<and> n_outputs n = n_outputs m
           \<and> n_name n = n_name m \<and> n_op n = n_op m) (ss_nodes st ! i) (orig ! i))
     \<and> (\<forall>i < length orig. \<forall>n. i < k \<and> ss_nodes st ! i = Some n \<longrightarrow>
           n_id n = int i + 1 \<and> 0 \<le> n_stream n \<and> n_stream n < maxs)
     \<and> 0 \<le> ss_next_stream st \<and> ss_next_stream st \<le> maxs
     \<and> 1 \<le> ss_next_event st \<and> ss_next_event st \<le> b
     \<and> (\<forall>i < length orig. \<forall>n e. ss_nodes st ! i = Some n \<and> e \<in> set (n_sync n) \<longrightarrow>
           1 \<le> se_event e \<and> se_event e < ss_next_event st)
     \<and> (\<forall>i < length orig. \<forall>j < length orig. \<forall>n m e f. ss_nodes st ! i = Some n \<and> ss_nodes st ! j = Some m
           \<and> e \<in> set (n_sync n) \<and> f \<in> set (n_sync m) \<and> \<not> se_wait e \<and> \<not> se_wait f
           \<and> se_event e = se_event f \<longrightarrow> i = j)"

lemma sched_inv_node:
  "sched_inv orig maxs k b st \<Longrightarrow> i < length orig \<Longrightarrow> i < k \<Longrightarrow> ss_nodes st ! i = Some n \<Longrightarrow>
     n_id n = int i + 1 \<and> 0 \<le> n_stream n \<and> n_stream n < maxs"
  unfolding sched_inv_def by blast

text \<open>Node \<open>k\<close> cannot start before node \<open>j\<close> has finished.\<close>

definition synced :: "ir_node option list \<Rightarrow> nat \<Rightarrow> nat \<Rightarrow> bool" where
  "synced nodes k j \<longleftrightarrow> (\<exists>n m. nodes ! k = Some n \<and> nodes ! j = Some m
     \<and> (n_stream n = n_stream m
        \<or> (\<exists>e j' m'. \<lparr>se_event = e, se_stream = n_stream m, se_wait = True\<rparr> \<in> set (n_sync n)
             \<and> j \<le> j' \<and> j' < k \<and> nodes ! j' = Some m' \<and> n_stream m' = n_stream m
             \<and> \<lparr>se_event = e, se_stream = n_stream m, se_wait = False\<rparr> \<in> set (n_sync m'))))"

definition grown :: "nat \<Rightarrow> ir_node option list \<Rightarrow> ir_node option list \<Rightarrow> bool" where
  "grown K xs ys \<longleftrightarrow> (\<forall>i < K. \<forall>n. xs ! i = Some n \<longrightarrow>
     (\<exists>m. ys ! i = Some m \<and> n_stream m = n_stream n \<and> n_id m = n_id n \<and> set (n_sync n) \<subseteq> set (n_sync m)))"

lemma grown_refl [simp]: "grown K xs xs"
  by (simp add: grown_def)

lemma grown_le: "grown K xs ys \<Longrightarrow> L \<le> K \<Longrightarrow> grown L xs ys"
  by (simp add: grown_def)

lemma grownD:
  "grown K xs ys \<Longrightarrow> i < K \<Longrightarrow> xs ! i = Some n \<Longrightarrow>
     \<exists>m. ys ! i = Some m \<and> n_stream m = n_stream n \<and> n_id m = n_id n \<and> set (n_sync n) \<subseteq> set (n_sync m)"
  by (simp add: grown_def)

lemma grown_trans: "grown K xs ys \<Longrightarrow> grown K ys zs \<Longrightarrow> grown K xs zs"
proof -
  assume a: "grown K xs ys" and b: "grown K ys zs"
  show ?thesis unfolding grown_def
  proof (intro allI impI)
    fix i n assume i: "i < K" "xs ! i = Some n"
    from grownD [OF a i] obtain m where m: "ys ! i = Some m" "n_stream m = n_stream n" "n_id m = n_id n"
      "set (n_sync n) \<subseteq> set (n_sync m)" by blast
    from grownD [OF b i(1) m(1)] m show "\<exists>m. zs ! i = Some m \<and> n_stream m = n_stream n \<and> n_id m = n_id n
       \<and> set (n_sync n) \<subseteq> set (n_sync m)" by auto
  qed
qed

lemma synced_grown:
  assumes sy: "synced xs k j" and gr: "grown K xs ys" and K: "k < K" "j < K"
  shows "synced ys k j"
proof -
  from sy obtain n m where nm: "xs ! k = Some n" "xs ! j = Some m"
    and alt: "n_stream n = n_stream m
        \<or> (\<exists>e j' m'. \<lparr>se_event = e, se_stream = n_stream m, se_wait = True\<rparr> \<in> set (n_sync n)
             \<and> j \<le> j' \<and> j' < k \<and> xs ! j' = Some m' \<and> n_stream m' = n_stream m
             \<and> \<lparr>se_event = e, se_stream = n_stream m, se_wait = False\<rparr> \<in> set (n_sync m'))"
    unfolding synced_def by blast
  from grownD [OF gr K(1) nm(1)] obtain n1 where n1: "ys ! k = Some n1" "n_stream n1 = n_stream n"
    "set (n_sync n) \<subseteq> set (n_sync n1)" by blast
  from grownD [OF gr K(2) nm(2)] obtain m1 where m1: "ys ! j = Some m1" "n_stream m1 = n_stream m" by blast
  from alt show ?thesis
  proof (elim disjE exE conjE)
    assume "n_stream n = n_stream m"
    with n1 m1 show ?thesis by (simp add: synced_def)
  next
    fix e j' m'
    assume w: "\<lparr>se_event = e, se_stream = n_stream m, se_wait = True\<rparr> \<in> set (n_sync n)" "j \<le> j'" "j' < k"
      and m': "xs ! j' = Some m'" "n_stream m' = n_stream m"
        "\<lparr>se_event = e, se_stream = n_stream m, se_wait = False\<rparr> \<in> set (n_sync m')"
    from grownD [OF gr _ m'(1)] w K m' obtain m2 where "ys ! j' = Some m2" "n_stream m2 = n_stream m"
      "\<lparr>se_event = e, se_stream = n_stream m, se_wait = False\<rparr> \<in> set (n_sync m2)" by fastforce
    with n1 m1 w show ?thesis unfolding synced_def by auto
  qed
qed

lemma sched_inv_mono:
  assumes "sched_inv orig maxs k b st" and "b \<le> b'"
  shows "sched_inv orig maxs k b' st"
proof -
  have "ss_next_event st \<le> b'" using assms by (auto simp: sched_inv_def)
  with assms(1) show ?thesis unfolding sched_inv_def by (elim conjE, intro conjI) assumption+
qed

text \<open>A wait of node \<open>k\<close> on stream \<open>s\<close> and its signal by the node with id \<open>i\<close>.\<close>

definition paired :: "ir_node option list \<Rightarrow> nat \<Rightarrow> int \<Rightarrow> int \<Rightarrow> bool" where
  "paired nodes k s i \<longleftrightarrow> (\<exists>e n j m. nodes ! k = Some n \<and> j < k \<and> nodes ! j = Some m \<and> i = int j + 1
     \<and> n_stream m = s \<and> \<lparr>se_event = e, se_stream = s, se_wait = True\<rparr> \<in> set (n_sync n)
     \<and> \<lparr>se_event = e, se_stream = s, se_wait = False\<rparr> \<in> set (n_sync m))"

lemma paired_grown:
  assumes "paired xs k s i" and "grown (Suc k) xs ys"
  shows "paired ys k s i"
proof -
  from assms(1) obtain e n j m where p: "xs ! k = Some n" "j < k" "xs ! j = Some m" "i = int j + 1"
     "n_stream m = s" "\<lparr>se_event = e, se_stream = s, se_wait = True\<rparr> \<in> set (n_sync n)"
     "\<lparr>se_event = e, se_stream = s, se_wait = False\<rparr> \<in> set (n_sync m)" unfolding paired_def by blast
  from grownD [OF assms(2) _ p(1)] p obtain n1 where n1: "ys ! k = Some n1"
    "\<lparr>se_event = e, se_stream = s, se_wait = True\<rparr> \<in> set (n_sync n1)" by fastforce
  from grownD [OF assms(2) _ p(3)] p obtain m1 where m1: "ys ! j = Some m1" "n_stream m1 = s"
    "\<lparr>se_event = e, se_stream = s, se_wait = False\<rparr> \<in> set (n_sync m1)" by fastforce
  from n1 m1 p show ?thesis unfolding paired_def by blast
qed

lemma add_barrier_nth:
  "k < length nodes \<Longrightarrow> add_barrier k e nodes ! i
     = (if i = k then map_option (\<lambda>n. n\<lparr>n_sync := n_sync n @ [e]\<rparr>) (nodes ! k) else nodes ! i)"
  by (simp add: add_barrier_def)

lemma add_barrier_length [simp]: "length (add_barrier k e nodes) = length nodes"
  by (simp add: add_barrier_def)

lemma find_node_by_id_spec:
  assumes "j < length nodes" and "nodes ! j = Some m" and "n_id m = i"
    and "\<forall>l < j. \<forall>n. nodes ! l = Some n \<longrightarrow> n_id n \<noteq> i"
  shows "find_node_by_id nodes i = Some j"
  unfolding find_node_by_id_def find_Some_iff
  using assms by (intro exI [of _ j]) (auto split: option.splits)

lemma emit_barriers_step:
  assumes inv: "sched_inv orig maxs (Suc k) b st" and k: "k < length orig"
    and nk: "ss_nodes st ! k = Some nk" "n_stream nk = assigned"
    and j: "j < k" "ss_nodes st ! j = Some m" "n_stream m = s" "n_id m = i" and b: "b < 2 ^ 31 - 1"
  shows "\<exists>st'. emit_barriers k assigned (s, i) st = Ok st' \<and> sched_inv orig maxs (Suc k) (b + 1) st'
     \<and> grown K (ss_nodes st) (ss_nodes st')
     \<and> (s \<noteq> assigned \<longrightarrow> paired (ss_nodes st') k s i)"
proof (cases "s = assigned")
  case True
  have "sched_inv orig maxs (Suc k) (b + 1) st" using inv by (rule sched_inv_mono) simp
  with True show ?thesis by (simp add: emit_barriers_def)
next
  case ne: False
  define e where "e = ss_next_event st"
  define w where "w = \<lparr>se_event = e, se_stream = s, se_wait = True\<rparr>"
  define g where "g = \<lparr>se_event = e, se_stream = s, se_wait = False\<rparr>"
  define n1 where "n1 = add_barrier k w (ss_nodes st)"
  define n2 where "n2 = add_barrier j g n1"
  define st' where "st' = st\<lparr>ss_next_event := e + 1, ss_nodes := n2\<rparr>"
  have len: "length (ss_nodes st) = length orig" using inv by (simp add: sched_inv_def)
  have n2: "n2 ! l = (if l = j then Some (m\<lparr>n_sync := n_sync m @ [g]\<rparr>)
      else if l = k then Some (nk\<lparr>n_sync := n_sync nk @ [w]\<rparr>) else ss_nodes st ! l)" for l
    using j nk k len by (simp add: n2_def n1_def add_barrier_nth)
  have ids: "n_id n = int l + 1" if "ss_nodes st ! l = Some n" "l < Suc k" for l n
    using inv k that by (auto simp: sched_inv_def)
  have fnd: "find_node_by_id n1 i = Some j"
  proof (rule find_node_by_id_spec)
    show "j < length n1" using j k len by (simp add: n1_def)
    show "n1 ! j = Some m" using j k len by (simp add: n1_def add_barrier_nth)
    show "\<forall>l < j. \<forall>n. n1 ! l = Some n \<longrightarrow> n_id n \<noteq> i"
    proof (intro allI impI)
      fix l n assume l: "l < j" "n1 ! l = Some n"
      then have "ss_nodes st ! l = Some n" using j k len by (simp add: n1_def add_barrier_nth)
      with ids [of l n] ids [of j m] l j show "n_id n \<noteq> i" by simp
    qed
  qed (rule j(4))
  have e: "1 \<le> e" "e \<le> b" using inv by (auto simp: sched_inv_def e_def)
  have run: "emit_barriers k assigned (s, i) st = Ok st'"
    using ne fnd e b
    by (simp add: emit_barriers_def Let_def w_def g_def e_def n1_def n2_def st'_def wrap_simps)
  have sync: "f \<in> set (n_sync n') \<Longrightarrow> n2 ! l = Some n' \<Longrightarrow>
      (\<exists>n. ss_nodes st ! l = Some n \<and> f \<in> set (n_sync n)) \<or> (f = g \<and> l = j) \<or> (f = w \<and> l = k)" for f n' l
    by (auto simp: n2 j nk split: if_splits)
  have old: "se_event f < e" "1 \<le> se_event f"
    if "ss_nodes st ! l = Some n" "f \<in> set (n_sync n)" "l < length orig" for l n f
    using inv that by (auto simp: sched_inv_def e_def)
  have keep: "\<exists>n'. n2 ! l = Some n' \<and> n_stream n' = n_stream n \<and> n_id n' = n_id n
      \<and> set (n_sync n) \<subseteq> set (n_sync n')" if "ss_nodes st ! l = Some n" for l n
    using that j nk by (auto simp: n2)
  have "sched_inv orig maxs (Suc k) (b + 1) st'"
    unfolding sched_inv_def
  proof (intro conjI allI impI)
    show "length (ss_nodes st') = length orig" using len by (simp add: st'_def n2_def n1_def)
    show "0 \<le> ss_next_stream st'" "ss_next_stream st' \<le> maxs" using inv by (simp_all add: sched_inv_def st'_def)
    show "1 \<le> ss_next_event st'" "ss_next_event st' \<le> b + 1" using e by (simp_all add: st'_def)
    show "ss_nodes st' ! l = orig ! l" if "l < length orig" "Suc k \<le> l" for l
      using inv that j by (simp add: sched_inv_def st'_def n2)
    show "rel_option (\<lambda>n m. n_inputs n = n_inputs m \<and> n_outputs n = n_outputs m \<and> n_name n = n_name m
        \<and> n_op n = n_op m) (ss_nodes st' ! l) (orig ! l)" if "l < length orig" for l
    proof -
      from inv that have r: "rel_option (\<lambda>n m. n_inputs n = n_inputs m \<and> n_outputs n = n_outputs m
         \<and> n_name n = n_name m \<and> n_op n = n_op m) (ss_nodes st ! l) (orig ! l)" by (simp add: sched_inv_def)
      show ?thesis
      proof (cases "l = j \<or> l = k")
        case True
        with r j nk show ?thesis by (cases "orig ! l") (auto simp: st'_def n2)
      next
        case False
        with r show ?thesis by (simp add: st'_def n2)
      qed
    qed
    fix l n
    assume l: "l < length orig"
    { assume a: "l < Suc k \<and> ss_nodes st' ! l = Some n"
      then obtain n0 where n0: "ss_nodes st ! l = Some n0" "n_id n0 = n_id n" "n_stream n0 = n_stream n"
        using j nk by (auto simp: st'_def n2 split: if_splits)
      with inv a l show "n_id n = int l + 1" "0 \<le> n_stream n" "n_stream n < maxs"
        by (auto simp: sched_inv_def) }
    { fix f assume "ss_nodes st' ! l = Some n \<and> f \<in> set (n_sync n)"
      with sync [of f n l] old l e show "1 \<le> se_event f" "se_event f < ss_next_event st'"
        by (fastforce simp: st'_def g_def w_def)+ }
    { fix l' n' f f'
      assume a: "l' < length orig" "ss_nodes st' ! l = Some n \<and> ss_nodes st' ! l' = Some n' \<and> f \<in> set (n_sync n)
         \<and> f' \<in> set (n_sync n') \<and> \<not> se_wait f \<and> \<not> se_wait f' \<and> se_event f = se_event f'"
      have c: "(\<exists>n. ss_nodes st ! l = Some n \<and> f \<in> set (n_sync n)) \<or> (f = g \<and> l = j)"
        using sync [of f n l] a by (auto simp: st'_def w_def)
      have c': "(\<exists>n. ss_nodes st ! l' = Some n \<and> f' \<in> set (n_sync n)) \<or> (f' = g \<and> l' = j)"
        using sync [of f' n' l'] a by (auto simp: st'_def w_def)
      have ge: "se_event g = e" by (simp add: g_def)
      consider "f = g \<and> l = j" "f' = g \<and> l' = j"
        | n1 where "ss_nodes st ! l = Some n1" "f \<in> set (n_sync n1)" "f' = g \<and> l' = j"
        | n1 where "ss_nodes st ! l' = Some n1" "f' \<in> set (n_sync n1)" "f = g \<and> l = j"
        | n1 n2 where "ss_nodes st ! l = Some n1" "f \<in> set (n_sync n1)" "ss_nodes st ! l' = Some n2"
            "f' \<in> set (n_sync n2)"
        using c c' by blast
      then show "l = l'"
      proof cases
        case 2
        with old(1) [OF 2(1,2) l] a ge show ?thesis by simp
      next
        case 3
        with old(1) [OF 3(1,2) a(1)] a ge show ?thesis by simp
      next
        case 4
        with inv a l show ?thesis unfolding sched_inv_def by blast
      qed simp }
  qed
  moreover have "grown K (ss_nodes st) (ss_nodes st')"
    using keep by (fastforce simp: grown_def st'_def)
  moreover have "paired (ss_nodes st') k s i"
    unfolding paired_def using j ids [of j m]
    by (intro exI [of _ e] exI [of _ "nk\<lparr>n_sync := n_sync nk @ [w]\<rparr>"] exI [of _ j]
        exI [of _ "m\<lparr>n_sync := n_sync m @ [g]\<rparr>"]) (simp add: st'_def n2 w_def g_def)
  ultimately show ?thesis using run by blast
qed

lemma emit_all:
  assumes "sched_inv orig maxs (Suc k) b st" and "k < length orig"
    and "ss_nodes st ! k = Some nk" and "n_stream nk = assigned"
    and "\<forall>(s, i) \<in> set L. \<exists>j m. j < k \<and> ss_nodes st ! j = Some m \<and> n_stream m = s \<and> n_id m = i"
    and "b + int (length L) < 2 ^ 31"
  shows "\<exists>st'. fold_res (emit_barriers k assigned) L st = Ok st'
     \<and> sched_inv orig maxs (Suc k) (b + int (length L)) st' \<and> grown (Suc k) (ss_nodes st) (ss_nodes st')
     \<and> (\<forall>(s, i) \<in> set L. s \<noteq> assigned \<longrightarrow> paired (ss_nodes st') k s i)"
  using assms
proof (induction L arbitrary: b st nk)
  case Nil
  then show ?case by simp
next
  case (Cons p L)
  obtain s i where p: "p = (s, i)" by (cases p)
  from Cons.prems(5) p obtain j m where j: "j < k" "ss_nodes st ! j = Some m" "n_stream m = s" "n_id m = i"
    by auto
  have "b < 2 ^ 31 - 1" using Cons.prems(6) by simp
  from emit_barriers_step [OF Cons.prems(1-4) j this] obtain st1
    where st1: "emit_barriers k assigned (s, i) st = Ok st1" "sched_inv orig maxs (Suc k) (b + 1) st1"
    and gr: "grown (Suc k) (ss_nodes st) (ss_nodes st1)"
    and pr: "s \<noteq> assigned \<longrightarrow> paired (ss_nodes st1) k s i" by blast
  from grownD [OF gr _ Cons.prems(3)] obtain nk1 where nk1: "ss_nodes st1 ! k = Some nk1" "n_stream nk1 = assigned"
    using Cons.prems(4) by auto
  have "\<forall>(s, i) \<in> set L. \<exists>j m. j < k \<and> ss_nodes st1 ! j = Some m \<and> n_stream m = s \<and> n_id m = i"
  proof (intro ballI, clarify)
    fix s' i' assume "(s', i') \<in> set L"
    with Cons.prems(5) obtain j m where j: "j < k" "ss_nodes st ! j = Some m" "n_stream m = s'" "n_id m = i'"
      by auto
    with grownD [OF gr _ j(2)] show "\<exists>j m. j < k \<and> ss_nodes st1 ! j = Some m \<and> n_stream m = s' \<and> n_id m = i'"
      by auto
  qed
  from Cons.IH [OF st1(2) Cons.prems(2) nk1 this] Cons.prems(6) obtain st'
    where st': "fold_res (emit_barriers k assigned) L st1 = Ok st'"
      "sched_inv orig maxs (Suc k) (b + 1 + int (length L)) st'"
    and gr': "grown (Suc k) (ss_nodes st1) (ss_nodes st')"
    and pr': "\<forall>(s, i) \<in> set L. s \<noteq> assigned \<longrightarrow> paired (ss_nodes st') k s i" by auto
  have "s \<noteq> assigned \<longrightarrow> paired (ss_nodes st') k s i" using pr paired_grown gr' by blast
  with st1 st' grown_trans [OF gr gr'] pr' p show ?case by (auto simp: algebra_simps)
qed

lemma lowest_fold:
  "(\<forall>(s, i) \<in> set ps. 0 \<le> s \<and> s < M) \<Longrightarrow> (x < 0 \<and> ps \<noteq> []) \<or> (0 \<le> x \<and> x < M) \<Longrightarrow>
   0 \<le> fold (\<lambda>(s, i) l. if l < 0 \<or> s < l then s else l) ps (x :: int)
   \<and> fold (\<lambda>(s, i) l. if l < 0 \<or> s < l then s else l) ps x < M"
proof (induction ps arbitrary: x)
  case Nil
  then show ?case by simp
next
  case (Cons p ps)
  obtain s i where p: "p = (s, i)" by (cases p)
  with Cons.prems have "0 \<le> s" "s < M" by auto
  with Cons.prems p show ?case using Cons.IH [of "if x < 0 \<or> s < x then s else x"] by auto
qed

lemma pick_stream_range:
  assumes "\<forall>(s, i) \<in> set preds. 0 \<le> s \<and> s < maxs" and "0 \<le> nxt" and "nxt \<le> maxs"
    and "1 \<le> maxs" and "maxs < 2 ^ 31" and "pick_stream preds lastn nxt maxs = (a, nxt')"
  shows "0 \<le> a \<and> a < maxs \<and> 0 \<le> nxt' \<and> nxt' \<le> maxs"
proof -
  have w: "wrap32 (nxt + 1) = nxt + 1" if "nxt < maxs" using that assms by (simp add: wrap_simps)
  consider "preds = []" | s i where "preds = [(s, i)]" | p q ps where "preds = p # q # ps"
    by (metis list.exhaust surj_pair)
  then show ?thesis
  proof cases
    case 1
    with assms w show ?thesis by (auto simp: pick_stream_def split: if_splits)
  next
    case 2
    with assms w show ?thesis by (auto simp: pick_stream_def split: if_splits)
  next
    case 3
    have "0 \<le> fold (\<lambda>(s, i) l. if l < 0 \<or> s < l then s else l) preds (- 1)
      \<and> fold (\<lambda>(s, i) l. if l < 0 \<or> s < l then s else l) preds (- 1) < maxs"
      by (rule lowest_fold) (use assms(1) 3 in auto)
    with assms 3 show ?thesis by (simp add: pick_stream_def split: list.splits prod.splits)
  qed
qed

definition fresh_node :: "ir_node \<Rightarrow> bool" where
  "fresh_node n \<longleftrightarrow> n_id n = 0 \<and> n_sync n = []"

text \<open>Every producer comes before its consumers.\<close>

definition producers_first :: "ir_node option list \<Rightarrow> bool" where
  "producers_first nodes \<longleftrightarrow> (\<forall>k < length nodes. \<forall>n a j. nodes ! k = Some n \<and> Some a \<in> set (n_inputs n)
     \<and> build_producer_index nodes a = Some j \<longrightarrow> j < k \<and> nodes ! j \<noteq> None)"

definition input_count :: "ir_node option list \<Rightarrow> nat \<Rightarrow> int" where
  "input_count nodes k = (\<Sum>n \<leftarrow> take k nodes. case n of None \<Rightarrow> 0 | Some x \<Rightarrow> int (length (n_inputs x)))"

lemma input_count_Suc:
  "k < length nodes \<Longrightarrow> input_count nodes (Suc k)
     = input_count nodes k + (case nodes ! k of None \<Rightarrow> 0 | Some x \<Rightarrow> int (length (n_inputs x)))"
  by (simp add: input_count_def take_Suc_conv_app_nth)

lemma input_count_mono: "i \<le> j \<Longrightarrow> input_count nodes i \<le> input_count nodes j"
proof -
  assume "i \<le> j"
  then have "take j nodes = take i nodes @ take (j - i) (drop i nodes)" by (metis le_add_diff_inverse take_add)
  moreover have "0 \<le> (\<Sum>n \<leftarrow> xs. case n of None \<Rightarrow> 0 | Some x \<Rightarrow> int (length (n_inputs x)))" for xs
    by (rule sum_list_nonneg) (auto split: option.splits)
  ultimately show ?thesis by (simp add: input_count_def)
qed

definition deps_synced :: "ir_node option list \<Rightarrow> nat \<Rightarrow> ir_node option list \<Rightarrow> bool" where
  "deps_synced orig k nodes \<longleftrightarrow> (\<forall>i < k. \<forall>n a j. orig ! i = Some n \<and> Some a \<in> set (n_inputs n)
     \<and> build_producer_index orig a = Some j \<longrightarrow> synced nodes i j)"

lemma sched_inv_start:
  assumes inv: "sched_inv orig maxs k b st" and k: "k < length orig" "int k + 1 < 2 ^ 31"
    and n0: "orig ! k = Some n0" "fresh_node n0" and a: "0 \<le> a" "a < maxs" "0 \<le> nxt" "nxt \<le> maxs"
  shows "sched_inv orig maxs (Suc k) b
     \<lparr>ss_nodes = (ss_nodes st)[k := Some (n0\<lparr>n_id := int k + 1, n_stream := a\<rparr>)],
      ss_last = l, ss_next_stream = nxt, ss_next_event = ss_next_event st\<rparr>"
proof -
  let ?n = "n0\<lparr>n_id := int k + 1, n_stream := a\<rparr>"
  let ?xs = "(ss_nodes st)[k := Some ?n]"
  have len: "length (ss_nodes st) = length orig" using inv by (simp add: sched_inv_def)
  have nth: "?xs ! i = (if i = k then Some ?n else ss_nodes st ! i)" for i
    using k len by (simp add: nth_list_update)
  have nk: "n_sync ?n = []" using n0 by (simp add: fresh_node_def)
  have un: "ss_nodes st ! k = Some n0" using inv k n0 by (simp add: sched_inv_def)
  have sy: "\<exists>n'. ss_nodes st ! i = Some n' \<and> e \<in> set (n_sync n')"
    if "?xs ! i = Some n" "e \<in> set (n_sync n)" for i n e
    using that nk by (cases "i = k") (auto simp: nth)
  show ?thesis
    unfolding sched_inv_def sched_state.simps nth
  proof (intro conjI allI impI)
    show "length ?xs = length orig" using len by simp
    show "1 \<le> ss_next_event st" "ss_next_event st \<le> b" using inv by (simp_all add: sched_inv_def)
    fix i n e assume i: "i < length orig"
      and "(if i = k then Some ?n else ss_nodes st ! i) = Some n \<and> e \<in> set (n_sync n)"
    with sy [of i n e] inv show "1 \<le> se_event e" "se_event e < ss_next_event st"
      unfolding nth sched_inv_def by blast+
  next
    fix i j n m e f
    assume i: "i < length orig" "j < length orig" and h: "(if i = k then Some ?n else ss_nodes st ! i) = Some n
      \<and> (if j = k then Some ?n else ss_nodes st ! j) = Some m \<and> e \<in> set (n_sync n) \<and> f \<in> set (n_sync m)
      \<and> \<not> se_wait e \<and> \<not> se_wait f \<and> se_event e = se_event f"
    obtain n' m' where "ss_nodes st ! i = Some n'" "e \<in> set (n_sync n')" "ss_nodes st ! j = Some m'"
      "f \<in> set (n_sync m')" using sy [of i n e] sy [of j m f] h unfolding nth by blast
    with inv i h show "i = j" unfolding sched_inv_def by blast
  qed (use inv a un n0 in \<open>auto simp: sched_inv_def split: if_splits\<close>)
qed

lemma schedule_node_step:
  assumes inv: "sched_inv orig maxs k b st" and k: "k < length orig" and len: "int (length orig) < 2 ^ 31 - 1"
    and maxs: "1 \<le> maxs" "maxs < 2 ^ 31" and fresh: "\<forall>n \<in> set orig. \<forall>x. n = Some x \<longrightarrow> fresh_node x"
    and first: "producers_first orig" and deps: "deps_synced orig k (ss_nodes st)"
    and perm: "\<And>xs. mset (order xs) = mset xs"
    and b: "b + (case orig ! k of None \<Rightarrow> 0 | Some x \<Rightarrow> int (length (n_inputs x))) < 2 ^ 31"
  shows "\<exists>st'. schedule_node order maxs (build_producer_index orig) k st = Ok st'
     \<and> sched_inv orig maxs (Suc k) (b + (case orig ! k of None \<Rightarrow> 0 | Some x \<Rightarrow> int (length (n_inputs x)))) st'
     \<and> deps_synced orig (Suc k) (ss_nodes st')"
proof (cases "orig ! k")
  case None
  then have un: "ss_nodes st ! k = None" using inv k by (simp add: sched_inv_def)
  have "sched_inv orig maxs (Suc k) b st"
    using inv un unfolding sched_inv_def by (auto simp: less_Suc_eq)
  moreover have "deps_synced orig (Suc k) (ss_nodes st)"
    using deps None by (auto simp: deps_synced_def less_Suc_eq)
  ultimately show ?thesis using None un by (simp add: schedule_node_def)
next
  case (Some n0)
  let ?p = "build_producer_index orig"
  have fr: "fresh_node n0" using fresh k Some by (metis nth_mem)
  have lenst: "length (ss_nodes st) = length orig" using inv by (simp add: sched_inv_def)
  have un: "ss_nodes st ! k = Some n0" using inv k Some by (simp add: sched_inv_def)
  define n where "n = n0\<lparr>n_id := int k + 1\<rparr>"
  define nodes where "nodes = (ss_nodes st)[k := Some n]"
  define preds where "preds = collect_predecessor_streams n nodes ?p"
  obtain a nxt where pk: "pick_stream preds (ss_last st) (ss_next_stream st) maxs = (a, nxt)"
    by (cases "pick_stream preds (ss_last st) (ss_next_stream st) maxs")
  define st1 where "st1 = \<lparr>ss_nodes = nodes[k := Some (n\<lparr>n_stream := a\<rparr>)],
    ss_last = (ss_last st)(a \<mapsto> n_id n), ss_next_stream = nxt, ss_next_event = ss_next_event st\<rparr>"
  have w: "wrap32 (int k + 1) = int k + 1" using k len by (simp add: wrap_simps)
  have nin: "n_inputs n = n_inputs n0" by (simp add: n_def)
  have prod: "j < k \<and> (\<exists>m. ss_nodes st ! j = Some m \<and> nodes ! j = Some m)"
    if "Some x \<in> set (n_inputs n0)" "?p x = Some j" for x j
  proof -
    from first k Some that have j: "j < k" "orig ! j \<noteq> None" unfolding producers_first_def by blast+
    moreover from inv j k have "ss_nodes st ! j \<noteq> None"
      unfolding sched_inv_def by (metis (no_types, lifting) less_trans option.rel_distinct(1) not_Some_eq)
    ultimately show ?thesis using k lenst by (auto simp: nodes_def)
  qed
  have cs: "distinct (map fst preds)"
    "\<And>j m. j \<in> producers (n_inputs n) nodes ?p \<Longrightarrow> nodes ! j = Some m \<Longrightarrow>
        \<exists>i. map_of preds (n_stream m) = Some i \<and> n_id m \<le> i"
    "\<And>s i. map_of preds s = Some i \<Longrightarrow> \<exists>j \<in> producers (n_inputs n) nodes ?p. \<exists>m. nodes ! j = Some m
        \<and> n_stream m = s \<and> n_id m = i"
    using collect_streams_spec [of "[]" "n_inputs n" nodes ?p]
    by (auto simp: preds_def collect_predecessor_streams_def)
  have mem: "\<exists>j m. j < k \<and> ss_nodes st ! j = Some m \<and> n_stream m = s \<and> n_id m = i \<and> 0 \<le> s \<and> s < maxs"
    if "(s, i) \<in> set preds" for s i
  proof -
    from that cs(1) have "map_of preds s = Some i" by simp
    from cs(3) [OF this] obtain j m where j: "j \<in> producers (n_inputs n) nodes ?p" "nodes ! j = Some m"
      "n_stream m = s" "n_id m = i" by blast
    from j(1) nin obtain x where "Some x \<in> set (n_inputs n0)" "?p x = Some j" by (auto simp: producers_def)
    from prod [OF this] obtain m2 where m2: "j < k" "ss_nodes st ! j = Some m2" "nodes ! j = Some m2" by blast
    with sched_inv_node [OF inv _ m2(1,2)] k have "0 \<le> n_stream m2" "n_stream m2 < maxs" by auto
    with m2 j show ?thesis by auto
  qed
  have "\<forall>(s, i) \<in> set preds. 0 \<le> s \<and> s < maxs" using mem by blast
  from pick_stream_range [OF this _ _ maxs pk] inv
  have a: "0 \<le> a" "a < maxs" "0 \<le> nxt" "nxt \<le> maxs" by (auto simp: sched_inv_def)
  have st1: "sched_inv orig maxs (Suc k) b st1"
    using sched_inv_start [OF inv k _ Some fr a] k len by (simp add: st1_def nodes_def n_def)
  have st1k: "ss_nodes st1 ! k = Some (n\<lparr>n_stream := a\<rparr>)"
    using k lenst by (simp add: st1_def nodes_def)
  have st1j: "ss_nodes st1 ! j = ss_nodes st ! j" if "j < k" for j
    using that by (simp add: st1_def nodes_def)
  have "\<forall>(s, i) \<in> set (order preds). \<exists>j m. j < k \<and> ss_nodes st1 ! j = Some m \<and> n_stream m = s \<and> n_id m = i"
  proof (intro ballI, clarify)
    fix s i assume "(s, i) \<in> set (order preds)"
    then have "(s, i) \<in> set preds" using mset_eq_setD [OF perm [of preds]] by blast
    from mem [OF this] obtain j m where "j < k" "ss_nodes st ! j = Some m" "n_stream m = s" "n_id m = i" by blast
    with st1j show "\<exists>j m. j < k \<and> ss_nodes st1 ! j = Some m \<and> n_stream m = s \<and> n_id m = i" by metis
  qed
  moreover have lp: "length (order preds) \<le> length (n_inputs n0)"
    using collect_streams_length [of "n_inputs n" nodes ?p "[]"] mset_eq_length [OF perm [of preds]] nin
    by (simp add: preds_def collect_predecessor_streams_def)
  moreover have "b + int (length (order preds)) < 2 ^ 31" using b Some lp by simp
  ultimately obtain st' where st': "fold_res (emit_barriers k a) (order preds) st1 = Ok st'"
      "sched_inv orig maxs (Suc k) (b + int (length (order preds))) st'"
    and gr: "grown (Suc k) (ss_nodes st1) (ss_nodes st')"
    and pr: "\<forall>(s, i) \<in> set (order preds). s \<noteq> a \<longrightarrow> paired (ss_nodes st') k s i"
    using emit_all [OF st1 k st1k, of a "order preds"] by auto
  have "schedule_node order maxs ?p k st = Ok st'"
    using st'(1) fr un a pk w
    by (simp add: schedule_node_def Let_def fresh_node_def n_def [symmetric] nodes_def [symmetric]
        preds_def [symmetric] st1_def)
  moreover have "sched_inv orig maxs (Suc k) (b + int (length (n_inputs n0))) st'"
    using st'(2) by (rule sched_inv_mono) (use lp in simp)
  moreover have "deps_synced orig (Suc k) (ss_nodes st')"
    unfolding deps_synced_def
  proof (intro allI impI)
    fix i ni x j
    assume i: "i < Suc k" and h: "orig ! i = Some ni \<and> Some x \<in> set (n_inputs ni) \<and> ?p x = Some j"
    have grk: "grown k (ss_nodes st) (ss_nodes st')"
      using grown_le [OF gr, of k] st1j by (simp add: grown_def)
    show "synced (ss_nodes st') i j"
    proof (cases "i = k")
      case False
      then have ik: "i < k" using i by simp
      have "j < i" using first h ik k unfolding producers_first_def by (meson less_trans)
      with deps h ik have "synced (ss_nodes st) i j" unfolding deps_synced_def by blast
      then show ?thesis by (rule synced_grown [OF _ grk]) (use ik \<open>j < i\<close> in auto)
    next
      case True
      with h Some have x: "Some x \<in> set (n_inputs n0)" "?p x = Some j" by auto
      from prod [OF x] obtain m where m: "j < k" "ss_nodes st ! j = Some m" "nodes ! j = Some m" by blast
      have "j \<in> producers (n_inputs n) nodes ?p" using x m nin by (auto simp: producers_def)
      from cs(2) [OF this m(3)] obtain i' where i': "map_of preds (n_stream m) = Some i'" "n_id m \<le> i'" by blast
      from grownD [OF gr _ st1k] obtain nk where nk: "ss_nodes st' ! k = Some nk" "n_stream nk = a" by auto
      from grownD [OF grk m(1,2)] obtain mj where mj: "ss_nodes st' ! j = Some mj" "n_stream mj = n_stream m" by auto
      show ?thesis
      proof (cases "n_stream m = a")
        case True
        with nk mj \<open>i = k\<close> show ?thesis by (simp add: synced_def)
      next
        case ne: False
        have "(n_stream m, i') \<in> set (order preds)"
          using i'(1) mset_eq_setD [OF perm [of preds]] by (auto dest: map_of_SomeD)
        with pr ne have "paired (ss_nodes st') k (n_stream m) i'" by auto
        moreover have "n_id m = int j + 1" using sched_inv_node [OF inv _ m(1,2)] m k by auto
        ultimately show ?thesis
          using i'(2) mj \<open>i = k\<close> unfolding paired_def synced_def by fastforce
      qed
    qed
  qed
  ultimately show ?thesis using Some by auto
qed

lemma schedule_loop:
  assumes len: "int (length orig) < 2 ^ 31 - 1" and maxs: "1 \<le> maxs" "maxs < 2 ^ 31"
    and fresh: "\<forall>n \<in> set orig. \<forall>x. n = Some x \<longrightarrow> fresh_node x" and first: "producers_first orig"
    and perm: "\<And>xs. mset (order xs) = mset xs" and ev: "input_count orig (length orig) < 2 ^ 31 - 1"
  shows "k \<le> length orig \<Longrightarrow> \<exists>st. fold_res (schedule_node order maxs (build_producer_index orig)) [0..<k]
      \<lparr>ss_nodes = orig, ss_last = Map.empty, ss_next_stream = 0, ss_next_event = 1\<rparr> = Ok st
    \<and> sched_inv orig maxs k (1 + input_count orig k) st \<and> deps_synced orig k (ss_nodes st)"
proof (induction k)
  case 0
  have "e \<notin> set (n_sync n)" if "i < length orig" "orig ! i = Some n" for i n e
    using fresh that by (metis fresh_node_def empty_iff empty_set nth_mem)
  then show ?case using maxs
    by (auto simp: sched_inv_def deps_synced_def input_count_def option.rel_refl)
next
  case (Suc k)
  then obtain st where st: "fold_res (schedule_node order maxs (build_producer_index orig)) [0..<k]
      \<lparr>ss_nodes = orig, ss_last = Map.empty, ss_next_stream = 0, ss_next_event = 1\<rparr> = Ok st"
    and inv: "sched_inv orig maxs k (1 + input_count orig k) st" and dp: "deps_synced orig k (ss_nodes st)"
    by auto
  have k: "k < length orig" using Suc.prems by simp
  note ic = input_count_Suc [OF k]
  have "1 + input_count orig k + (case orig ! k of None \<Rightarrow> 0 | Some x \<Rightarrow> int (length (n_inputs x))) < 2 ^ 31"
    using ic input_count_mono [of "Suc k" "length orig" orig] Suc.prems ev by simp
  from schedule_node_step [OF inv k len maxs fresh first dp perm this] ic st
  show ?case by (auto simp: add.assoc)
qed

section \<open>Properties\<close>

lemma schedule_streams_spec:
  assumes ne: "t_nodes t \<noteq> []" and len: "int (length (t_nodes t)) < 2 ^ 31 - 1" and mx: "max0 < 2 ^ 31"
    and fresh: "\<forall>n \<in> set (t_nodes t). \<forall>x. n = Some x \<longrightarrow> fresh_node x" and first: "producers_first (t_nodes t)"
    and perm: "\<And>xs. mset (order xs) = mset xs"
    and ev: "input_count (t_nodes t) (length (t_nodes t)) < 2 ^ 31 - 1"
  shows "\<exists>t'. schedule_streams order (Some t) max0 = Ok t' \<and> length (t_nodes t') = length (t_nodes t)
     \<and> (\<forall>k < length (t_nodes t). \<forall>n. t_nodes t' ! k = Some n \<longrightarrow> 0 \<le> n_stream n
          \<and> n_stream n < (if max0 < 1 then int (length (t_nodes t)) else max0))
     \<and> (\<forall>k < length (t_nodes t). \<forall>n a j. t_nodes t ! k = Some n \<and> Some a \<in> set (n_inputs n)
          \<and> build_producer_index (t_nodes t) a = Some j \<longrightarrow> synced (t_nodes t') k j)
     \<and> (\<forall>i < length (t_nodes t). \<forall>j < length (t_nodes t). \<forall>n m e f.
          t_nodes t' ! i = Some n \<and> t_nodes t' ! j = Some m \<and> e \<in> set (n_sync n) \<and> f \<in> set (n_sync m)
          \<and> \<not> se_wait e \<and> \<not> se_wait f \<and> se_event e = se_event f \<longrightarrow> i = j)"
proof -
  define maxs where "maxs = (if max0 < 1 then wrap32 (int (length (t_nodes t))) else max0)"
  have w: "wrap32 (int (length (t_nodes t))) = int (length (t_nodes t))" using len by (simp add: wrap_simps)
  have m: "1 \<le> maxs" "maxs < 2 ^ 31" using ne len mx w by (auto simp: maxs_def Suc_le_eq)
  from schedule_loop [OF len m fresh first perm ev order_refl] obtain st
    where st: "fold_res (schedule_node order maxs (build_producer_index (t_nodes t))) [0..<length (t_nodes t)]
      \<lparr>ss_nodes = t_nodes t, ss_last = Map.empty, ss_next_stream = 0, ss_next_event = 1\<rparr> = Ok st"
    and inv: "sched_inv (t_nodes t) maxs (length (t_nodes t))
      (1 + input_count (t_nodes t) (length (t_nodes t))) st"
    and dp: "deps_synced (t_nodes t) (length (t_nodes t)) (ss_nodes st)" by blast
  have "schedule_streams order (Some t) max0 = Ok (t\<lparr>t_nodes := ss_nodes st\<rparr>)"
    using st ne by (simp add: schedule_streams_def Let_def maxs_def)
  moreover have "length (ss_nodes st) = length (t_nodes t)" using inv by (simp add: sched_inv_def)
  moreover have "0 \<le> n_stream n \<and> n_stream n < (if max0 < 1 then int (length (t_nodes t)) else max0)"
    if "k < length (t_nodes t)" "ss_nodes st ! k = Some n" for k n
    using inv that w by (auto simp: sched_inv_def maxs_def split: if_splits)
  ultimately show ?thesis
    using inv dp
    by (intro exI [of _ "t\<lparr>t_nodes := ss_nodes st\<rparr>"]) (auto simp: sched_inv_def deps_synced_def)
qed

text \<open>Scheduling leaves the wiring of the nodes alone.\<close>

definition same_wiring :: "ir_node \<Rightarrow> ir_node \<Rightarrow> bool" where
  "same_wiring n m \<longleftrightarrow> n_inputs n = n_inputs m \<and> n_outputs n = n_outputs m \<and> n_name n = n_name m \<and> n_op n = n_op m"

lemma schedule_streams_wiring:
  assumes ne: "t_nodes t \<noteq> []" and len: "int (length (t_nodes t)) < 2 ^ 31 - 1" and mx: "max0 < 2 ^ 31"
    and fresh: "\<forall>n \<in> set (t_nodes t). \<forall>x. n = Some x \<longrightarrow> fresh_node x" and first: "producers_first (t_nodes t)"
    and perm: "\<And>xs. mset (order xs) = mset xs"
    and ev: "input_count (t_nodes t) (length (t_nodes t)) < 2 ^ 31 - 1"
    and ok: "schedule_streams order (Some t) max0 = Ok t'"
  shows "(\<forall>i < length (t_nodes t). rel_option same_wiring (t_nodes t' ! i) (t_nodes t ! i))
    \<and> t_input_ports t' = t_input_ports t \<and> t_output_ports t' = t_output_ports t \<and> t_workspace t' = t_workspace t"
proof -
  define maxs where "maxs = (if max0 < 1 then wrap32 (int (length (t_nodes t))) else max0)"
  have w: "wrap32 (int (length (t_nodes t))) = int (length (t_nodes t))" using len by (simp add: wrap_simps)
  have m: "1 \<le> maxs" "maxs < 2 ^ 31" using ne len mx w by (auto simp: maxs_def Suc_le_eq)
  from schedule_loop [OF len m fresh first perm ev order_refl] obtain st
    where st: "fold_res (schedule_node order maxs (build_producer_index (t_nodes t))) [0..<length (t_nodes t)]
      \<lparr>ss_nodes = t_nodes t, ss_last = Map.empty, ss_next_stream = 0, ss_next_event = 1\<rparr> = Ok st"
    and inv: "sched_inv (t_nodes t) maxs (length (t_nodes t))
      (1 + input_count (t_nodes t) (length (t_nodes t))) st" by blast
  from st ne ok have t': "t' = t\<lparr>t_nodes := ss_nodes st\<rparr>" by (simp add: schedule_streams_def Let_def maxs_def)
  have "same_wiring = (\<lambda>n m. n_inputs n = n_inputs m \<and> n_outputs n = n_outputs m \<and> n_name n = n_name m \<and> n_op n = n_op m)"
    by (intro ext) (simp add: same_wiring_def)
  with inv t' show ?thesis by (simp add: sched_inv_def)
qed

text \<open>
  C4. Stream scheduling is safe. On fresh nodes in topological order, with fewer than 2^31 - 1
  nodes and inputs and whatever order the predecessor map is walked in, \<open>ScheduleStreams\<close>
  succeeds. Every node gets a stream in \<open>[0, MaxStreams)\<close> (or below the number of nodes when
  no cap is given), and for every input with a producer the consumer is on the producer's
  stream, or waits on an event that is signalled on the producer's stream by the producer or
  by a later node of that stream that precedes the consumer. No two nodes signal the same event.
\<close>

theorem schedule_streams_safe:
  assumes ne: "t_nodes t \<noteq> []" and len: "int (length (t_nodes t)) < 2 ^ 31 - 1" and mx: "max0 < 2 ^ 31"
    and fresh: "\<forall>n \<in> set (t_nodes t). \<forall>x. n = Some x \<longrightarrow> fresh_node x" and first: "producers_first (t_nodes t)"
    and perm: "\<And>xs. mset (order xs) = mset xs"
    and ev: "input_count (t_nodes t) (length (t_nodes t)) < 2 ^ 31 - 1"
  shows "\<exists>t'. schedule_streams order (Some t) max0 = Ok t' \<and> length (t_nodes t') = length (t_nodes t)
     \<and> (\<forall>k < length (t_nodes t). \<forall>n. t_nodes t' ! k = Some n \<longrightarrow> 0 \<le> n_stream n
          \<and> n_stream n < (if max0 < 1 then int (length (t_nodes t)) else max0))
     \<and> (\<forall>k < length (t_nodes t). \<forall>n a j. t_nodes t ! k = Some n \<and> Some a \<in> set (n_inputs n)
          \<and> build_producer_index (t_nodes t) a = Some j \<longrightarrow> synced (t_nodes t') k j)
     \<and> (\<forall>i < length (t_nodes t). \<forall>j < length (t_nodes t). \<forall>n m e f.
          t_nodes t' ! i = Some n \<and> t_nodes t' ! j = Some m \<and> e \<in> set (n_sync n) \<and> f \<in> set (n_sync m)
          \<and> \<not> se_wait e \<and> \<not> se_wait f \<and> se_event e = se_event f \<longrightarrow> i = j)"
  using ne len mx fresh first perm ev by (rule schedule_streams_spec)

text \<open>A fork of two independent nodes joined by a third.\<close>

definition join_topology :: topology where
  "join_topology = \<lparr>t_nodes = map Some
     [\<lparr>n_name = ''a'', n_id = 0, n_op = ''x'', n_bind = [], n_inputs = [], n_outputs = [Some 1], n_stream = 0, n_sync = []\<rparr>,
      \<lparr>n_name = ''b'', n_id = 0, n_op = ''x'', n_bind = [], n_inputs = [], n_outputs = [Some 2], n_stream = 0, n_sync = []\<rparr>,
      \<lparr>n_name = ''c'', n_id = 0, n_op = ''x'', n_bind = [], n_inputs = [Some 1, Some 2], n_outputs = [Some 3],
       n_stream = 0, n_sync = []\<rparr>],
     t_edges = [], t_workspace = \<lparr>ws_size = 0, ws_align = 0, ws_allocations = [], ws_bindings = Map.empty\<rparr>,
     t_input_ports = Map.empty, t_output_ports = Map.empty\<rparr>"

theorem schedule_streams_safe_witness:
  "\<exists>t'. schedule_streams rev (Some join_topology) 0 = Ok t' \<and> synced (t_nodes t') 2 0 \<and> synced (t_nodes t') 2 1"
proof -
  have p: "build_producer_index (t_nodes join_topology) = [1 \<mapsto> 0, 2 \<mapsto> 1, 3 \<mapsto> 2]"
    by (simp add: build_producer_index_def join_topology_def eval_nat_numeral)
  have first: "producers_first (t_nodes join_topology)"
    unfolding producers_first_def p
    by (auto simp: join_topology_def less_Suc_eq nth_Cons' split: if_splits)
  have "\<exists>t'. schedule_streams rev (Some join_topology) 0 = Ok t'
     \<and> (\<forall>k < length (t_nodes join_topology). \<forall>n a j. t_nodes join_topology ! k = Some n
          \<and> Some a \<in> set (n_inputs n)
          \<and> build_producer_index (t_nodes join_topology) a = Some j \<longrightarrow> synced (t_nodes t') k j)"
    using schedule_streams_safe [of join_topology 0 rev, OF _ _ _ _ first]
    by (fastforce simp: join_topology_def fresh_node_def input_count_def)
  then obtain t' where t': "schedule_streams rev (Some join_topology) 0 = Ok t'"
    and sy: "\<And>k n a j. k < length (t_nodes join_topology) \<Longrightarrow> t_nodes join_topology ! k = Some n
       \<Longrightarrow> Some a \<in> set (n_inputs n) \<Longrightarrow> build_producer_index (t_nodes join_topology) a = Some j
       \<Longrightarrow> synced (t_nodes t') k j" by blast
  have "synced (t_nodes t') 2 0" by (rule sy [of 2 _ 1]) (simp_all add: p, (simp_all add: join_topology_def)?, simp?)
  moreover have "synced (t_nodes t') 2 1" by (rule sy [of 2 _ 2]) (simp_all add: p, (simp_all add: join_topology_def)?, simp?)
  ultimately show ?thesis using t' by blast
qed

end
