(* ===== verification/Ast_Graph.thy ===== *)
theory Ast_Graph
  imports Port_Types
begin

text \<open>
  The manifest-level compute graph of \<open>ast/graph.go\<close> and the fused expression tree of
  \<open>optimizer/fusion_ast.go\<close> that the optimiser stores in a node's attributes. \<open>'v\<close> is the type of
  floating-point scalars. Node lists hold no nil pointers (\<open>NormalizeGraph\<close> rejects them), Go's
  \<open>Outputs\<close> map is an association list with distinct keys. The graph's own \<open>Metadata\<close>, which no
  pass reads, is left out.
\<close>

section \<open>Fused expressions\<close>

datatype node_type =
    NodeInvalid | NodeInput | NodeConstant
  | NodeAdd | NodeSub | NodeMul | NodeDiv | NodeMax | NodeMin
  | NodeNeg | NodeAbs | NodeSqrt | NodeExp | NodeLog
  | NodeReLU | NodeSigmoid | NodeTanh | NodeSilu | NodeGelu | NodeLeakyReLU

definition arity :: "node_type \<Rightarrow> int" where
  "arity t =
     (if t \<in> {NodeInput, NodeConstant} then 0
      else if t \<in> {NodeNeg, NodeAbs, NodeSqrt, NodeExp, NodeLog, NodeReLU, NodeSigmoid, NodeTanh,
                   NodeSilu, NodeGelu, NodeLeakyReLU} then 1
      else if t \<in> {NodeAdd, NodeSub, NodeMul, NodeDiv, NodeMax, NodeMin} then 2
      else - 1)"

definition node_type_string :: "node_type \<Rightarrow> string" where
  "node_type_string t = (case t of
     NodeInput \<Rightarrow> ''Input'' | NodeConstant \<Rightarrow> ''Constant'' | NodeAdd \<Rightarrow> ''Add'' | NodeSub \<Rightarrow> ''Sub''
   | NodeMul \<Rightarrow> ''Mul'' | NodeDiv \<Rightarrow> ''Div'' | NodeMax \<Rightarrow> ''Max'' | NodeMin \<Rightarrow> ''Min'' | NodeNeg \<Rightarrow> ''Neg''
   | NodeAbs \<Rightarrow> ''Abs'' | NodeSqrt \<Rightarrow> ''Sqrt'' | NodeExp \<Rightarrow> ''Exp'' | NodeLog \<Rightarrow> ''Log'' | NodeReLU \<Rightarrow> ''ReLU''
   | NodeSigmoid \<Rightarrow> ''Sigmoid'' | NodeTanh \<Rightarrow> ''Tanh'' | NodeSilu \<Rightarrow> ''Silu'' | NodeGelu \<Rightarrow> ''Gelu''
   | NodeLeakyReLU \<Rightarrow> ''LeakyReLU'' | NodeInvalid \<Rightarrow> ''Invalid'')"

datatype 'v ast_node =
  ASTNode (an_type: node_type) (an_value: 'v) (an_index: nat) (an_children: "'v ast_node list")
          (an_dtype: dtype)

definition new_input_node :: "nat \<Rightarrow> dtype \<Rightarrow> ('v :: zero) ast_node" where
  "new_input_node i d = ASTNode NodeInput 0 i [] d"

definition new_constant_node :: "'v \<Rightarrow> dtype \<Rightarrow> 'v ast_node" where
  "new_constant_node v d = ASTNode NodeConstant v 0 [] d"

definition new_unary_node :: "node_type \<Rightarrow> ('v :: zero) ast_node \<Rightarrow> 'v ast_node" where
  "new_unary_node t c = ASTNode t 0 0 [c] (an_dtype c)"

definition new_binary_node :: "node_type \<Rightarrow> ('v :: zero) ast_node \<Rightarrow> 'v ast_node \<Rightarrow> 'v ast_node" where
  "new_binary_node t l r =
     ASTNode t 0 0 [l, r] (if an_dtype l = DInvalid then an_dtype r else an_dtype l)"

record 'v fusion_ast =
  fa_root :: "'v ast_node"
  fa_inputs :: "string list"
  fa_output :: string
  fa_count :: string
  fa_dtype :: dtype
  fa_contained :: "string list"

section \<open>Nodes and graphs\<close>

record tile_config =
  tile_rows :: int
  tile_inner :: int
  tile_cols :: int
  tile_footprint :: int

text \<open>
  A value of Go's \<open>any\<close>: the dynamic types that the passes distinguish. A \<open>map[string]any\<close> is an
  association list with distinct keys.
\<close>

datatype 'v attr =
    AFloat64 'v | AFloat32 'v | AInt int | AInt64 int | AString string
  | ATile tile_config | AFusion "'v fusion_ast"
  | ANil | ABool bool | AInt32 int | AUint int | AUint32 int | AUint64 int
  | ADType dtype | ALayout layout | AShape shape_schema | ADims "dimension list"
  | AInts "int list" | AInt64s "int list" | AFloats "'v list"
  | AList "'v attr list" | AMap "(string \<times> 'v attr) list"

text \<open>The activation contract of \<open>ast/value_type.go\<close> and the checkpoint tensor bound to a node.\<close>

record value_type =
  vt_shape :: "int list"
  vt_dtype :: dtype
  vt_layout :: string
  vt_memory :: string
  vt_precision :: dtype

definition zero_value_type :: value_type where
  "zero_value_type = \<lparr>vt_shape = [], vt_dtype = DInvalid, vt_layout = [], vt_memory = [], vt_precision = DInvalid\<rparr>"

definition new_value_type :: "dtype \<Rightarrow> value_type" where
  "new_value_type d = \<lparr>vt_shape = [], vt_dtype = d, vt_layout = ''dense'', vt_memory = ''device'', vt_precision = d\<rparr>"

record weight_slice =
  wsl_axis :: string
  wsl_start :: int
  wsl_end :: int

record bound_weight =
  bw_tensor :: string
  bw_bias :: string
  bw_shape :: "int list"
  bw_dtype :: dtype
  bw_slice :: "weight_slice option"

record 'v graph_node =
  gn_id :: string
  gn_op :: string
  gn_inputs :: "string list"
  gn_attrs :: "string \<rightharpoonup> 'v attr"
  gn_meta :: "string \<rightharpoonup> 'v attr"
  gn_input_types :: "port_type list"
  gn_output_type :: port_type
  gn_value :: value_type
  gn_weights :: "bound_weight option"

record 'v ast_graph =
  g_nodes :: "'v graph_node list"
  g_inputs :: "string list"
  g_outputs :: "(string \<times> string) list"
  g_dtype :: dtype
  g_bindings :: symbol_map

definition apply_execution_dtype :: "'v ast_graph \<Rightarrow> dtype \<Rightarrow> 'v ast_graph" where
  "apply_execution_dtype g d =
     g\<lparr>g_dtype := d, g_nodes := map (\<lambda>n. n\<lparr>gn_value := new_value_type d\<rparr>) (g_nodes g)\<rparr>"

definition zero_port_type :: port_type where
  "zero_port_type = \<lparr>pt_dtype = DInvalid, pt_shape = [], pt_layout = LayoutUnspecified,
     pt_kind = SemanticGeneric, pt_constraints = []\<rparr>"

abbreviation node_ids :: "'v graph_node list \<Rightarrow> string list" where
  "node_ids ns \<equiv> map gn_id ns"

end
