(* ===== verification/Elementwise.thy ===== *)
theory Elementwise
  imports Ast_Graph
begin

text \<open>
  Scalar semantics of the elementwise operations: the op table of \<open>optimizer/elementwise.go\<close>,
  the float64 evaluator of \<open>optimizer/constant_fold.go\<close> and the float32 reference evaluator of
  \<open>codegen/reference.go\<close>. Floating-point arithmetic is a parameter: \<open>float_ops\<close> holds the
  operators and \<open>math\<close> functions the code uses on float64 and its literals, \<open>ref_ops\<close> the float32
  operators and the two conversions. Nothing is assumed of them.
\<close>

section \<open>Arithmetic as a parameter\<close>

record 'd float_ops =
  f_add :: "'d \<Rightarrow> 'd \<Rightarrow> 'd"
  f_sub :: "'d \<Rightarrow> 'd \<Rightarrow> 'd"
  f_mul :: "'d \<Rightarrow> 'd \<Rightarrow> 'd"
  f_div :: "'d \<Rightarrow> 'd \<Rightarrow> 'd"
  f_max :: "'d \<Rightarrow> 'd \<Rightarrow> 'd"
  f_min :: "'d \<Rightarrow> 'd \<Rightarrow> 'd"
  f_neg :: "'d \<Rightarrow> 'd"
  f_abs :: "'d \<Rightarrow> 'd"
  f_sqrt :: "'d \<Rightarrow> 'd"
  f_exp :: "'d \<Rightarrow> 'd"
  f_log :: "'d \<Rightarrow> 'd"
  f_tanh :: "'d \<Rightarrow> 'd"
  f_less :: "'d \<Rightarrow> 'd \<Rightarrow> bool"
  f_geq :: "'d \<Rightarrow> 'd \<Rightarrow> bool"
  f_eq :: "'d \<Rightarrow> 'd \<Rightarrow> bool"
  f_zero :: 'd
  f_one :: 'd
  f_half :: 'd
  f_gelu_scale :: 'd
  f_gelu_cubic :: 'd
  f_leak :: 'd
  f_of_int :: "int \<Rightarrow> 'd"

record ('f, 'd) ref_ops =
  r_add :: "'f \<Rightarrow> 'f \<Rightarrow> 'f"
  r_sub :: "'f \<Rightarrow> 'f \<Rightarrow> 'f"
  r_mul :: "'f \<Rightarrow> 'f \<Rightarrow> 'f"
  r_div :: "'f \<Rightarrow> 'f \<Rightarrow> 'f"
  r_neg :: "'f \<Rightarrow> 'f"
  r_less :: "'f \<Rightarrow> 'f \<Rightarrow> bool"
  r_geq :: "'f \<Rightarrow> 'f \<Rightarrow> bool"
  r_zero :: 'f
  r_leak :: 'f
  r_wide :: "'f \<Rightarrow> 'd"
  r_narrow :: "'d \<Rightarrow> 'f"
  r_f64 :: "'d float_ops"

section \<open>The table\<close>

definition elementwise_table :: "(string \<times> node_type) list" where
  "elementwise_table =
     [(''math.add'', NodeAdd), (''math.sub'', NodeSub), (''math.mul'', NodeMul), (''math.div'', NodeDiv),
      (''math.max'', NodeMax), (''math.min'', NodeMin), (''math.neg'', NodeNeg), (''math.abs'', NodeAbs),
      (''math.sqrt'', NodeSqrt), (''math.exp'', NodeExp), (''math.log'', NodeLog),
      (''math.sign'', NodeNeg), (''math.sin'', NodeInvalid), (''math.cos'', NodeInvalid),
      (''activation.relu'', NodeReLU), (''activation.sigmoid'', NodeSigmoid),
      (''activation.tanh'', NodeTanh), (''activation.swish'', NodeSilu),
      (''activation.gelu'', NodeGelu), (''activation.leaky_relu'', NodeLeakyReLU)]"

definition is_elementwise_op :: "string \<Rightarrow> node_type option" where
  "is_elementwise_op op =
     (case map_of elementwise_table (to_lower (trim_space op)) of
        None \<Rightarrow> None
      | Some t \<Rightarrow> if t = NodeInvalid then None else Some t)"

definition elementwise_ops :: "string list" where
  "elementwise_ops = map fst (filter (\<lambda>(op, t). t \<noteq> NodeInvalid) elementwise_table)"

section \<open>Constant evaluation\<close>

definition evaluate_unary :: "'d float_ops \<Rightarrow> node_type \<Rightarrow> 'd \<Rightarrow> 'd option" where
  "evaluate_unary o64 t x = (case t of
     NodeNeg \<Rightarrow> Some (f_neg o64 x)
   | NodeAbs \<Rightarrow> Some (f_abs o64 x)
   | NodeSqrt \<Rightarrow> Some (f_sqrt o64 x)
   | NodeExp \<Rightarrow> Some (f_exp o64 x)
   | NodeLog \<Rightarrow> Some (f_log o64 x)
   | NodeReLU \<Rightarrow> Some (if f_less o64 (f_zero o64) x then x else f_zero o64)
   | NodeSigmoid \<Rightarrow> Some (f_div o64 (f_one o64) (f_add o64 (f_one o64) (f_exp o64 (f_neg o64 x))))
   | NodeTanh \<Rightarrow> Some (f_tanh o64 x)
   | NodeSilu \<Rightarrow> Some (f_div o64 x (f_add o64 (f_one o64) (f_exp o64 (f_neg o64 x))))
   | NodeGelu \<Rightarrow>
       (let inner = f_mul o64 (f_gelu_scale o64)
              (f_add o64 x (f_mul o64 (f_mul o64 (f_mul o64 (f_gelu_cubic o64) x) x) x))
        in Some (f_mul o64 (f_mul o64 (f_half o64) x) (f_add o64 (f_one o64) (f_tanh o64 inner))))
   | NodeLeakyReLU \<Rightarrow> Some (if f_geq o64 x (f_zero o64) then x else f_mul o64 (f_leak o64) x)
   | _ \<Rightarrow> None)"

definition evaluate_binary :: "'d float_ops \<Rightarrow> node_type \<Rightarrow> 'd \<Rightarrow> 'd \<Rightarrow> 'd option" where
  "evaluate_binary o64 t l r = (case t of
     NodeAdd \<Rightarrow> Some (f_add o64 l r)
   | NodeSub \<Rightarrow> Some (f_sub o64 l r)
   | NodeMul \<Rightarrow> Some (f_mul o64 l r)
   | NodeDiv \<Rightarrow> if f_eq o64 r (f_zero o64) then None else Some (f_div o64 l r)
   | NodeMax \<Rightarrow> Some (f_max o64 l r)
   | NodeMin \<Rightarrow> Some (f_min o64 l r)
   | _ \<Rightarrow> None)"

definition evaluate_node_type :: "'d float_ops \<Rightarrow> node_type \<Rightarrow> 'd list \<Rightarrow> 'd option" where
  "evaluate_node_type o64 t xs =
     (if arity t = 1 then (case xs of [x] \<Rightarrow> evaluate_unary o64 t x | _ \<Rightarrow> None)
      else if arity t = 2 then (case xs of [x, y] \<Rightarrow> evaluate_binary o64 t x y | _ \<Rightarrow> None)
      else None)"

section \<open>Expressions over any scalar domain\<close>

text \<open>
  \<open>app\<close> interprets an operation on the values of its operands, \<open>lit\<close> a literal, \<open>inp\<close> an
  input port.
\<close>

fun ast_eval ::
  "(node_type \<Rightarrow> 'a list \<Rightarrow> 'a) \<Rightarrow> ('v \<Rightarrow> 'a) \<Rightarrow> (nat \<Rightarrow> 'a) \<Rightarrow> 'v ast_node \<Rightarrow> 'a" where
  "ast_eval app lit inp (ASTNode t v i cs d) =
     (if t = NodeInput then inp i
      else if t = NodeConstant then lit v
      else app t (map (ast_eval app lit inp) cs))"

section \<open>The float32 reference evaluator\<close>

text \<open>\<open>None\<close> is the index panic on a missing child, input tensor or element.\<close>

definition nth_opt :: "'a list \<Rightarrow> nat \<Rightarrow> 'a option" where
  "nth_opt xs i = (if i < length xs then Some (xs ! i) else None)"

definition child :: "nat \<Rightarrow> 'a option list \<Rightarrow> 'a option" where
  "child i vs = Option.bind (nth_opt vs i) (\<lambda>v. v)"

definition lift1 :: "('a \<Rightarrow> 'a) \<Rightarrow> 'a option list \<Rightarrow> 'a option" where
  "lift1 f vs = map_option f (child 0 vs)"

definition lift2 :: "('a \<Rightarrow> 'a \<Rightarrow> 'a) \<Rightarrow> 'a option list \<Rightarrow> 'a option" where
  "lift2 f vs = Option.bind (child 0 vs) (\<lambda>x. map_option (f x) (child 1 vs))"

definition ref_apply :: "('f, 'd) ref_ops \<Rightarrow> node_type \<Rightarrow> 'f option list \<Rightarrow> 'f option" where
  "ref_apply r t vs = (let o64 = r_f64 r; w = r_wide r; nrw = r_narrow r in case t of
     NodeAdd \<Rightarrow> lift2 (r_add r) vs
   | NodeSub \<Rightarrow> lift2 (r_sub r) vs
   | NodeMul \<Rightarrow> lift2 (r_mul r) vs
   | NodeDiv \<Rightarrow> lift2 (r_div r) vs
   | NodeMax \<Rightarrow> lift2 (\<lambda>x y. if r_less r y x then x else y) vs
   | NodeMin \<Rightarrow> lift2 (\<lambda>x y. if r_less r x y then x else y) vs
   | NodeNeg \<Rightarrow> lift1 (r_neg r) vs
   | NodeAbs \<Rightarrow> lift1 (\<lambda>x. if r_less r x (r_zero r) then r_neg r x else x) vs
   | NodeSqrt \<Rightarrow> lift1 (\<lambda>x. nrw (f_sqrt o64 (w x))) vs
   | NodeExp \<Rightarrow> lift1 (\<lambda>x. nrw (f_exp o64 (w x))) vs
   | NodeLog \<Rightarrow> lift1 (\<lambda>x. nrw (f_log o64 (w x))) vs
   | NodeReLU \<Rightarrow> lift1 (\<lambda>x. if r_less r x (r_zero r) then r_zero r else x) vs
   | NodeSigmoid \<Rightarrow>
       lift1 (\<lambda>x. nrw (f_div o64 (f_one o64) (f_add o64 (f_one o64) (f_exp o64 (f_neg o64 (w x)))))) vs
   | NodeTanh \<Rightarrow> lift1 (\<lambda>x. nrw (f_tanh o64 (w x))) vs
   | NodeSilu \<Rightarrow>
       lift1 (\<lambda>x. nrw (f_div o64 (w x) (f_add o64 (f_one o64) (f_exp o64 (f_neg o64 (w x)))))) vs
   | NodeGelu \<Rightarrow>
       lift1 (\<lambda>x. let v = w x;
           inner = f_mul o64 (f_gelu_scale o64)
             (f_add o64 v (f_mul o64 (f_mul o64 (f_mul o64 (f_gelu_cubic o64) v) v) v))
         in nrw (f_mul o64 (f_mul o64 (f_half o64) v) (f_add o64 (f_one o64) (f_tanh o64 inner)))) vs
   | NodeLeakyReLU \<Rightarrow> lift1 (\<lambda>x. if r_geq r x (r_zero r) then x else r_mul r (r_leak r) x) vs
   | _ \<Rightarrow> Some (r_zero r))"

definition eval_scalar_reference ::
  "('f, 'd) ref_ops \<Rightarrow> 'd ast_node \<Rightarrow> 'f list list \<Rightarrow> nat \<Rightarrow> 'f option" where
  "eval_scalar_reference r root inputs e =
     ast_eval (ref_apply r) (\<lambda>v. Some (r_narrow r v))
       (\<lambda>i. Option.bind (nth_opt inputs i) (\<lambda>t. nth_opt t e)) root"

section \<open>Properties\<close>

lemma arity_operands:
  "evaluate_node_type o64 t xs = Some v \<Longrightarrow> int (length xs) = arity t"
  by (auto simp: evaluate_node_type_def arity_def split: list.splits if_splits)

text \<open>
  The table entry for \<open>math.sign\<close> is negation: \<open>isElementwiseOp\<close> gives \<open>math.sign\<close> and
  \<open>math.neg\<close> the same node type, so folding \<open>math.sign\<close> of a constant yields minus that
  constant.
\<close>

theorem sign_folds_to_negation:
  "is_elementwise_op ''math.sign'' = is_elementwise_op ''math.neg''
   \<and> map_option (\<lambda>t. evaluate_node_type o64 t [x]) (is_elementwise_op ''math.sign'')
       = Some (Some (f_neg o64 x))"
proof -
  have "is_elementwise_op ''math.sign'' = Some NodeNeg" by code_simp
  moreover have "is_elementwise_op ''math.neg'' = Some NodeNeg" by code_simp
  ultimately show ?thesis by (simp add: evaluate_node_type_def arity_def evaluate_unary_def)
qed

end
