(* ===== verification/Evaluation_Order.thy ===== *)
theory Evaluation_Order
  imports Go_Prelude
begin

text \<open>
  The contract between the passes that put a graph into execution order and the code that
  runs it in that order. A provider lists every node once, dependencies first; a client may
  then rely on the graph being acyclic and on the nodes' equations having one solution.
\<close>

definition cyclic_set :: "(string \<Rightarrow> string set) \<Rightarrow> string set \<Rightarrow> bool" where
  "cyclic_set deps S \<longleftrightarrow> S \<noteq> {} \<and> (\<forall>s \<in> S. \<exists>d \<in> S. d \<in> deps s)"

locale execution_order =
  fixes nodes :: "'g \<Rightarrow> string set"
    and deps :: "'g \<Rightarrow> string \<Rightarrow> string set"
    and order :: "'g \<Rightarrow> string list option"
  assumes complete: "order g = Some xs \<Longrightarrow> distinct xs \<and> set xs = nodes g"
    and forward: "order g = Some (xs @ s # ys) \<Longrightarrow> deps g s \<inter> nodes g \<subseteq> set xs"
begin

lemma acyclic:
  assumes "order g = Some xs"
  shows "\<not> (\<exists>S. S \<subseteq> nodes g \<and> cyclic_set (deps g) S)"
proof
  assume "\<exists>S. S \<subseteq> nodes g \<and> cyclic_set (deps g) S"
  then obtain S where S: "S \<subseteq> nodes g" "cyclic_set (deps g) S" by (elim exE conjE)
  then obtain s0 where "s0 \<in> S" unfolding cyclic_set_def by (elim conjE) (meson ex_in_conv)
  then have "\<exists>x \<in> set xs. x \<in> S" using subsetD [OF S(1)] complete [OF assms] by (intro bexI [of _ s0]) simp_all
  from split_list_first_prop [OF this] obtain us s vs
    where split: "xs = us @ s # vs" "s \<in> S" "\<forall>u \<in> set us. u \<notin> S" by (elim exE conjE bexE)
  from S(2) split(2) obtain d where d: "d \<in> S" "d \<in> deps g s" unfolding cyclic_set_def by blast
  have "deps g s \<inter> nodes g \<subseteq> set us" using forward [of g us s vs] assms split(1) by simp
  with d S(1) split(3) show False by blast
qed

text \<open>
  Two environments that satisfy the equations of the nodes and agree outside them are equal
  on the nodes, when a node's equation reads nothing but its dependencies.
\<close>

lemma unique_solution:
  assumes ord: "order g = Some xs"
    and reads: "\<And>s env env'. s \<in> nodes g \<Longrightarrow> (\<forall>d \<in> deps g s. env d = env' d) \<Longrightarrow> f s env = f s env'"
    and sol: "\<forall>s \<in> nodes g. env s = f s env" "\<forall>s \<in> nodes g. env' s = f s env'"
    and outside: "\<forall>d. d \<notin> nodes g \<longrightarrow> env d = env' d"
  shows "s \<in> nodes g \<Longrightarrow> env s = env' s"
proof -
  have "\<forall>s \<in> set us. env s = env' s" if "xs = us @ vs" for us vs
    using that
  proof (induction us arbitrary: vs rule: rev_induct)
    case Nil
    then show ?case by simp
  next
    case (snoc s us)
    then have ih: "\<forall>s \<in> set us. env s = env' s" by simp
    have s: "s \<in> nodes g" using complete [OF ord] snoc.prems by auto
    have "deps g s \<inter> nodes g \<subseteq> set us" using forward [of g us s vs] ord snoc.prems by simp
    with ih outside have "\<forall>d \<in> deps g s. env d = env' d" by blast
    with reads [OF s] sol s ih show ?case by simp
  qed
  from this [of xs "[]"] complete [OF ord] show "s \<in> nodes g \<Longrightarrow> env s = env' s" by simp
qed

end

end
