(* ===== verification/Layers.thy ===== *)
theory Layers
  imports Evaluation_Order
begin

text \<open>
  The scheduling DAG of \<open>ir/dag/graph.go\<close> and \<open>ir/dag/node.go\<close>: the index with its
  integrity checks (\<open>index\<close>, \<open>Verify\<close>) and the layering (\<open>TopologyLayers\<close>). A node is its id
  and the ids of its inputs, \<open>None\<close> being a nil input. Go visits the \<open>remaining\<close> map in a
  random order, so a layer is a set to the caller; the model lists it in insertion order.
  Locks, op types and shapes play no part in the layering.
\<close>

record dag_node =
  dn_id :: string
  dn_inputs :: "string option list"

type_synonym dag = "dag_node option list"

datatype dag_error =
    GraphRequired | NodeIDRequired | DuplicateNodeID string | InvalidInput string
  | UnknownInput string string | CycleDetected | NilNode | NilInput

definition add_input :: "dag_node option \<Rightarrow> string option \<Rightarrow> (dag_error, dag_node) res" where
  "add_input node inp = (case node of
     None \<Rightarrow> Err NilNode
   | Some n \<Rightarrow> (case inp of None \<Rightarrow> Err NilInput
       | Some s \<Rightarrow> Ok (n\<lparr>dn_inputs := dn_inputs n @ [Some s]\<rparr>)))"

definition add_node :: "dag_node list \<Rightarrow> dag_node option \<Rightarrow> dag_node list" where
  "add_node g n = (case n of None \<Rightarrow> g | Some x \<Rightarrow> g @ [x])"

section \<open>The index\<close>

fun index_nodes :: "string list \<Rightarrow> dag_node list \<Rightarrow> (dag_error, unit) res" where
  "index_nodes seen [] = Ok ()"
| "index_nodes seen (n # ns) =
     (if dn_id n = [] then Err NodeIDRequired
      else if dn_id n \<in> set seen then Err (DuplicateNodeID (dn_id n))
      else index_nodes (dn_id n # seen) ns)"

fun index_inputs ::
  "string set \<Rightarrow> dag_node \<Rightarrow> string option list \<Rightarrow> (dag_error, (string \<times> string) list) res" where
  "index_inputs known n [] = Ok []"
| "index_inputs known n (i # is) = (case i of
     None \<Rightarrow> Err (InvalidInput (dn_id n))
   | Some s \<Rightarrow>
       if s = [] then Err (InvalidInput (dn_id n))
       else if s \<notin> known then Err (UnknownInput (dn_id n) s)
       else rbind (index_inputs known n is) (\<lambda>us. Ok ((s, dn_id n) # us)))"

fun index_users ::
  "string set \<Rightarrow> dag_node list \<Rightarrow> (dag_error, (string \<times> string) list) res" where
  "index_users known [] = Ok []"
| "index_users known (n # ns) =
     rbind (index_inputs known n (dn_inputs n)) (\<lambda>us.
     rbind (index_users known ns) (\<lambda>vs. Ok (us @ vs)))"

text \<open>The pairs (input, user), in the order in which the user lists are filled.\<close>

definition graph_index :: "dag_node list \<Rightarrow> (dag_error, (string \<times> string) list) res" where
  "graph_index g = rbind (index_nodes [] g) (\<lambda>_. index_users (dn_id ` set g) g)"

definition verify_graph :: "dag_node list option \<Rightarrow> (dag_error, unit) res" where
  "verify_graph g = (case g of None \<Rightarrow> Err GraphRequired
     | Some ns \<Rightarrow> rbind (graph_index ns) (\<lambda>_. Ok ()))"

section \<open>Layers\<close>

definition users_of :: "(string \<times> string) list \<Rightarrow> string \<Rightarrow> string list" where
  "users_of us s = map snd (filter (\<lambda>p. fst p = s) us)"

definition decrement :: "string \<Rightarrow> (string \<rightharpoonup> int) \<Rightarrow> (string \<rightharpoonup> int)" where
  "decrement u rem = rem(u \<mapsto> (case rem u of None \<Rightarrow> 0 | Some k \<Rightarrow> k) - 1)"

definition retire :: "(string \<times> string) list \<Rightarrow> string \<Rightarrow> (string \<rightharpoonup> int) \<Rightarrow> (string \<rightharpoonup> int)" where
  "retire us s rem = fold decrement (users_of us s) (rem(s := None))"

definition ready_layer :: "string list \<Rightarrow> (string \<rightharpoonup> int) \<Rightarrow> string list" where
  "ready_layer ids rem = filter (\<lambda>s. rem s = Some 0) ids"

function layers_loop ::
  "string list \<Rightarrow> (string \<times> string) list \<Rightarrow> nat \<Rightarrow> (string \<rightharpoonup> int)
     \<Rightarrow> (dag_error, string list list) res" where
  "layers_loop ids us scheduled rem =
     (if scheduled < length ids then
        (let layer = ready_layer ids rem in
         if layer = [] then Err CycleDetected
         else rbind (layers_loop ids us (scheduled + length layer) (fold (retire us) layer rem))
                (\<lambda>ls. Ok (layer # ls)))
      else Ok [])"
  by pat_completeness auto
termination
  by (relation "measure (\<lambda>(ids, us, scheduled, rem). length ids - scheduled)")
    (auto simp: Let_def intro!: diff_less_mono2)

declare layers_loop.simps [simp del]

definition topology_layers :: "dag_node list \<Rightarrow> (dag_error, string list list) res" where
  "topology_layers g =
     rbind (graph_index g) (\<lambda>us.
       layers_loop (map dn_id g) us 0 (map_of (map (\<lambda>n. (dn_id n, int (length (dn_inputs n)))) g)))"

section \<open>What a good index says\<close>

definition depends :: "dag_node list \<Rightarrow> string \<Rightarrow> string \<Rightarrow> bool" where
  "depends g s d \<longleftrightarrow> (\<exists>n \<in> set g. dn_id n = s \<and> Some d \<in> set (dn_inputs n))"

lemma index_nodes_ok:
  "index_nodes seen g = Ok () \<Longrightarrow> distinct (map dn_id g) \<and> dn_id ` set g \<inter> set seen = {}"
  by (induction seen g rule: index_nodes.induct) (auto split: if_splits)

lemma index_inputs_ok:
  "index_inputs known n is = Ok us \<Longrightarrow>
     us = map (\<lambda>i. (the i, dn_id n)) is \<and> None \<notin> set is \<and> the ` set is \<subseteq> known"
  by (induction known n "is" arbitrary: us rule: index_inputs.induct)
    (auto split: option.splits if_splits)

lemma index_users_ok:
  "index_users known g = Ok us \<Longrightarrow>
     us = concat (map (\<lambda>n. map (\<lambda>i. (the i, dn_id n)) (dn_inputs n)) g)
     \<and> (\<forall>n \<in> set g. None \<notin> set (dn_inputs n) \<and> the ` set (dn_inputs n) \<subseteq> known)"
proof (induction known g arbitrary: us rule: index_users.induct)
  case (2 known n ns)
  then obtain xs ys where r: "index_inputs known n (dn_inputs n) = Ok xs"
    "index_users known ns = Ok ys" "us = xs @ ys" by auto
  from index_inputs_ok [OF r(1)] "2.IH" [OF r(1,2)] r(3) show ?case by simp
qed simp

text \<open>The number of inputs of \<open>s\<close> that are not in \<open>D\<close>, counted on the index.\<close>

definition pending :: "(string \<times> string) list \<Rightarrow> string set \<Rightarrow> string \<Rightarrow> nat" where
  "pending us D s = length (filter (\<lambda>p. snd p = s \<and> fst p \<notin> D) us)"

definition edge_of :: "(string \<times> string) list \<Rightarrow> string \<Rightarrow> string \<Rightarrow> bool" where
  "edge_of us s d \<longleftrightarrow> (d, s) \<in> set us"

lemma pending_zero: "pending us D s = 0 \<longleftrightarrow> (\<forall>d. edge_of us s d \<longrightarrow> d \<in> D)"
  by (auto simp: pending_def edge_of_def filter_empty_conv)

lemma pending_insert:
  "d \<notin> D \<Longrightarrow> pending us D s = pending us (insert d D) s + length (filter (\<lambda>u. u = s) (users_of us d))"
  by (induction us) (auto simp: pending_def users_of_def)

definition counts :: "string list \<Rightarrow> (string \<times> string) list \<Rightarrow> string set \<Rightarrow> (string \<rightharpoonup> int) \<Rightarrow> bool" where
  "counts ids us D rem \<longleftrightarrow>
     (\<forall>s. rem s = (if s \<in> set ids \<and> s \<notin> D then Some (int (pending us D s)) else None))"

lemma fold_decrement:
  "\<forall>u \<in> set xs. rem u \<noteq> None \<Longrightarrow>
   fold decrement xs rem s =
     (case rem s of None \<Rightarrow> None | Some k \<Rightarrow> Some (k - int (length (filter (\<lambda>u. u = s) xs))))"
proof (induction xs arbitrary: rem)
  case Nil
  then show ?case by (simp split: option.splits)
next
  case (Cons x xs)
  then obtain k where k: "rem x = Some k" by auto
  have "\<forall>u \<in> set xs. decrement x rem u \<noteq> None" using Cons.prems by (auto simp: decrement_def)
  from Cons.IH [OF this] k show ?case by (auto simp: decrement_def split: option.splits)
qed

lemma retire_counts:
  assumes c: "counts ids us D rem" and d: "d \<in> set ids" "d \<notin> D"
    and us: "\<forall>p \<in> set us. snd p \<in> set ids"
    and waiting: "\<forall>u. edge_of us u d \<longrightarrow> u \<notin> D \<and> u \<noteq> d"
  shows "counts ids us (insert d D) (retire us d rem)"
proof -
  have u: "u \<in> set ids \<and> u \<notin> D \<and> u \<noteq> d" if "u \<in> set (users_of us d)" for u
    using that us waiting by (auto simp: users_of_def edge_of_def)
  then have "\<forall>u \<in> set (users_of us d). (rem(d := None)) u \<noteq> None"
    using c by (auto simp: counts_def)
  note fd = fold_decrement [OF this]
  show ?thesis
    unfolding counts_def retire_def fd
    using c d pending_insert [OF d(2), of us] by (auto simp: counts_def)
qed

lemma retire_layer_counts:
  assumes "counts ids us D rem" and "set layer \<subseteq> set ids" and "set layer \<inter> D = {}" and "distinct layer"
    and "\<forall>p \<in> set us. snd p \<in> set ids"
    and "\<forall>d \<in> set layer. \<forall>u. edge_of us u d \<longrightarrow> u \<notin> D \<and> u \<notin> set layer"
  shows "counts ids us (D \<union> set layer) (fold (retire us) layer rem)"
  using assms
proof (induction layer arbitrary: D rem)
  case Nil
  then show ?case by simp
next
  case (Cons d layer)
  have "counts ids us (insert d D) (retire us d rem)"
    by (rule retire_counts) (use Cons.prems in auto)
  then have "counts ids us (insert d D \<union> set layer) (fold (retire us) layer (retire us d rem))"
    by (rule Cons.IH) (use Cons.prems in auto)
  then show ?case by simp
qed

section \<open>The loop\<close>

text \<open>
  Each layer holds exactly the nodes outside \<open>D\<close> and the earlier layers whose inputs all lie
  in them.
\<close>

fun layered :: "string set \<Rightarrow> (string \<times> string) list \<Rightarrow> string set \<Rightarrow> string list list \<Rightarrow> bool" where
  "layered V us D [] \<longleftrightarrow> V \<subseteq> D"
| "layered V us D (l # ls) \<longleftrightarrow> l \<noteq> [] \<and> distinct l
     \<and> (\<forall>s. s \<in> set l \<longleftrightarrow> s \<in> V \<and> s \<notin> D \<and> (\<forall>d. edge_of us s d \<longrightarrow> d \<in> D))
     \<and> layered V us (D \<union> set l) ls"

definition stuck_on :: "string set \<Rightarrow> (string \<times> string) list \<Rightarrow> string set \<Rightarrow> bool" where
  "stuck_on V us S \<longleftrightarrow> S \<noteq> {} \<and> S \<subseteq> V \<and> (\<forall>s \<in> S. \<exists>d \<in> S. edge_of us s d)"

lemma layers_loop_spec:
  "\<lbrakk> distinct ids; \<forall>p \<in> set us. snd p \<in> set ids \<and> fst p \<in> set ids; counts ids us D rem; D \<subseteq> set ids; k = card D;
      \<forall>s \<in> D. \<forall>d. edge_of us s d \<longrightarrow> d \<in> D \<rbrakk> \<Longrightarrow>
    (\<forall>ls. layers_loop ids us k rem = Ok ls \<longrightarrow> layered (set ids) us D ls)
    \<and> (\<forall>e. layers_loop ids us k rem = Err e \<longrightarrow> e = CycleDetected \<and> (\<exists>S. stuck_on (set ids) us S))"
proof (induction ids us k rem arbitrary: D rule: layers_loop.induct)
  case (1 ids us k rem)
  note dist = "1.prems"(1) and us = "1.prems"(2) and c = "1.prems"(3) and sub = "1.prems"(4)
    and k = "1.prems"(5) and closed = "1.prems"(6)
  show ?case
  proof (cases "k < length ids")
    case False
    then have "card (set ids) \<le> card D" using k dist by (simp add: distinct_card)
    with sub have "D = set ids" by (simp add: card_seteq)
    with False show ?thesis by (simp add: layers_loop.simps)
  next
    case True
    define layer where "layer = ready_layer ids rem"
    have layer: "s \<in> set layer \<longleftrightarrow> s \<in> set ids \<and> s \<notin> D \<and> (\<forall>d. edge_of us s d \<longrightarrow> d \<in> D)" for s
      using c by (auto simp: layer_def ready_layer_def counts_def pending_zero)
    show ?thesis
    proof (cases "layer = []")
      case True
      have "stuck_on (set ids) us (set ids - D)"
        unfolding stuck_on_def
      proof (intro conjI ballI)
        have "card D < card (set ids)" using \<open>k < length ids\<close> k dist by (simp add: distinct_card)
        then show "set ids - D \<noteq> {}" using sub by auto
        fix s assume "s \<in> set ids - D"
        with True layer obtain d where "edge_of us s d" "d \<notin> D" by fastforce
        with us have "d \<in> set ids - D" by (fastforce simp: edge_of_def)
        with \<open>edge_of us s d\<close> show "\<exists>d \<in> set ids - D. edge_of us s d" by blast
      qed blast
      moreover have "layers_loop ids us k rem = Err CycleDetected"
        using True \<open>k < length ids\<close> by (subst layers_loop.simps) (simp add: layer_def Let_def)
      ultimately show ?thesis by auto
    next
      case ne: False
      have "distinct layer" using dist by (simp add: layer_def ready_layer_def)
      have "counts ids us (D \<union> set layer) (fold (retire us) layer rem)"
        by (rule retire_layer_counts [OF c]) (use layer \<open>distinct layer\<close> us closed in \<open>auto\<close>)
      moreover have "k + length layer = card (D \<union> set layer)"
        using k sub layer \<open>distinct layer\<close>
        by (subst card_Un_disjoint) (auto simp: distinct_card intro: finite_subset)
      moreover have "\<forall>s \<in> D \<union> set layer. \<forall>d. edge_of us s d \<longrightarrow> d \<in> D \<union> set layer"
        using closed layer by blast
      moreover have "D \<union> set layer \<subseteq> set ids" using sub layer by blast
      ultimately have ih: "(\<forall>ls. layers_loop ids us (k + length layer) (fold (retire us) layer rem) = Ok ls
            \<longrightarrow> layered (set ids) us (D \<union> set layer) ls)
        \<and> (\<forall>e. layers_loop ids us (k + length layer) (fold (retire us) layer rem) = Err e
            \<longrightarrow> e = CycleDetected \<and> (\<exists>S. stuck_on (set ids) us S))"
        using "1.IH" [OF True layer_def ne dist us] by blast
      have "layers_loop ids us k rem = rbind (layers_loop ids us (k + length layer)
          (fold (retire us) layer rem)) (\<lambda>ls. Ok (layer # ls))"
        using True ne by (subst layers_loop.simps) (simp add: layer_def Let_def)
      with ih ne layer \<open>distinct layer\<close> show ?thesis
        by (cases "layers_loop ids us (k + length layer) (fold (retire us) layer rem)") auto
    qed
  qed
qed

lemma layered_no_stuck: "layered V us D ls \<Longrightarrow> S \<inter> D = {} \<Longrightarrow> \<not> stuck_on V us S"
proof (induction ls arbitrary: D)
  case Nil
  then show ?case by (auto simp: stuck_on_def)
next
  case (Cons l ls)
  show ?case
  proof
    assume st: "stuck_on V us S"
    then have "S \<inter> set l = {}" using Cons.prems by (fastforce simp: stuck_on_def)
    with Cons st show False by (auto simp: Int_Un_distrib)
  qed
qed

lemma layered_sets:
  "layered V us D ls \<Longrightarrow> D \<subseteq> V \<Longrightarrow> distinct (concat ls) \<and> set (concat ls) = V - D"
proof (induction ls arbitrary: D)
  case Nil
  then show ?case by auto
next
  case (Cons l ls)
  from Cons.prems have "D \<union> set l \<subseteq> V" by auto
  moreover from Cons.prems have "layered V us (D \<union> set l) ls" by simp
  ultimately have "distinct (concat ls) \<and> set (concat ls) = V - (D \<union> set l)" by (rule Cons.IH [rotated])
  moreover have "set l \<subseteq> V - D" "distinct l" using Cons.prems by auto
  ultimately show ?case by auto
qed

lemma layered_nth:
  "layered V us D ls \<Longrightarrow> k < length ls \<Longrightarrow> ls ! k \<noteq> [] \<and>
     (\<forall>s. s \<in> set (ls ! k) \<longleftrightarrow> s \<in> V \<and> s \<notin> D \<union> set (concat (take k ls))
        \<and> (\<forall>d. edge_of us s d \<longrightarrow> d \<in> D \<union> set (concat (take k ls))))"
proof (induction ls arbitrary: D k)
  case Nil
  then show ?case by simp
next
  case (Cons l ls)
  show ?case
  proof (cases k)
    case 0
    with Cons.prems show ?thesis by simp
  next
    case (Suc j)
    with Cons.prems Cons.IH [of "D \<union> set l" j] show ?thesis by (simp add: Un_assoc)
  qed
qed

lemma graph_index_spec:
  assumes "graph_index g = Ok us"
  shows "distinct (map dn_id g)" and "edge_of us s d \<longleftrightarrow> depends g s d"
    and "\<forall>p \<in> set us. snd p \<in> set (map dn_id g) \<and> fst p \<in> set (map dn_id g)"
    and "counts (map dn_id g) us {} (map_of (map (\<lambda>n. (dn_id n, int (length (dn_inputs n)))) g))"
proof -
  from assms have nodes: "index_nodes [] g = Ok ()" and inputs: "index_users (dn_id ` set g) g = Ok us"
    by (auto simp: graph_index_def)
  show dist: "distinct (map dn_id g)" using index_nodes_ok [OF nodes] by simp
  from index_users_ok [OF inputs]
  have us: "us = concat (map (\<lambda>n. map (\<lambda>i. (the i, dn_id n)) (dn_inputs n)) g)"
    and some: "\<forall>n \<in> set g. None \<notin> set (dn_inputs n) \<and> the ` set (dn_inputs n) \<subseteq> dn_id ` set g"
    by blast+
  show "\<forall>p \<in> set us. snd p \<in> set (map dn_id g) \<and> fst p \<in> set (map dn_id g)"
    using some by (auto simp: us)
  show "edge_of us s d \<longleftrightarrow> depends g s d"
  proof
    assume "edge_of us s d"
    then obtain n i where n: "n \<in> set g" "i \<in> set (dn_inputs n)" "the i = d" "dn_id n = s"
      by (auto simp: edge_of_def us)
    with some have "i = Some d" by (cases i) auto
    with n show "depends g s d" by (auto simp: depends_def)
  next
    assume "depends g s d"
    then obtain n where "n \<in> set g" "dn_id n = s" "Some d \<in> set (dn_inputs n)" by (auto simp: depends_def)
    then show "edge_of us s d" by (force simp: edge_of_def us)
  qed
  have pend: "pending us {} s = (\<Sum>n \<leftarrow> g. if dn_id n = s then length (dn_inputs n) else 0)" for s
    unfolding pending_def us
    by (induction g) (auto simp: filter_concat o_def filter_map)
  have one: "distinct (map dn_id ns) \<Longrightarrow> map_of (map (\<lambda>n. (dn_id n, int (length (dn_inputs n)))) ns) s
      = (if s \<in> dn_id ` set ns
         then Some (int (\<Sum>n \<leftarrow> ns. if dn_id n = s then length (dn_inputs n) else 0)) else None)" for ns s
  proof (induction ns)
    case Nil
    then show ?case by simp
  next
    case (Cons n ns)
    show ?case
    proof (cases "dn_id n = s")
      case True
      with Cons.prems have "(\<Sum>n \<leftarrow> ns. if dn_id n = s then length (dn_inputs n) else 0) = 0"
        by (induction ns) auto
      with True show ?thesis by simp
    next
      case False
      with Cons show ?thesis by auto
    qed
  qed
  show "counts (map dn_id g) us {} (map_of (map (\<lambda>n. (dn_id n, int (length (dn_inputs n)))) g))"
    using one [OF dist] pend by (simp add: counts_def)
qed

section \<open>Layers as an execution order\<close>

definition layer_order :: "dag_node list \<Rightarrow> string list option" where
  "layer_order g = (case topology_layers g of Inl e \<Rightarrow> None | Inr ls \<Rightarrow> Some (concat ls))"

lemma layered_concat:
  "layered V us D ls \<Longrightarrow> concat ls = xs @ s # ys \<Longrightarrow> edge_of us s d \<Longrightarrow> d \<in> D \<union> set xs"
proof (induction ls arbitrary: D xs)
  case Nil
  then show ?case by simp
next
  case (Cons l ls)
  from Cons.prems(2) have "l @ concat ls = xs @ s # ys" by simp
  then consider zs where "xs = l @ zs" "concat ls = zs @ s # ys" | "s \<in> set l"
    unfolding append_eq_append_conv2
  proof (elim exE disjE conjE)
    fix us assume "l = xs @ us" "us @ concat ls = s # ys"
    with that(1) [of "[]"] that(2) show thesis by (cases us) auto
  next
    fix us assume "l @ us = xs" "concat ls = us @ s # ys"
    with that(1) [of us] show thesis by simp
  qed
  then show ?case
  proof cases
    case 1
    with Cons.IH [of "D \<union> set l" zs] Cons.prems show ?thesis by auto
  next
    case 2
    with Cons.prems show ?thesis by auto
  qed
qed

lemma topology_layers_layered:
  assumes "topology_layers g = Ok ls"
  obtains us where "graph_index g = Ok us" "layered (dn_id ` set g) us {} ls"
proof -
  from assms obtain us where us: "graph_index g = Ok us" and run: "layers_loop (map dn_id g) us 0
      (map_of (map (\<lambda>n. (dn_id n, int (length (dn_inputs n)))) g)) = Ok ls"
    by (auto simp: topology_layers_def)
  note gi = graph_index_spec [OF us]
  from layers_loop_spec [OF gi(1,3,4), of 0] run have "layered (dn_id ` set g) us {} ls" by simp
  with us that show thesis by blast
qed

interpretation dag_layers: execution_order
  "\<lambda>g. dn_id ` set g" "\<lambda>g s. {d. depends g s d}" layer_order
proof
  fix g xs assume "layer_order g = Some xs"
  then obtain ls where ls: "topology_layers g = Ok ls" "xs = concat ls"
    by (auto simp: layer_order_def split: sum.splits)
  from topology_layers_layered [OF ls(1)] obtain us where "layered (dn_id ` set g) us {} ls" .
  with layered_sets ls(2) show "distinct xs \<and> set xs = dn_id ` set g" by fastforce
next
  fix g xs s ys assume "layer_order g = Some (xs @ s # ys)"
  then obtain ls where ls: "topology_layers g = Ok ls" "concat ls = xs @ s # ys"
    by (auto simp: layer_order_def split: sum.splits)
  from topology_layers_layered [OF ls(1)] obtain us
    where us: "graph_index g = Ok us" "layered (dn_id ` set g) us {} ls" .
  with layered_concat [OF us(2) ls(2)] graph_index_spec(2) [OF us(1)]
  show "{d. depends g s d} \<inter> dn_id ` set g \<subseteq> set xs" by auto
qed

section \<open>Properties\<close>

lemma topology_layers_spec:
  "(\<forall>ls. topology_layers g = Ok ls \<longrightarrow>
      distinct (concat ls) \<and> set (concat ls) = dn_id ` set g
      \<and> (\<forall>k < length ls. ls ! k \<noteq> [] \<and> (\<forall>s. s \<in> set (ls ! k) \<longleftrightarrow>
            s \<in> dn_id ` set g \<and> s \<notin> set (concat (take k ls))
            \<and> (\<forall>d. depends g s d \<longrightarrow> d \<in> set (concat (take k ls))))))
   \<and> (verify_graph (Some g) = Ok () \<longrightarrow>
      ((\<exists>e. topology_layers g = Err e) \<longleftrightarrow>
         (\<exists>S. S \<noteq> {} \<and> S \<subseteq> dn_id ` set g \<and> (\<forall>s \<in> S. \<exists>d \<in> S. depends g s d))))"
proof (intro conjI allI impI)
  fix ls assume "topology_layers g = Ok ls"
  then obtain us where us: "graph_index g = Ok us" and ly: "layered (dn_id ` set g) us {} ls"
    by (rule topology_layers_layered)
  note gi = graph_index_spec [OF us]
  show "distinct (concat ls)" "set (concat ls) = dn_id ` set g" using layered_sets [OF ly] by simp_all
  fix k assume k: "k < length ls"
  show "ls ! k \<noteq> []" using layered_nth [OF ly k] by blast
  fix s
  show "s \<in> set (ls ! k) \<longleftrightarrow> s \<in> dn_id ` set g \<and> s \<notin> set (concat (take k ls))
      \<and> (\<forall>d. depends g s d \<longrightarrow> d \<in> set (concat (take k ls)))"
    using layered_nth [OF ly k] gi(2) by simp
next
  assume "verify_graph (Some g) = Ok ()"
  then obtain us where us: "graph_index g = Ok us" by (auto simp: verify_graph_def)
  note gi = graph_index_spec [OF us]
  let ?run = "layers_loop (map dn_id g) us 0 (map_of (map (\<lambda>n. (dn_id n, int (length (dn_inputs n)))) g))"
  have stuck: "stuck_on (dn_id ` set g) us S \<longleftrightarrow>
      S \<noteq> {} \<and> S \<subseteq> dn_id ` set g \<and> (\<forall>s \<in> S. \<exists>d \<in> S. depends g s d)" for S
    by (simp add: stuck_on_def gi(2))
  from layers_loop_spec [OF gi(1,3,4), of 0]
  have sp: "\<forall>ls. ?run = Ok ls \<longrightarrow> layered (dn_id ` set g) us {} ls"
      "\<forall>e. ?run = Err e \<longrightarrow> (\<exists>S. stuck_on (dn_id ` set g) us S)" by simp_all
  have "topology_layers g = ?run" using us by (simp add: topology_layers_def)
  moreover have "(\<exists>e. ?run = Err e) \<longleftrightarrow> (\<exists>S. stuck_on (dn_id ` set g) us S)"
    using sp layered_no_stuck by (cases ?run) fastforce+
  ultimately show "(\<exists>e. topology_layers g = Err e) \<longleftrightarrow>
      (\<exists>S. S \<noteq> {} \<and> S \<subseteq> dn_id ` set g \<and> (\<forall>s \<in> S. \<exists>d \<in> S. depends g s d))"
    by (simp add: stuck)
qed

text \<open>
  C20. Layering. When \<open>TopologyLayers\<close> succeeds, the layers list every node of the graph
  exactly once, no layer is empty, and a node is in layer \<open>k\<close> exactly when it is in no earlier
  layer and all its inputs are: every dependency runs forward, and every node runs as early as
  it can. On a graph that passes the integrity checks, it fails exactly when there is a
  non-empty set of nodes each of which depends on another one of the set, that is, a cycle.
\<close>

theorem topology_layers_correct:
  "(\<forall>ls. topology_layers g = Ok ls \<longrightarrow>
      distinct (concat ls) \<and> set (concat ls) = dn_id ` set g
      \<and> (\<forall>k < length ls. ls ! k \<noteq> [] \<and> (\<forall>s. s \<in> set (ls ! k) \<longleftrightarrow>
            s \<in> dn_id ` set g \<and> s \<notin> set (concat (take k ls))
            \<and> (\<forall>d. depends g s d \<longrightarrow> d \<in> set (concat (take k ls))))))
   \<and> (verify_graph (Some g) = Ok () \<longrightarrow>
      ((\<exists>e. topology_layers g = Err e) \<longleftrightarrow>
         (\<exists>S. S \<noteq> {} \<and> S \<subseteq> dn_id ` set g \<and> (\<forall>s \<in> S. \<exists>d \<in> S. depends g s d))))"
  by (rule topology_layers_spec)

definition diamond :: "dag_node list" where
  "diamond = [\<lparr>dn_id = ''d'', dn_inputs = [Some ''b'', Some ''c'']\<rparr>, \<lparr>dn_id = ''a'', dn_inputs = []\<rparr>,
     \<lparr>dn_id = ''b'', dn_inputs = [Some ''a'']\<rparr>, \<lparr>dn_id = ''c'', dn_inputs = [Some ''a'', Some ''a'']\<rparr>]"

theorem topology_layers_correct_witness:
  "topology_layers diamond = Ok [[''a''], [''b'', ''c''], [''d'']]
   \<and> set (concat [[''a''], [''b'', ''c''], [''d'']]) = dn_id ` set diamond"
proof -
  have run: "topology_layers diamond = Ok [[''a''], [''b'', ''c''], [''d'']]" by code_simp
  with topology_layers_correct [of diamond] show ?thesis by blast
qed

end
