(* ===== verification/Graph_Order.thy ===== *)
theory Graph_Order
  imports Ast_Graph Layers "HOL-Library.Multiset"
begin

text \<open>
  \<open>NormalizeGraph\<close> of \<open>compiler/graph_order.go\<close>: integrity checks on node ids, inputs and
  outputs, then Kahn's algorithm with a first-in first-out queue. The queue holds node ids.
  The queue loop gets one unit of fuel per node plus one; \<open>SortStuck\<close>, the loop running
  out of it, is proved not to happen. \<open>compiler/graph_dag.go\<close> then rebuilds the scheduling
  DAG from the ordered graph.
\<close>

datatype order_error =
    MissingGraphRef | MissingNodeId string | DuplicateGraphId string
  | UnknownNodeInput string string
  | OutputWithoutProducer string | UnknownOutputProducer string string
  | GraphCycle | SortStuck

section \<open>Integrity\<close>

fun index_graph_nodes :: "string list \<Rightarrow> 'v graph_node list \<Rightarrow> (order_error, unit) res" where
  "index_graph_nodes seen [] = Ok ()"
| "index_graph_nodes seen (n # ns) =
     (if gn_id n = [] then Err (MissingNodeId (gn_op n))
      else if gn_id n \<in> set seen then Err (DuplicateGraphId (gn_id n))
      else index_graph_nodes (gn_id n # seen) ns)"

definition node_by_id :: "'v graph_node list \<Rightarrow> string \<rightharpoonup> 'v graph_node" where
  "node_by_id ns = map_of (map (\<lambda>n. (gn_id n, n)) ns)"

definition boundary_input_set :: "'v ast_graph \<Rightarrow> string set" where
  "boundary_input_set g = set (filter (\<lambda>i. i \<noteq> []) (g_inputs g))"

fun validate_inputs ::
  "string set \<Rightarrow> string set \<Rightarrow> string \<Rightarrow> string list \<Rightarrow> (order_error, unit) res" where
  "validate_inputs bound ids n [] = Ok ()"
| "validate_inputs bound ids n (i # is) =
     (if i = [] \<or> i \<in> bound \<or> i \<in> ids then validate_inputs bound ids n is
      else Err (UnknownNodeInput n i))"

fun validate_nodes ::
  "string set \<Rightarrow> string set \<Rightarrow> 'v graph_node list \<Rightarrow> (order_error, unit) res" where
  "validate_nodes bound ids [] = Ok ()"
| "validate_nodes bound ids (n # ns) =
     rbind (validate_inputs bound ids (gn_id n) (gn_inputs n)) (\<lambda>_. validate_nodes bound ids ns)"

fun validate_outputs ::
  "string set \<Rightarrow> string set \<Rightarrow> (string \<times> string) list \<Rightarrow> (order_error, unit) res" where
  "validate_outputs bound ids [] = Ok ()"
| "validate_outputs bound ids ((name, producer) # os) =
     (if name = [] then validate_outputs bound ids os
      else if producer = [] then Err (OutputWithoutProducer name)
      else if producer \<in> bound \<or> producer \<in> ids then validate_outputs bound ids os
      else Err (UnknownOutputProducer name producer))"

definition validate_graph_edges :: "'v ast_graph \<Rightarrow> (order_error, unit) res" where
  "validate_graph_edges g =
     (let bound = boundary_input_set g; ids = gn_id ` set (g_nodes g) in
      rbind (validate_nodes bound ids (g_nodes g)) (\<lambda>_. validate_outputs bound ids (g_outputs g)))"

section \<open>The sort\<close>

definition node_edges :: "string set \<Rightarrow> string set \<Rightarrow> 'v graph_node \<Rightarrow> (string \<times> string) list" where
  "node_edges bound ids n =
     map (\<lambda>i. (i, gn_id n)) (filter (\<lambda>i. i \<noteq> [] \<and> i \<notin> bound \<and> i \<in> ids) (gn_inputs n))"

definition graph_edges :: "string set \<Rightarrow> 'v graph_node list \<Rightarrow> (string \<times> string) list" where
  "graph_edges bound ns = concat (map (node_edges bound (gn_id ` set ns)) ns)"

definition add_degree :: "string \<times> string \<Rightarrow> (string \<rightharpoonup> int) \<Rightarrow> (string \<rightharpoonup> int)" where
  "add_degree e m = m(snd e \<mapsto> (case m (snd e) of None \<Rightarrow> 0 | Some k \<Rightarrow> k) + 1)"

definition in_degrees :: "string list \<Rightarrow> (string \<times> string) list \<Rightarrow> (string \<rightharpoonup> int)" where
  "in_degrees ids es =
     fold add_degree es (\<lambda>s. if s \<in> set ids then Some 0 else None)"

fun release_successors ::
  "string list \<Rightarrow> (string \<rightharpoonup> int) \<Rightarrow> string list \<Rightarrow> (string \<rightharpoonup> int) \<times> string list" where
  "release_successors [] deg ready = (deg, ready)"
| "release_successors (s # ss) deg ready =
     (let deg' = deg(s \<mapsto> (case deg s of None \<Rightarrow> 0 | Some k \<Rightarrow> k) - 1) in
      if deg' s = Some 0 then release_successors ss deg' (ready @ [s]) else release_successors ss deg' ready)"

fun kahn_loop ::
  "nat \<Rightarrow> (string \<times> string) list \<Rightarrow> (string \<rightharpoonup> int) \<Rightarrow> string list \<Rightarrow> string list \<Rightarrow> string list option" where
  "kahn_loop fuel es deg [] fin = Some fin"
| "kahn_loop 0 es deg (x # ready) fin = None"
| "kahn_loop (Suc fuel) es deg (x # ready) fin =
     (let (deg', ready') = release_successors (users_of es x) deg ready
      in kahn_loop fuel es deg' ready' (fin @ [x]))"

definition topological_sort ::
  "string set \<Rightarrow> 'v graph_node list \<Rightarrow> (order_error, 'v graph_node list) res" where
  "topological_sort bound ns =
     (if ns = [] then Ok []
      else
        let es = graph_edges bound ns;
            deg = in_degrees (node_ids ns) es;
            ready = filter (\<lambda>s. deg s = Some 0) (node_ids ns)
        in case kahn_loop (Suc (length ns)) es deg ready [] of
             None \<Rightarrow> Err SortStuck
           | Some ids \<Rightarrow>
               if length ids \<noteq> length ns then Err GraphCycle
               else Ok (map (\<lambda>s. the (node_by_id ns s)) ids))"

definition normalize_graph :: "'v ast_graph option \<Rightarrow> (order_error, 'v ast_graph) res" where
  "normalize_graph go = (case go of
     None \<Rightarrow> Err MissingGraphRef
   | Some g \<Rightarrow>
       rbind (index_graph_nodes [] (g_nodes g)) (\<lambda>_.
       rbind (validate_graph_edges g) (\<lambda>_.
       rbind (topological_sort (boundary_input_set g) (g_nodes g)) (\<lambda>ns.
       Ok (g\<lparr>g_nodes := ns\<rparr>)))))"

section \<open>The queue loop\<close>

lemma release_spec:
  assumes "\<forall>s \<in> set ss. \<exists>k. deg s = Some k" and "release_successors ss deg ready = (deg', ready')"
    and "\<forall>s \<in> set ss. int (count (mset ss) s) \<le> the (deg s)"
  shows "(\<forall>s. deg' s = (case deg s of None \<Rightarrow> None | Some k \<Rightarrow> Some (k - int (count (mset ss) s))))
    \<and> (\<exists>new. ready' = ready @ new \<and> distinct new
         \<and> set new = {s \<in> set ss. the (deg s) = int (count (mset ss) s)})"
  using assms
proof (induction ss arbitrary: deg ready)
  case Nil
  then show ?case by (auto split: option.splits)
next
  case (Cons s ss)
  then obtain k where k: "deg s = Some k" by auto
  define d1 where "d1 = deg(s \<mapsto> k - 1)"
  define r1 where "r1 = (if d1 s = Some 0 then ready @ [s] else ready)"
  have rel: "release_successors ss d1 r1 = (deg', ready')"
    using Cons.prems(2) k by (simp add: Let_def d1_def r1_def split: if_splits)
  have some: "\<forall>x \<in> set ss. \<exists>k. d1 x = Some k" using Cons.prems(1) by (simp add: d1_def)
  have le: "\<forall>x \<in> set ss. int (count (mset ss) x) \<le> the (d1 x)"
  proof
    fix x assume "x \<in> set ss"
    with Cons.prems(3) have "int (count (mset (s # ss)) x) \<le> the (deg x)" by auto
    then show "int (count (mset ss) x) \<le> the (d1 x)" using k by (auto simp: d1_def split: if_splits)
  qed
  from Cons.IH [OF some rel le] obtain new where
    deg': "\<forall>x. deg' x = (case d1 x of None \<Rightarrow> None | Some k \<Rightarrow> Some (k - int (count (mset ss) x)))"
    and new: "ready' = r1 @ new" "distinct new"
      "set new = {x \<in> set ss. the (d1 x) = int (count (mset ss) x)}" by blast
  have d: "deg' x = (case deg x of None \<Rightarrow> None | Some k \<Rightarrow> Some (k - int (count (mset (s # ss)) x)))" for x
    using deg' k by (auto simp: d1_def split: option.splits)
  have key: "the (deg x) = int (count (mset (s # ss)) x) \<longleftrightarrow> the (d1 x) = int (count (mset ss) x)" for x
    using k by (cases "x = s") (auto simp: d1_def)
  then have sets: "{x \<in> set (s # ss). the (deg x) = int (count (mset (s # ss)) x)}
      = {x \<in> set (s # ss). the (d1 x) = int (count (mset ss) x)}" by blast
  have d1s: "the (d1 s) = k - 1" by (simp add: d1_def)
  show ?case
  proof (cases "k = 1")
    case True
    then have c: "count (mset ss) s = 0" using Cons.prems(3) k by auto
    then have s: "s \<notin> set ss" by (simp add: count_eq_zero_iff)
    have "the (d1 s) = int (count (mset ss) s)" using d1s True c by simp
    then have "set (s # new) = {x \<in> set (s # ss). the (d1 x) = int (count (mset ss) x)}"
      unfolding list.set(2) new(3) by blast
    moreover have "ready' = ready @ s # new" using new(1) True by (simp add: r1_def d1_def)
    moreover have "s \<notin> set new" unfolding new(3) using s by blast
    then have "distinct (s # new)" using new(2) by simp
    ultimately show ?thesis unfolding sets using d by blast
  next
    case False
    have "s \<in> set ss" if "the (d1 s) = int (count (mset ss) s)"
    proof (rule ccontr)
      assume "s \<notin> set ss"
      then have "count (mset ss) s = 0" by (simp add: count_eq_zero_iff)
      with that d1s False show False by simp
    qed
    then have "set new = {x \<in> set (s # ss). the (d1 x) = int (count (mset ss) x)}"
      unfolding list.set(2) new(3) by blast
    moreover have "ready' = ready @ new" using new(1) False by (simp add: r1_def d1_def)
    ultimately show ?thesis unfolding sets using new(2) d by blast
  qed
qed

lemma count_filter: "count (mset xs) s = length (filter (\<lambda>u. u = s) xs)"
  by (induction xs) auto

definition kahn_inv ::
  "string list \<Rightarrow> (string \<times> string) list \<Rightarrow> (string \<rightharpoonup> int) \<Rightarrow> string list \<Rightarrow> string list \<Rightarrow> bool" where
  "kahn_inv ids es deg ready fin \<longleftrightarrow>
     (\<forall>s \<in> set ids. deg s = Some (int (pending es (set fin) s)))
     \<and> distinct ready \<and> set ready = {s \<in> set ids. s \<notin> set fin \<and> pending es (set fin) s = 0}
     \<and> distinct fin \<and> set fin \<subseteq> set ids
     \<and> (\<forall>us s vs. fin = us @ s # vs \<longrightarrow> (\<forall>d. edge_of es s d \<longrightarrow> d \<in> set us))"

lemma kahn_step:
  assumes inv: "kahn_inv ids es deg (x # ready) fin"
    and es: "\<forall>p \<in> set es. snd p \<in> set ids \<and> fst p \<in> set ids"
    and rel: "release_successors (users_of es x) deg ready = (deg', ready')"
  shows "kahn_inv ids es deg' ready' (fin @ [x])"
proof -
  have x: "x \<in> set ids" "x \<notin> set fin" "x \<notin> set ready" "pending es (set fin) x = 0"
    and deg: "\<forall>s \<in> set ids. deg s = Some (int (pending es (set fin) s))"
    and rd: "set (x # ready) = {s \<in> set ids. s \<notin> set fin \<and> pending es (set fin) s = 0}"
    and dr: "distinct ready"
    and split: "\<forall>us s vs. fin = us @ s # vs \<longrightarrow> (\<forall>d. edge_of es s d \<longrightarrow> d \<in> set us)"
    using inv by (auto simp: kahn_inv_def)
  have step: "pending es (set fin) s = pending es (insert x (set fin)) s + count (mset (users_of es x)) s" for s
    using pending_insert [OF x(2), of es s] by (simp only: count_filter)
  have us: "set (users_of es x) \<subseteq> set ids" using es by (auto simp: users_of_def)
  have "\<forall>s \<in> set (users_of es x). \<exists>k. deg s = Some k" using us deg by blast
  moreover have "\<forall>s \<in> set (users_of es x). int (count (mset (users_of es x)) s) \<le> the (deg s)"
    using us deg step by fastforce
  ultimately obtain new where
    deg': "\<forall>s. deg' s = (case deg s of None \<Rightarrow> None | Some k \<Rightarrow> Some (k - int (count (mset (users_of es x)) s)))"
    and new: "ready' = ready @ new" "distinct new"
      "set new = {s \<in> set (users_of es x). the (deg s) = int (count (mset (users_of es x)) s)}"
    using release_spec [OF _ rel] by blast
  have d: "\<forall>s \<in> set ids. deg' s = Some (int (pending es (set (fin @ [x])) s))"
    using deg deg' step by simp
  have user: "s \<in> set (users_of es x) \<longleftrightarrow> edge_of es s x" for s
    by (force simp: users_of_def edge_of_def)
  have newset: "set new = {s \<in> set ids. pending es (set fin) s \<noteq> 0 \<and> pending es (insert x (set fin)) s = 0}"
  proof (intro set_eqI iffI)
    fix s assume "s \<in> set new"
    then have "s \<in> set (users_of es x)" "the (deg s) = int (count (mset (users_of es x)) s)" using new(3) by auto
    with us deg step [of s] show "s \<in> {s \<in> set ids. pending es (set fin) s \<noteq> 0
        \<and> pending es (insert x (set fin)) s = 0}" by (auto simp: count_eq_zero_iff)
  next
    fix s assume s: "s \<in> {s \<in> set ids. pending es (set fin) s \<noteq> 0 \<and> pending es (insert x (set fin)) s = 0}"
    with step [of s] have "s \<in> set (users_of es x)" by auto
    with s deg step [of s] new(3) show "s \<in> set new" by auto
  qed
  have "set new \<inter> set ready = {}"
  proof -
    have "pending es (set fin) s = 0" if "s \<in> set ready" for s
    proof -
      have "s \<in> set (x # ready)" using that by simp
      then show ?thesis unfolding rd by blast
    qed
    moreover have "pending es (set fin) s \<noteq> 0" if "s \<in> set new" for s
      using that unfolding newset by simp
    ultimately show ?thesis by (meson disjoint_iff)
  qed
  then have "distinct ready'" using new(1,2) dr by auto
  moreover have "set ready' = {s \<in> set ids. s \<notin> set (fin @ [x]) \<and> pending es (set (fin @ [x])) s = 0}"
  proof (intro set_eqI iffI)
    fix s assume "s \<in> set ready'"
    then have "s \<in> set ready \<or> s \<in> set new" using new(1) by auto
    then show "s \<in> {s \<in> set ids. s \<notin> set (fin @ [x]) \<and> pending es (set (fin @ [x])) s = 0}"
    proof
      assume "s \<in> set ready"
      with rd x(3) step [of s] show ?thesis by auto
    next
      assume "s \<in> set new"
      then have s: "s \<in> set ids" "pending es (set fin) s \<noteq> 0" "pending es (insert x (set fin)) s = 0"
        using newset by auto
      have "s \<notin> set fin"
      proof
        assume "s \<in> set fin"
        then obtain us vs where "fin = us @ s # vs" by (auto dest: split_list)
        with split have "\<forall>d. edge_of es s d \<longrightarrow> d \<in> set fin" by auto
        with s(2) show False by (simp add: pending_zero)
      qed
      with s x(4) show ?thesis by auto
    qed
  next
    fix s assume "s \<in> {s \<in> set ids. s \<notin> set (fin @ [x]) \<and> pending es (set (fin @ [x])) s = 0}"
    then have s: "s \<in> set ids" "s \<notin> set fin" "s \<noteq> x" "pending es (insert x (set fin)) s = 0" by auto
    show "s \<in> set ready'"
    proof (cases "pending es (set fin) s = 0")
      case True
      with s rd have "s \<in> set (x # ready)" by blast
      with s(3) new(1) show ?thesis by simp
    next
      case False
      with s newset new(1) show ?thesis by simp
    qed
  qed
  moreover have "\<forall>us s vs. fin @ [x] = us @ s # vs \<longrightarrow> (\<forall>d. edge_of es s d \<longrightarrow> d \<in> set us)"
  proof (intro allI impI)
    fix us s vs d assume eq: "fin @ [x] = us @ s # vs" and e: "edge_of es s d"
    show "d \<in> set us"
    proof (cases vs rule: rev_cases)
      case Nil
      with eq e x(4) show ?thesis by (simp add: pending_zero)
    next
      case (snoc ws y)
      with eq split e show ?thesis by simp
    qed
  qed
  ultimately show ?thesis
    using d x inv by (simp add: kahn_inv_def)
qed

lemma kahn_loop_spec:
  "\<forall>p \<in> set es. snd p \<in> set ids \<and> fst p \<in> set ids \<Longrightarrow> kahn_inv ids es deg ready fin \<Longrightarrow> fuel + length fin = Suc (length ids) \<Longrightarrow>
    \<exists>out deg'. kahn_loop fuel es deg ready fin = Some out \<and> kahn_inv ids es deg' [] out"
proof (induction fuel es deg ready fin rule: kahn_loop.induct)
  case (1 fuel es deg fin)
  then show ?case by auto
next
  case (2 es deg x ready fin)
  then have "distinct fin" "set fin \<subseteq> set ids" by (simp_all add: kahn_inv_def)
  then have "length fin \<le> length ids" by (metis card_length card_mono distinct_card finite_set le_trans)
  with 2 show ?case by simp
next
  case (3 fuel es deg x ready fin)
  obtain deg' ready' where rel: "release_successors (users_of es x) deg ready = (deg', ready')" by fastforce
  have "kahn_inv ids es deg' ready' (fin @ [x])"
    by (rule kahn_step [OF "3.prems"(2,1) rel])
  with "3.IH" [OF rel [symmetric] refl "3.prems"(1)] "3.prems"(3) rel show ?case by simp
qed

section \<open>Correctness of the sort\<close>

lemma in_degrees_fold:
  "m s = Some k \<Longrightarrow> fold add_degree es m s = Some (k + int (length (filter (\<lambda>p. snd p = s) es)))"
proof (induction es arbitrary: m k)
  case Nil
  then show ?case by simp
next
  case (Cons p es)
  have "add_degree p m s = Some (if snd p = s then k + 1 else k)"
    using Cons.prems by (auto simp: add_degree_def)
  with Cons.IH [of "add_degree p m" "if snd p = s then k + 1 else k"] show ?case by simp
qed

lemma in_degrees_pending: "s \<in> set ids \<Longrightarrow> in_degrees ids es s = Some (int (pending es {} s))"
  unfolding in_degrees_def by (subst in_degrees_fold [where k = 0]) (simp_all add: pending_def)

text \<open>The dependencies of a node that are themselves nodes.\<close>

definition graph_deps :: "string set \<Rightarrow> 'v graph_node list \<Rightarrow> string \<Rightarrow> string set" where
  "graph_deps bound ns s =
     {d. d \<noteq> [] \<and> d \<notin> bound \<and> d \<in> gn_id ` set ns \<and> (\<exists>n \<in> set ns. gn_id n = s \<and> d \<in> set (gn_inputs n))}"

lemma graph_edges_deps: "edge_of (graph_edges bound ns) s d \<longleftrightarrow> d \<in> graph_deps bound ns s"
  by (auto simp: edge_of_def graph_edges_def node_edges_def graph_deps_def)

lemma graph_edges_ids:
  "\<forall>p \<in> set (graph_edges bound ns). snd p \<in> set (node_ids ns) \<and> fst p \<in> set (node_ids ns)"
  by (auto simp: graph_edges_def node_edges_def)

lemma kahn_start:
  assumes "distinct (node_ids ns)"
  shows "kahn_inv (node_ids ns) es (in_degrees (node_ids ns) es)
     (filter (\<lambda>s. in_degrees (node_ids ns) es s = Some 0) (node_ids ns)) []"
  using assms by (auto simp: kahn_inv_def in_degrees_pending)

lemma node_by_id_nth:
  assumes "distinct (node_ids ns)" and "n \<in> set ns"
  shows "node_by_id ns (gn_id n) = Some n"
  using assms unfolding node_by_id_def by (intro map_of_is_SomeI) (auto simp: comp_def)

definition dependency_ordered :: "string set \<Rightarrow> 'v graph_node list \<Rightarrow> bool" where
  "dependency_ordered bound ns \<longleftrightarrow> (\<forall>us n vs. ns = us @ n # vs \<longrightarrow>
     graph_deps bound ns (gn_id n) \<subseteq> gn_id ` set us)"

lemma ids_permutation:
  assumes dist: "distinct (node_ids ns)" and fin: "distinct fin" "set fin = set (node_ids ns)"
  shows "mset (map (\<lambda>s. the (node_by_id ns s)) fin) = mset ns"
    and "node_ids (map (\<lambda>s. the (node_by_id ns s)) fin) = fin"
proof -
  have id: "gn_id (the (node_by_id ns s)) = s" if "s \<in> set fin" for s
    using that fin(2) node_by_id_nth [OF dist] by force
  then show "node_ids (map (\<lambda>s. the (node_by_id ns s)) fin) = fin"
    by (simp add: comp_def map_idI)
  have "mset fin = mset (node_ids ns)" using set_eq_iff_mset_eq_distinct [OF fin(1) dist] fin(2) by blast
  then have "mset (map (\<lambda>s. the (node_by_id ns s)) fin) = mset (map (\<lambda>s. the (node_by_id ns s)) (node_ids ns))"
    by (simp only: mset_map)
  also have "map (\<lambda>s. the (node_by_id ns s)) (node_ids ns) = ns"
    using node_by_id_nth [OF dist] by (simp add: map_idI)
  finally show "mset (map (\<lambda>s. the (node_by_id ns s)) fin) = mset ns" .
qed

lemma topological_sort_spec:
  fixes ns :: "'v graph_node list"
  assumes dist: "distinct (node_ids ns)"
  shows "(\<forall>ns'. topological_sort bound ns = Ok ns' \<longrightarrow> mset ns' = mset ns \<and> dependency_ordered bound ns')
     \<and> (\<forall>e. topological_sort bound ns = Err e \<longrightarrow> e = GraphCycle
          \<and> (\<exists>S. S \<subseteq> gn_id ` set ns \<and> cyclic_set (graph_deps bound ns) S))"
proof (cases "ns = []")
  case True
  then show ?thesis by (auto simp: topological_sort_def dependency_ordered_def)
next
  case False
  let ?ids = "node_ids ns" and ?es = "graph_edges bound ns"
  from kahn_loop_spec [OF graph_edges_ids kahn_start [OF dist, of ?es], where fuel = "Suc (length ns)"]
  obtain fin deg' where run: "kahn_loop (Suc (length ns)) ?es (in_degrees ?ids ?es)
      (filter (\<lambda>s. in_degrees ?ids ?es s = Some 0) ?ids) [] = Some fin"
    and inv: "kahn_inv ?ids ?es deg' [] fin" by auto
  from inv have fin: "distinct fin" "set fin \<subseteq> set ?ids"
    and stuck: "\<And>s. s \<in> set ?ids \<Longrightarrow> s \<notin> set fin \<Longrightarrow> pending ?es (set fin) s \<noteq> 0"
    and fwd: "\<And>us s vs d. fin = us @ s # vs \<Longrightarrow> d \<in> graph_deps bound ns s \<Longrightarrow> d \<in> set us"
    by (auto simp: kahn_inv_def graph_edges_deps)
  show ?thesis
  proof (cases "length fin = length ns")
    case True
    let ?out = "map (\<lambda>s. the (node_by_id ns s)) fin"
    have "card (set fin) = card (set ?ids)" using True fin(1) dist by (simp only: distinct_card length_map)
    then have all: "set fin = set ?ids" using fin(2) by (simp add: card_subset_eq)
    note perm = ids_permutation [OF dist fin(1) all]
    have "dependency_ordered bound ?out"
      unfolding dependency_ordered_def
    proof (intro allI impI)
      fix us n vs assume split: "?out = us @ n # vs"
      then have "fin = node_ids us @ gn_id n # node_ids vs"
        using perm(2) by (metis list.simps(9) map_append)
      from fwd [OF this] show "graph_deps bound ?out (gn_id n) \<subseteq> gn_id ` set us"
        using mset_eq_setD [OF perm(1)] by (auto simp: graph_deps_def)
    qed
    moreover have "topological_sort bound ns = Ok ?out"
      using run False True by (simp add: topological_sort_def Let_def)
    ultimately show ?thesis using perm(1) by simp
  next
    case short: False
    have "cyclic_set (graph_deps bound ns) (set ?ids - set fin)"
      unfolding cyclic_set_def
    proof (intro conjI ballI)
      have "length fin = length ns" if "set fin = set ?ids"
        using that fin(1) dist by (metis distinct_card length_map)
      then have "set fin \<noteq> set ?ids" using short by blast
      then show "set ?ids - set fin \<noteq> {}" using fin(2) by blast
      fix s assume "s \<in> set ?ids - set fin"
      with stuck obtain d where "edge_of ?es s d" "d \<notin> set fin" by (auto simp: pending_zero)
      moreover from this graph_edges_ids have "d \<in> set ?ids" by (fastforce simp: edge_of_def)
      ultimately show "\<exists>d \<in> set ?ids - set fin. d \<in> graph_deps bound ns s"
        by (auto simp: graph_edges_deps)
    qed
    moreover have "topological_sort bound ns = Err GraphCycle"
      using run False short by (simp add: topological_sort_def Let_def)
    moreover have "set ?ids - set fin \<subseteq> gn_id ` set ns" by auto
    ultimately show ?thesis by (auto simp del: set_map)
  qed
qed

lemma index_graph_nodes_ok:
  "index_graph_nodes seen ns = Ok () \<Longrightarrow> distinct (node_ids ns) \<and> gn_id ` set ns \<inter> set seen = {}
     \<and> (\<forall>n \<in> set ns. gn_id n \<noteq> [])"
  by (induction seen ns rule: index_graph_nodes.induct) (auto split: if_splits)

lemma validate_inputs_ok:
  "validate_inputs bound ids n is = Ok () \<longleftrightarrow> (\<forall>i \<in> set is. i = [] \<or> i \<in> bound \<or> i \<in> ids)"
  by (induction bound ids n "is" rule: validate_inputs.induct) auto

lemma validate_nodes_ok:
  "validate_nodes bound ids ns = Ok () \<longleftrightarrow>
     (\<forall>n \<in> set ns. \<forall>i \<in> set (gn_inputs n). i = [] \<or> i \<in> bound \<or> i \<in> ids)"
  by (induction bound ids ns rule: validate_nodes.induct) (auto simp: validate_inputs_ok)

lemma validate_outputs_ok:
  "validate_outputs bound ids os = Ok () \<longleftrightarrow>
     (\<forall>(name, p) \<in> set os. name = [] \<or> p \<noteq> [] \<and> (p \<in> bound \<or> p \<in> ids))"
  by (induction bound ids os rule: validate_outputs.induct) auto

text \<open>The checks that come before the sort.\<close>

definition graph_valid :: "'v ast_graph \<Rightarrow> bool" where
  "graph_valid g \<longleftrightarrow> index_graph_nodes [] (g_nodes g) = Ok () \<and> validate_graph_edges g = Ok ()"

lemma graph_valid_iff:
  "graph_valid g \<longleftrightarrow> index_graph_nodes [] (g_nodes g) = Ok ()
     \<and> (\<forall>n \<in> set (g_nodes g). \<forall>i \<in> set (gn_inputs n).
          i = [] \<or> i \<in> boundary_input_set g \<or> i \<in> gn_id ` set (g_nodes g))
     \<and> (\<forall>(name, p) \<in> set (g_outputs g). name = []
          \<or> p \<noteq> [] \<and> (p \<in> boundary_input_set g \<or> p \<in> gn_id ` set (g_nodes g)))"
  by (auto simp: graph_valid_def validate_graph_edges_def Let_def validate_nodes_ok validate_outputs_ok)

section \<open>Sorted graphs as execution orders\<close>

definition sort_order :: "string set \<times> 'v graph_node list \<Rightarrow> string list option" where
  "sort_order p = (if distinct (node_ids (snd p))
     then (case topological_sort (fst p) (snd p) of Inl e \<Rightarrow> None | Inr ns \<Rightarrow> Some (node_ids ns))
     else None)"

lemma graph_deps_perm: "mset ns = mset ns' \<Longrightarrow> graph_deps bound ns = graph_deps bound ns'"
  by (auto simp: graph_deps_def fun_eq_iff dest: mset_eq_setD)

interpretation graph_sort: execution_order
  "\<lambda>p. gn_id ` set (snd p)" "\<lambda>p. graph_deps (fst p) (snd p)" sort_order
proof
  fix p :: "string set \<times> 'v graph_node list" and xs
  assume "sort_order p = Some xs"
  then obtain ns where d: "distinct (node_ids (snd p))"
    and ns: "topological_sort (fst p) (snd p) = Ok ns" "xs = node_ids ns"
    by (auto simp: sort_order_def split: if_splits sum.splits)
  with topological_sort_spec [OF d, of "fst p"] have "mset ns = mset (snd p)" by blast
  then have "mset xs = mset (node_ids (snd p))" using ns(2) by simp
  with d show "distinct xs \<and> set xs = gn_id ` set (snd p)"
    by (metis mset_eq_imp_distinct_iff mset_eq_setD set_map)
next
  fix p :: "string set \<times> 'v graph_node list" and xs s ys
  assume "sort_order p = Some (xs @ s # ys)"
  then obtain ns where d: "distinct (node_ids (snd p))"
    and ns: "topological_sort (fst p) (snd p) = Ok ns" "xs @ s # ys = node_ids ns"
    by (auto simp: sort_order_def split: if_splits sum.splits)
  with topological_sort_spec [OF d, of "fst p"] have perm: "mset ns = mset (snd p)"
    and ord: "dependency_ordered (fst p) ns" by blast+
  from ns(2) obtain us n vs where split: "ns = us @ n # vs" "xs = node_ids us" "s = gn_id n"
    unfolding map_eq_append_conv map_eq_Cons_conv eq_commute [of "xs @ s # ys"] by blast
  from ord split graph_deps_perm [OF perm]
  have "graph_deps (fst p) (snd p) s \<subseteq> gn_id ` set us"
    unfolding dependency_ordered_def by metis
  then show "graph_deps (fst p) (snd p) s \<inter> gn_id ` set (snd p) \<subseteq> set xs"
    using split(2) by auto
qed

section \<open>Properties\<close>

lemma normalize_graph_spec:
  "(\<forall>g'. normalize_graph (Some g) = Ok g' \<longrightarrow>
      mset (g_nodes g') = mset (g_nodes g) \<and> g' = g\<lparr>g_nodes := g_nodes g'\<rparr>
      \<and> distinct (node_ids (g_nodes g')) \<and> [] \<notin> gn_id ` set (g_nodes g')
      \<and> (\<forall>us n vs. g_nodes g' = us @ n # vs \<longrightarrow> (\<forall>i \<in> set (gn_inputs n).
            i = [] \<or> i \<in> boundary_input_set g \<or> i \<in> gn_id ` set us)))
   \<and> (graph_valid g \<longrightarrow>
      (normalize_graph (Some g) = Err GraphCycle \<longleftrightarrow>
         (\<exists>S. S \<subseteq> gn_id ` set (g_nodes g)
            \<and> cyclic_set (graph_deps (boundary_input_set g) (g_nodes g)) S))
      \<and> (\<forall>e. normalize_graph (Some g) = Err e \<longrightarrow> e = GraphCycle))"
proof (intro conjI allI impI)
  let ?b = "boundary_input_set g"
  fix g' assume ok: "normalize_graph (Some g) = Ok g'"
  then obtain ns where idx: "index_graph_nodes [] (g_nodes g) = Ok ()" and val: "validate_graph_edges g = Ok ()"
    and ns: "topological_sort ?b (g_nodes g) = Ok ns" and g': "g' = g\<lparr>g_nodes := ns\<rparr>"
    by (auto simp: normalize_graph_def)
  from index_graph_nodes_ok [OF idx] have dist: "distinct (node_ids (g_nodes g))"
    and ne: "\<forall>n \<in> set (g_nodes g). gn_id n \<noteq> []" by blast+
  from topological_sort_spec [OF dist] ns have perm: "mset ns = mset (g_nodes g)"
    and ord: "dependency_ordered ?b ns" by blast+
  have sets: "set ns = set (g_nodes g)" by (rule mset_eq_setD [OF perm])
  show "mset (g_nodes g') = mset (g_nodes g)" using perm g' by simp
  show "g' = g\<lparr>g_nodes := g_nodes g'\<rparr>" using g' by simp
  have "mset (node_ids ns) = mset (node_ids (g_nodes g))" using perm by simp
  from mset_eq_imp_distinct_iff [OF this] show "distinct (node_ids (g_nodes g'))" using dist g' by simp
  show "[] \<notin> gn_id ` set (g_nodes g')" using ne sets g' by auto
  fix us n vs assume split: "g_nodes g' = us @ n # vs"
  show "\<forall>i \<in> set (gn_inputs n). i = [] \<or> i \<in> ?b \<or> i \<in> gn_id ` set us"
  proof
    fix i assume i: "i \<in> set (gn_inputs n)"
    from split g' have nsp: "ns = us @ n # vs" by simp
    then have n: "n \<in> set (g_nodes g)" using sets by auto
    from val n i have "i = [] \<or> i \<in> ?b \<or> i \<in> gn_id ` set (g_nodes g)"
      by (auto simp: validate_graph_edges_def Let_def validate_nodes_ok)
    moreover have "i \<in> graph_deps ?b ns (gn_id n)" if "i \<noteq> []" "i \<notin> ?b" "i \<in> gn_id ` set (g_nodes g)"
      using that i n sets by (auto simp: graph_deps_def)
    moreover have "graph_deps ?b ns (gn_id n) \<subseteq> gn_id ` set us"
      using ord nsp unfolding dependency_ordered_def by blast
    ultimately show "i = [] \<or> i \<in> ?b \<or> i \<in> gn_id ` set us" by blast
  qed
next
  let ?b = "boundary_input_set g"
  assume "graph_valid g"
  then have idx: "index_graph_nodes [] (g_nodes g) = Ok ()" and val: "validate_graph_edges g = Ok ()"
    by (simp_all add: graph_valid_def)
  from index_graph_nodes_ok [OF idx] have dist: "distinct (node_ids (g_nodes g))" by blast
  have run: "normalize_graph (Some g)
      = rbind (topological_sort ?b (g_nodes g)) (\<lambda>ns. Ok (g\<lparr>g_nodes := ns\<rparr>))"
    using idx val by (simp add: normalize_graph_def)
  have sort: "sort_order (?b, g_nodes g) = (case topological_sort ?b (g_nodes g) of
      Inl e \<Rightarrow> None | Inr ns \<Rightarrow> Some (node_ids ns))" using dist by (simp add: sort_order_def)
  note sp = topological_sort_spec [OF dist, of ?b]
  show "normalize_graph (Some g) = Err GraphCycle \<longleftrightarrow>
      (\<exists>S. S \<subseteq> gn_id ` set (g_nodes g) \<and> cyclic_set (graph_deps ?b (g_nodes g)) S)"
  proof (cases "topological_sort ?b (g_nodes g)")
    case (Inl e)
    with sp run show ?thesis by auto
  next
    case (Inr ns)
    with sort have "sort_order (?b, g_nodes g) = Some (node_ids ns)" by simp
    from graph_sort.acyclic [OF this] Inr run show ?thesis by simp
  qed
  fix e assume "normalize_graph (Some g) = Err e"
  with run have "topological_sort ?b (g_nodes g) = Err e"
    by (cases "topological_sort ?b (g_nodes g)") simp_all
  with sp show "e = GraphCycle" by blast
qed

text \<open>
  C5. Normalisation. When \<open>NormalizeGraph\<close> succeeds, the graph keeps exactly its nodes and
  everything else, node ids are distinct and non-empty, and every input of a node is empty, a
  graph boundary, or the id of a node earlier in the list. It fails on a graph whose ids, inputs
  and outputs pass the checks exactly when the nodes contain a dependency cycle, and then with
  the cycle error; the queue never runs out of fuel.
\<close>

theorem normalize_graph_correct:
  "(\<forall>g'. normalize_graph (Some g) = Ok g' \<longrightarrow>
      mset (g_nodes g') = mset (g_nodes g) \<and> g' = g\<lparr>g_nodes := g_nodes g'\<rparr>
      \<and> distinct (node_ids (g_nodes g')) \<and> [] \<notin> gn_id ` set (g_nodes g')
      \<and> (\<forall>us n vs. g_nodes g' = us @ n # vs \<longrightarrow> (\<forall>i \<in> set (gn_inputs n).
            i = [] \<or> i \<in> boundary_input_set g \<or> i \<in> gn_id ` set us)))
   \<and> (graph_valid g \<longrightarrow>
      (normalize_graph (Some g) = Err GraphCycle \<longleftrightarrow>
         (\<exists>S. S \<subseteq> gn_id ` set (g_nodes g)
            \<and> cyclic_set (graph_deps (boundary_input_set g) (g_nodes g)) S))
      \<and> (\<forall>e. normalize_graph (Some g) = Err e \<longrightarrow> e = GraphCycle))"
  by (rule normalize_graph_spec)

definition plain_node :: "string \<Rightarrow> string list \<Rightarrow> int graph_node" where
  "plain_node i ins = \<lparr>gn_id = i, gn_op = ''math.add'', gn_inputs = ins, gn_attrs = Map.empty,
     gn_meta = Map.empty, gn_input_types = [], gn_output_type = \<lparr>pt_dtype = Float32, pt_shape = [],
     pt_layout = LayoutContiguous, pt_kind = [], pt_constraints = []\<rparr>,
     gn_value = zero_value_type, gn_weights = None\<rparr>"

definition loop_graph :: "int ast_graph" where
  "loop_graph = \<lparr>g_nodes = [plain_node ''b'' [''a'', ''x''], plain_node ''a'' [''b'']], g_inputs = [''x''],
     g_outputs = [(''y'', ''b'')], g_dtype = Float32, g_bindings = Map.empty\<rparr>"

theorem normalize_graph_correct_witness:
  "normalize_graph (Some loop_graph) = Err GraphCycle"
proof -
  have "graph_valid loop_graph"
    by (simp add: graph_valid_iff loop_graph_def plain_node_def boundary_input_set_def)
  moreover have "cyclic_set (graph_deps (boundary_input_set loop_graph) (g_nodes loop_graph)) {''a'', ''b''}"
    by (auto simp: cyclic_set_def graph_deps_def loop_graph_def plain_node_def boundary_input_set_def)
  moreover have "{''a'', ''b''} \<subseteq> gn_id ` set (g_nodes loop_graph)"
    by (simp add: loop_graph_def plain_node_def)
  ultimately show ?thesis using normalize_graph_correct [of loop_graph] by blast
qed

end
