(* ===== verification/Graph_Semantics.thy ===== *)
theory Graph_Semantics
  imports Elementwise Graph_Order
begin

text \<open>
  What a compute graph computes, as the yardstick for the optimiser's passes. The values of the
  nodes are of an arbitrary type (scalars or tensors); an \<open>interp\<close> says how an elementwise
  operation, a literal and an operation the optimiser does not look into act on them.
  \<open>node_value\<close> is one node's equation, \<open>run_nodes\<close> executes a node list front to back, and
  \<open>runnable\<close> is the state \<open>NormalizeGraph\<close> leaves a graph in (plus operands that match the
  operators). The locale \<open>graph_pass\<close> is the contract between the passes and \<open>optimizer.Run\<close>.
\<close>

section \<open>Operation names and attribute keys\<close>

abbreviation constant_op :: string where "constant_op \<equiv> ''math.constant''"
abbreviation constant_attribute_value :: string where "constant_attribute_value \<equiv> ''value''"
abbreviation fuse_op :: string where "fuse_op \<equiv> ''optimizer.fusion''"
abbreviation fuse_attribute_ast :: string where "fuse_attribute_ast \<equiv> ''fusion_ast''"
abbreviation tile_attribute :: string where "tile_attribute \<equiv> ''cache_tiling''"
abbreviation fold_scale_attribute :: string where "fold_scale_attribute \<equiv> ''fold_scale''"

text \<open>A float32 attribute is held as the float64 it converts to without loss.\<close>

definition constant_value_from :: "'v float_ops \<Rightarrow> 'v graph_node \<Rightarrow> 'v option" where
  "constant_value_from o64 n = (case gn_attrs n constant_attribute_value of
     Some (AFloat64 v) \<Rightarrow> Some v
   | Some (AFloat32 v) \<Rightarrow> Some v
   | Some (AInt i) \<Rightarrow> Some (f_of_int o64 i)
   | Some (AInt64 i) \<Rightarrow> Some (f_of_int o64 i)
   | _ \<Rightarrow> None)"

definition is_identity_node :: "'v graph_node \<Rightarrow> bool" where
  "is_identity_node n \<longleftrightarrow> gn_op n = ''shape.identity'' \<or> gn_op n = ''control.identity''"

lemma elementwise_op_names [simp]:
  "is_elementwise_op ''math.constant'' = None" "is_elementwise_op ''optimizer.fusion'' = None"
  "is_elementwise_op ''shape.identity'' = None" "is_elementwise_op ''control.identity'' = None"
  "is_elementwise_op ''projection.linear'' = None" "is_elementwise_op ''math.matmul'' = None"
  "is_elementwise_op ''convolution.conv1d'' = None" "is_elementwise_op ''convolution.conv2d'' = None"
  "is_elementwise_op ''convolution.conv3d'' = None"
  by code_simp+

section \<open>One node\<close>

record ('v, 'a) interp =
  i_f64 :: "'v float_ops"
  i_app :: "node_type \<Rightarrow> 'a list \<Rightarrow> 'a"
  i_lit :: "'v \<Rightarrow> 'a"
  i_other :: "string \<Rightarrow> (string \<rightharpoonup> 'v attr) \<Rightarrow> 'a list \<Rightarrow> 'a"

text \<open>The interpretation of the operators extends the compiler's own constant evaluation.\<close>

definition interprets :: "('v, 'a) interp \<Rightarrow> bool" where
  "interprets I \<longleftrightarrow> (\<forall>t xs v. evaluate_node_type (i_f64 I) t xs = Some v
     \<longrightarrow> i_app I t (map (i_lit I) xs) = i_lit I v)"

text \<open>
  The cache-tiling and scale annotations are hints to the code generator and no part of what a
  node computes.
\<close>

definition other_value :: "('v, 'a) interp \<Rightarrow> 'v graph_node \<Rightarrow> 'a list \<Rightarrow> 'a" where
  "other_value I n args =
     i_other I (gn_op n) (gn_attrs n |` (- {tile_attribute, fold_scale_attribute})) args"

definition node_value :: "('v, 'a) interp \<Rightarrow> 'v graph_node \<Rightarrow> 'a list \<Rightarrow> 'a" where
  "node_value I n args = (case is_elementwise_op (gn_op n) of
     Some t \<Rightarrow> if int (length args) = arity t then i_app I t args else other_value I n args
   | None \<Rightarrow>
       if gn_op n = constant_op then (case constant_value_from (i_f64 I) n of
          Some v \<Rightarrow> i_lit I v | None \<Rightarrow> other_value I n args)
       else if is_identity_node n \<and> length args = 1 then hd args
       else if gn_op n = fuse_op then (case gn_attrs n fuse_attribute_ast of
          Some (AFusion f) \<Rightarrow> ast_eval (i_app I) (i_lit I) (\<lambda>i. args ! i) (fa_root f)
        | _ \<Rightarrow> other_value I n args)
       else other_value I n args)"

type_synonym 'a env = "string \<Rightarrow> 'a"

definition node_holds :: "('v, 'a) interp \<Rightarrow> 'a env \<Rightarrow> 'v graph_node \<Rightarrow> bool" where
  "node_holds I env n \<longleftrightarrow> env (gn_id n) = node_value I n (map env (gn_inputs n))"

abbreviation satisfies :: "('v, 'a) interp \<Rightarrow> 'v graph_node list \<Rightarrow> 'a env \<Rightarrow> bool" where
  "satisfies I ns env \<equiv> (\<forall>n \<in> set ns. node_holds I env n)"

lemma node_value_elementwise:
  "is_elementwise_op (gn_op n) = Some t \<Longrightarrow> int (length args) = arity t \<Longrightarrow>
     node_value I n args = i_app I t args"
  by (simp add: node_value_def)

lemma node_value_constant:
  "gn_op n = constant_op \<Longrightarrow> constant_value_from (i_f64 I) n = Some v \<Longrightarrow> node_value I n args = i_lit I v"
  by (simp add: node_value_def)

lemma node_value_identity:
  "is_identity_node n \<Longrightarrow> node_value I n [x] = x"
  by (auto simp: node_value_def is_identity_node_def)

lemma node_value_fusion:
  "gn_op n = fuse_op \<Longrightarrow> gn_attrs n fuse_attribute_ast = Some (AFusion f) \<Longrightarrow>
     node_value I n args = ast_eval (i_app I) (i_lit I) (\<lambda>i. args ! i) (fa_root f)"
  by (simp add: node_value_def is_identity_node_def)

text \<open>Renaming inputs, or setting an annotation, does not change a node's function.\<close>

lemma node_value_inputs [simp]: "node_value I (n\<lparr>gn_inputs := is\<rparr>) args = node_value I n args"
proof -
  have "gn_op (n\<lparr>gn_inputs := is\<rparr>) = gn_op n" "gn_attrs (n\<lparr>gn_inputs := is\<rparr>) = gn_attrs n"
    "other_value I (n\<lparr>gn_inputs := is\<rparr>) args = other_value I n args"
    "constant_value_from (i_f64 I) (n\<lparr>gn_inputs := is\<rparr>) = constant_value_from (i_f64 I) n"
    "is_identity_node (n\<lparr>gn_inputs := is\<rparr>) = is_identity_node n"
    by (simp_all add: other_value_def constant_value_from_def is_identity_node_def)
  then show ?thesis unfolding node_value_def by (simp only:)
qed

lemma node_value_annotation:
  assumes "k = tile_attribute \<or> k = fold_scale_attribute"
  shows "node_value I (n\<lparr>gn_attrs := (gn_attrs n)(k \<mapsto> a)\<rparr>) args = node_value I n args"
    (is "node_value I ?n args = _")
proof -
  have "(gn_attrs n)(k \<mapsto> a) |` (- {tile_attribute, fold_scale_attribute})
      = gn_attrs n |` (- {tile_attribute, fold_scale_attribute})"
    using assms by (auto simp: restrict_map_def fun_eq_iff)
  then have "other_value I ?n args = other_value I n args" by (simp add: other_value_def)
  moreover have op: "gn_op ?n = gn_op n" "gn_attrs ?n constant_attribute_value = gn_attrs n constant_attribute_value"
    "gn_attrs ?n fuse_attribute_ast = gn_attrs n fuse_attribute_ast"
    using assms by auto
  moreover from op have "constant_value_from (i_f64 I) ?n = constant_value_from (i_f64 I) n"
    "is_identity_node ?n = is_identity_node n"
    by (simp_all only: constant_value_from_def is_identity_node_def)
  ultimately show ?thesis unfolding node_value_def by (simp only:)
qed

section \<open>Executing a graph\<close>

definition run_node :: "('v, 'a) interp \<Rightarrow> 'v graph_node \<Rightarrow> 'a env \<Rightarrow> 'a env" where
  "run_node I n env = env(gn_id n := node_value I n (map env (gn_inputs n)))"

definition run_nodes :: "('v, 'a) interp \<Rightarrow> 'v graph_node list \<Rightarrow> 'a env \<Rightarrow> 'a env" where
  "run_nodes I = fold (run_node I)"

definition output_values :: "'v ast_graph \<Rightarrow> 'a env \<Rightarrow> (string \<times> 'a) list" where
  "output_values g env = map (\<lambda>(name, p). (name, env p)) (g_outputs g)"

definition graph_result :: "('v, 'a) interp \<Rightarrow> 'v ast_graph \<Rightarrow> 'a env \<Rightarrow> (string \<times> 'a) list" where
  "graph_result I g env = output_values g (run_nodes I (g_nodes g) env)"

text \<open>Every node comes after the producers of its inputs, and its id is new.\<close>

fun ordered_from :: "string set \<Rightarrow> 'v graph_node list \<Rightarrow> bool" where
  "ordered_from known [] \<longleftrightarrow> True"
| "ordered_from known (n # ns) \<longleftrightarrow>
     set (gn_inputs n) \<subseteq> known \<and> gn_id n \<notin> known \<and> ordered_from (insert (gn_id n) known) ns"

definition known_names :: "'v ast_graph \<Rightarrow> string set" where
  "known_names g = insert [] (set (g_inputs g))"

definition operands_match :: "'v graph_node \<Rightarrow> bool" where
  "operands_match n \<longleftrightarrow> (case is_elementwise_op (gn_op n) of
     None \<Rightarrow> True | Some t \<Rightarrow> int (length (gn_inputs n)) = arity t)"

definition runnable :: "'v ast_graph \<Rightarrow> bool" where
  "runnable g \<longleftrightarrow> ordered_from (known_names g) (g_nodes g)
     \<and> (\<forall>(name, p) \<in> set (g_outputs g). p \<in> known_names g \<union> gn_id ` set (g_nodes g))
     \<and> (\<forall>n \<in> set (g_nodes g). operands_match n)"

lemma ordered_from_ids:
  "ordered_from known ns \<Longrightarrow> distinct (node_ids ns) \<and> gn_id ` set ns \<inter> known = {}"
  by (induction known ns rule: ordered_from.induct) auto

lemma ordered_from_append:
  "ordered_from known (us @ vs) \<longleftrightarrow> ordered_from known us \<and> ordered_from (known \<union> gn_id ` set us) vs"
  by (induction known us rule: ordered_from.induct) auto

lemma ordered_from_split:
  "ordered_from known (us @ n # vs) \<Longrightarrow> set (gn_inputs n) \<subseteq> known \<union> gn_id ` set us"
  by (simp add: ordered_from_append)

lemma ordered_from_nth:
  assumes "ordered_from known ns" and "j < length ns"
  shows "set (gn_inputs (ns ! j)) \<subseteq> known \<union> gn_id ` set (take j ns)"
  using ordered_from_split [of known "take j ns" "ns ! j" "drop (Suc j) ns"] assms
  by (simp add: id_take_nth_drop [symmetric])

lemma ordered_fromI:
  "distinct (node_ids ns) \<Longrightarrow> gn_id ` set ns \<inter> known = {} \<Longrightarrow>
    (\<And>us n vs. ns = us @ n # vs \<Longrightarrow> set (gn_inputs n) \<subseteq> known \<union> gn_id ` set us) \<Longrightarrow>
    ordered_from known ns"
proof (induction known ns rule: ordered_from.induct)
  case (1 known)
  then show ?case by simp
next
  case (2 known n ns)
  have "set (gn_inputs m) \<subseteq> insert (gn_id n) known \<union> gn_id ` set us" if "ns = us @ m # vs" for us m vs
    using 2(4) [of "n # us" m vs] that by auto
  with 2 2(4) [of "[]" n ns] show ?case by auto
qed

lemma run_nodes_simps [simp]:
  "run_nodes I [] env = env" "run_nodes I (n # ns) env = run_nodes I ns (run_node I n env)"
  by (simp_all add: run_nodes_def)

text \<open>Execution solves the nodes' equations and is their only solution.\<close>

lemma run_nodes_outside: "x \<notin> gn_id ` set ns \<Longrightarrow> run_nodes I ns env x = env x"
  by (induction ns arbitrary: env) (auto simp: run_node_def)

lemma run_nodes_satisfies: "ordered_from known ns \<Longrightarrow> satisfies I ns (run_nodes I ns env)"
proof (induction known ns arbitrary: env rule: ordered_from.induct)
  case (1 known)
  then show ?case by simp
next
  case (2 known n ns)
  let ?r = "run_nodes I ns (run_node I n env)"
  from 2(2) have "ordered_from (insert (gn_id n) known) ns" by simp
  then have out: "x \<notin> gn_id ` set ns" if "x \<in> insert (gn_id n) known" for x
    using conjunct2 [OF ordered_from_ids [of "insert (gn_id n) known" ns]] that by blast
  have eq: "map ?r (gn_inputs n) = map env (gn_inputs n)"
    using 2(2) out by (auto simp: run_nodes_outside run_node_def)
  moreover have "?r (gn_id n) = node_value I n (map env (gn_inputs n))"
    using out by (simp add: run_nodes_outside run_node_def)
  ultimately have "node_holds I ?r n" unfolding node_holds_def eq by simp
  with 2 show ?case by simp
qed

lemma run_nodes_unique:
  "ordered_from known ns \<Longrightarrow> satisfies I ns env \<Longrightarrow> \<forall>x \<in> known. env x = env0 x \<Longrightarrow>
    x \<in> known \<union> gn_id ` set ns \<Longrightarrow> run_nodes I ns env0 x = env x"
proof (induction known ns arbitrary: env0 rule: ordered_from.induct)
  case (1 known)
  then show ?case by simp
next
  case (2 known n ns)
  have eq: "map env0 (gn_inputs n) = map env (gn_inputs n)" using 2(2,4) by auto
  from 2(3) have "run_node I n env0 (gn_id n) = env (gn_id n)"
    unfolding run_node_def node_holds_def eq by simp
  with 2(2,4) have "\<forall>x \<in> insert (gn_id n) known. env x = run_node I n env0 x"
    by (auto simp: run_node_def)
  then show ?case using 2(1) [of "run_node I n env0"] 2(2,3,5) by auto
qed

text \<open>A graph as \<open>NormalizeGraph\<close> returns it is ordered.\<close>

lemma boundary_known: "insert [] (boundary_input_set g) = known_names g"
  by (auto simp: boundary_input_set_def known_names_def)

lemma normalized_ordered:
  assumes "distinct (node_ids ns)" and "[] \<notin> gn_id ` set ns"
    and "boundary_input_set g \<inter> gn_id ` set ns = {}"
    and "\<forall>us n vs. ns = us @ n # vs \<longrightarrow> (\<forall>i \<in> set (gn_inputs n).
            i = [] \<or> i \<in> boundary_input_set g \<or> i \<in> gn_id ` set us)"
  shows "ordered_from (known_names g) ns"
  using assms unfolding boundary_known [symmetric] by (intro ordered_fromI) auto

section \<open>The contract of a pass\<close>

text \<open>
  \<open>None\<close> is a pass that does not return. On a runnable graph a pass returns a runnable graph over
  the same graph inputs; whatever solves the nodes' equations before the pass solves them after it,
  and the graph outputs have the same names and values.
\<close>

locale graph_pass =
  fixes pass :: "'v ast_graph \<Rightarrow> 'v ast_graph option"
    and good :: "('v, 'a) interp \<Rightarrow> bool"
  assumes total: "runnable g \<Longrightarrow> \<exists>g'. pass g = Some g'"
    and keeps: "runnable g \<Longrightarrow> pass g = Some g' \<Longrightarrow> runnable g'"
    and same_inputs: "pass g = Some g' \<Longrightarrow> g_inputs g' = g_inputs g"
    and sound: "good I \<Longrightarrow> runnable g \<Longrightarrow> pass g = Some g' \<Longrightarrow> satisfies I (g_nodes g) env \<Longrightarrow>
      satisfies I (g_nodes g') env \<and> output_values g' env = output_values g env"
begin

lemma same_result:
  assumes "good I" and "runnable g" and "pass g = Some g'"
  shows "graph_result I g' env = graph_result I g env"
proof -
  let ?env = "run_nodes I (g_nodes g) env"
  have ord: "ordered_from (known_names g) (g_nodes g)" using assms(2) by (simp add: runnable_def)
  note sat = sound [OF assms run_nodes_satisfies [OF ord]]
  have kn: "known_names g' = known_names g" using same_inputs [OF assms(3)] by (simp add: known_names_def)
  have run': "runnable g'" by (rule keeps [OF assms(2,3)])
  then have ord': "ordered_from (known_names g) (g_nodes g')" by (simp add: runnable_def kn)
  have "\<forall>x \<in> known_names g. ?env x = env x"
    using ordered_from_ids [OF ord] run_nodes_outside [of _ "g_nodes g" I env] by blast
  then have "run_nodes I (g_nodes g') env x = ?env x" if "x \<in> known_names g \<union> gn_id ` set (g_nodes g')" for x
    using run_nodes_unique [OF ord' conjunct1 [OF sat]] that by blast
  then have "output_values g' (run_nodes I (g_nodes g') env) = output_values g' ?env"
    using run' by (auto simp: output_values_def runnable_def kn)
  then show ?thesis using sat by (simp add: graph_result_def)
qed

end

text \<open>Passes compose.\<close>

lemma compose_passes:
  fixes good :: "('v, 'a) interp \<Rightarrow> bool"
  assumes p: "graph_pass p good" and q: "graph_pass q good"
  shows "graph_pass (\<lambda>g. Option.bind (p g) q) good"
proof
  fix g g' :: "'v ast_graph"
  show "\<exists>g'. Option.bind (p g) q = Some g'" if r: "runnable g"
  proof -
    obtain g1 where g1: "p g = Some g1" using graph_pass.total [OF p r] by (elim exE)
    show ?thesis using graph_pass.total [OF q graph_pass.keeps [OF p r g1]] g1 by simp
  qed
next
  fix g g' :: "'v ast_graph"
  assume a: "runnable g" "Option.bind (p g) q = Some g'"
  then obtain g1 where g1: "p g = Some g1" "q g1 = Some g'" by (cases "p g") simp_all
  show "runnable g'" by (rule graph_pass.keeps [OF q graph_pass.keeps [OF p a(1) g1(1)] g1(2)])
next
  fix g g' :: "'v ast_graph"
  assume a: "Option.bind (p g) q = Some g'"
  then obtain g1 where g1: "p g = Some g1" "q g1 = Some g'" by (cases "p g") simp_all
  show "g_inputs g' = g_inputs g"
    using graph_pass.same_inputs [OF p g1(1)] graph_pass.same_inputs [OF q g1(2)] by simp
next
  fix I :: "('v, 'a) interp" and g g' :: "'v ast_graph" and env
  assume a: "good I" "runnable g" "Option.bind (p g) q = Some g'" "satisfies I (g_nodes g) env"
  then obtain g1 where g1: "p g = Some g1" "q g1 = Some g'" by (cases "p g") simp_all
  have s1: "satisfies I (g_nodes g1) env \<and> output_values g1 env = output_values g env"
    by (rule graph_pass.sound [OF p a(1,2) g1(1) a(4)])
  have "satisfies I (g_nodes g') env \<and> output_values g' env = output_values g1 env"
    by (rule graph_pass.sound [OF q a(1) graph_pass.keeps [OF p a(2) g1(1)] g1(2) conjunct1 [OF s1]])
  with s1 show "satisfies I (g_nodes g') env \<and> output_values g' env = output_values g env" by simp
qed

end
