(* ===== verification/Rewrite.thy ===== *)
theory Rewrite
  imports Constant_Fold
begin

text \<open>
  The algebraic rewrites of \<open>optimizer/rewrite.go\<close>: \<open>rewriteIdentities\<close> deletes identity nodes and
  sends their consumers to the surviving producer, \<open>flagScaleFolds\<close> annotates projections fed by a
  scalar multiplication. The chase through the redirect table may run for ever, so it is a partial
  function; Go ranges over the table in an unspecified order, and the result is shown not to
  depend on it.
\<close>

section \<open>The pass\<close>

definition removable :: "'v graph_node \<Rightarrow> bool" where
  "removable n \<longleftrightarrow> is_identity_node n \<and> length (gn_inputs n) = 1"

definition survivors :: "'v graph_node list \<Rightarrow> 'v graph_node list" where
  "survivors ns = filter (\<lambda>n. \<not> removable n) ns"

definition redirect_table :: "'v graph_node list \<Rightarrow> (string \<rightharpoonup> string)" where
  "redirect_table ns = fold (\<lambda>n m. if removable n then m(gn_id n \<mapsto> hd (gn_inputs n)) else m) ns Map.empty"

partial_function (option) chase :: "(string \<rightharpoonup> string) \<Rightarrow> string \<Rightarrow> string option" where
  "chase m x = (case m x of None \<Rightarrow> Some x | Some y \<Rightarrow> chase m y)"

text \<open>One entry after the other is replaced by the end of its chain, in the table itself.\<close>

fun compress :: "string list \<Rightarrow> (string \<rightharpoonup> string) \<Rightarrow> (string \<rightharpoonup> string) option" where
  "compress [] m = Some m"
| "compress (x # xs) m = Option.bind (chase m x) (\<lambda>y. compress xs (m(x \<mapsto> y)))"

definition redirected :: "(string \<rightharpoonup> string) \<Rightarrow> string \<Rightarrow> string" where
  "redirected m x = (case m x of None \<Rightarrow> x | Some y \<Rightarrow> y)"

definition redirect_inputs :: "(string \<rightharpoonup> string) \<Rightarrow> 'v graph_node \<Rightarrow> 'v graph_node" where
  "redirect_inputs m n = n\<lparr>gn_inputs := map (redirected m) (gn_inputs n)\<rparr>"

definition rewrite_identities :: "'v ast_graph \<Rightarrow> ('v ast_graph \<times> nat) option" where
  "rewrite_identities g =
     (let sources = map gn_id (filter removable (g_nodes g));
          m = redirect_table (g_nodes g)
      in if sources = [] then Some (g, 0)
         else Option.bind (compress sources m) (\<lambda>m.
           Some (g\<lparr>g_nodes := map (redirect_inputs m) (survivors (g_nodes g)),
                   g_outputs := map (\<lambda>(name, p). (name, redirected m p)) (g_outputs g)\<rparr>,
                 length sources)))"

definition consumer_count :: "'v graph_node list \<Rightarrow> string \<Rightarrow> nat" where
  "consumer_count ns x = count_list (concat (map gn_inputs ns)) x"

definition producer_map :: "'v graph_node list \<Rightarrow> (string \<rightharpoonup> 'v graph_node)" where
  "producer_map ns = fold (\<lambda>n m. m(gn_id n \<mapsto> n)) ns Map.empty"

text \<open>The scalar a projection absorbs, if any.\<close>

definition scale_of :: "'v graph_node list \<Rightarrow> 'v graph_node \<Rightarrow> 'v attr option" where
  "scale_of ns n =
     (if gn_op n \<noteq> ''projection.linear'' then None
      else case gn_inputs n of
        [i] \<Rightarrow> (case producer_map ns i of
            None \<Rightarrow> None
          | Some p \<Rightarrow>
              if gn_op p \<noteq> ''math.mul'' then None
              else if consumer_count ns (gn_id p) \<noteq> 1 then None
              else gn_attrs p ''scalar'')
      | _ \<Rightarrow> None)"

definition flag_node :: "'v graph_node list \<Rightarrow> 'v graph_node \<Rightarrow> 'v graph_node" where
  "flag_node ns n = (case scale_of ns n of
     None \<Rightarrow> n
   | Some a \<Rightarrow> n\<lparr>gn_attrs := (gn_attrs n)(fold_scale_attribute \<mapsto> a)\<rparr>)"

definition flag_scale_folds :: "'v ast_graph \<Rightarrow> 'v ast_graph \<times> nat" where
  "flag_scale_folds g =
     (g\<lparr>g_nodes := map (flag_node (g_nodes g)) (g_nodes g)\<rparr>,
      length (filter (\<lambda>n. scale_of (g_nodes g) n \<noteq> None) (g_nodes g)))"

record rewrite_stats =
  rs_identities_removed :: nat
  rs_scales_folded :: nat

definition rewrite ::
  "'v ast_graph option \<Rightarrow> (optimizer_error, 'v ast_graph \<times> rewrite_stats) res option" where
  "rewrite go = (case go of
     None \<Rightarrow> Some (Err GraphRequired)
   | Some g \<Rightarrow> Option.bind (rewrite_identities g) (\<lambda>(g1, removed).
       let (g2, scales) = flag_scale_folds g1
       in Some (Ok (g2, \<lparr>rs_identities_removed = removed, rs_scales_folded = scales\<rparr>))))"

section \<open>Chasing redirects\<close>

text \<open>A table whose entries point down along \<open>r\<close> has no cycle.\<close>

definition descending :: "(string \<Rightarrow> nat) \<Rightarrow> (string \<rightharpoonup> string) \<Rightarrow> bool" where
  "descending r m \<longleftrightarrow> (\<forall>x y. m x = Some y \<longrightarrow> r y < r x)"

lemma chase_None: "m x = None \<Longrightarrow> chase m x = Some x"
  by (subst chase.simps) simp

lemma chase_Some: "m x = Some y \<Longrightarrow> chase m x = chase m y"
  by (subst chase.simps) simp

lemma chase_ends:
  assumes d: "descending r m"
  shows "\<exists>y. chase m x = Some y \<and> m y = None \<and> (y = x \<or> r y < r x)"
proof (induction "r x" arbitrary: x rule: less_induct)
  case less
  show ?case
  proof (cases "m x")
    case None
    then show ?thesis by (simp add: chase_None)
  next
    case (Some z)
    with d have z: "r z < r x" by (simp add: descending_def)
    from less [OF this] obtain y where "chase m z = Some y" "m y = None" "y = z \<or> r y < r z" by blast
    with z Some show ?thesis by (auto simp: chase_Some)
  qed
qed

lemma chase_closed:
  assumes d: "descending r m" and c: "\<And>x y. x \<in> A \<Longrightarrow> m x = Some y \<Longrightarrow> y \<in> A"
  shows "x \<in> A \<Longrightarrow> chase m x = Some y \<Longrightarrow> y \<in> A"
proof (induction "r x" arbitrary: x rule: less_induct)
  case less
  show ?case
  proof (cases "m x")
    case None
    with less(2,3) show ?thesis by (simp add: chase_None)
  next
    case (Some z)
    with d have "r z < r x" by (simp add: descending_def)
    then show ?thesis using less(1) c [OF less(2) Some] less(3) Some by (simp add: chase_Some)
  qed
qed

lemma chase_eq:
  assumes d: "descending r m" and e: "\<And>x y. m x = Some y \<Longrightarrow> env x = env y"
  shows "chase m x = Some y \<Longrightarrow> env x = env y"
proof (induction "r x" arbitrary: x rule: less_induct)
  case less
  show ?case
  proof (cases "m x")
    case None
    with less(2) show ?thesis by (simp add: chase_None)
  next
    case (Some z)
    with d have "r z < r x" by (simp add: descending_def)
    then show ?thesis using less(1) e [OF Some] less(2) Some by (simp add: chase_Some)
  qed
qed

text \<open>Writing the end of a chain into the table keeps all ends.\<close>

lemma chase_shortcut:
  assumes d: "descending r m" and x: "m x \<noteq> None" "chase m x = Some y"
  shows "descending r (m(x \<mapsto> y)) \<and> chase (m(x \<mapsto> y)) z = chase m z"
proof
  obtain w where w: "m x = Some w" using x(1) by blast
  have y: "m y = None" "r y < r x" using chase_ends [OF d, of x] x by auto
  from d y(2) show "descending r (m(x \<mapsto> y))" by (simp add: descending_def)
  have ny: "y \<noteq> x" using y(2) by blast
  show "chase (m(x \<mapsto> y)) z = chase m z"
  proof (induction "r z" arbitrary: z rule: less_induct)
    case less
    show ?case
    proof (cases "z = x")
      case True
      have "chase (m(x \<mapsto> y)) x = chase (m(x \<mapsto> y)) y" by (rule chase_Some) simp
      also have "\<dots> = Some y" by (rule chase_None) (use y(1) ny in simp)
      finally show ?thesis using True x(2) by simp
    next
      case False
      show ?thesis
      proof (cases "m z")
        case None
        with False show ?thesis by (simp add: chase_None)
      next
        case (Some u)
        with d have "r u < r z" by (simp add: descending_def)
        from less [OF this] False Some show ?thesis by (simp add: chase_Some)
      qed
    qed
  qed
qed

lemma compress_spec:
  "descending r m \<Longrightarrow> set xs \<subseteq> dom m \<Longrightarrow>
    \<exists>m'. compress xs m = Some m' \<and> descending r m' \<and> dom m' = dom m \<and> (\<forall>z. chase m' z = chase m z)
      \<and> (\<forall>x \<in> dom m. m' x = (if x \<in> set xs then chase m x else m x))"
proof (induction xs arbitrary: m)
  case Nil
  then show ?case by simp
next
  case (Cons x xs)
  obtain y where y: "chase m x = Some y" using chase_ends [OF Cons.prems(1), of x] by blast
  have x: "m x \<noteq> None" using Cons.prems(2) by auto
  let ?m = "m(x \<mapsto> y)"
  have s: "descending r ?m" "\<And>z. chase ?m z = chase m z"
    using chase_shortcut [OF Cons.prems(1) x y] by simp_all
  have dom: "dom ?m = dom m" using x by auto
  then have "set xs \<subseteq> dom ?m" using Cons.prems(2) by simp
  from Cons.IH [OF s(1) this] obtain m' where m': "compress xs ?m = Some m'" "descending r m'" "dom m' = dom ?m"
    "\<forall>z. chase m' z = chase ?m z" "\<forall>z \<in> dom ?m. m' z = (if z \<in> set xs then chase ?m z else ?m z)" by blast
  have "\<forall>z \<in> dom m. m' z = (if z \<in> set (x # xs) then chase m z else m z)"
    using m'(5) y unfolding dom s(2) by auto
  then show ?case using m'(1-4) y s(2) dom by (intro exI [of _ m']) simp
qed

section \<open>The table of an ordered graph\<close>

lemma redirect_table_iff:
  assumes "distinct (node_ids ns)"
  shows "redirect_table ns x = Some y \<longleftrightarrow> (\<exists>n \<in> set ns. removable n \<and> gn_id n = x \<and> gn_inputs n = [y])"
  unfolding redirect_table_def using assms
proof (induction ns arbitrary: y rule: rev_induct)
  case Nil
  then show ?case by simp
next
  case (snoc n ns)
  let ?F = "fold (\<lambda>n m. if removable n then m(gn_id n \<mapsto> hd (gn_inputs n)) else m) ns Map.empty"
  from snoc.prems have d: "distinct (node_ids ns)" and n: "gn_id n \<notin> gn_id ` set ns" by simp_all
  note ih = snoc.IH [OF d]
  show ?case
  proof (cases "removable n")
    case False
    with ih show ?thesis by simp
  next
    case True
    then obtain i where i: "gn_inputs n = [i]" by (auto simp: removable_def length_Suc_conv)
    show ?thesis
    proof (cases "x = gn_id n")
      case True
      then have "\<forall>k \<in> set ns. gn_id k \<noteq> x" using n by (metis imageI)
      with \<open>removable n\<close> i True show ?thesis by auto
    next
      case False
      with \<open>removable n\<close> ih show ?thesis by simp
    qed
  qed
qed

text \<open>A name's place in the list; names from outside come first.\<close>

fun place :: "'v graph_node list \<Rightarrow> string \<Rightarrow> nat" where
  "place [] x = 0"
| "place (n # ns) x = (if gn_id n = x then 1 else if x \<in> gn_id ` set ns then Suc (place ns x) else 0)"

lemma place_ordered:
  "ordered_from known ns \<Longrightarrow> n \<in> set ns \<Longrightarrow> i \<in> set (gn_inputs n) \<Longrightarrow> place ns i < place ns (gn_id n)"
proof (induction known ns rule: ordered_from.induct)
  case (1 known)
  then show ?case by simp
next
  case (2 known m ns)
  from 2(2) have out: "gn_id m \<notin> gn_id ` set ns" "gn_id ` set ns \<inter> known = {}"
    using ordered_from_ids [of "insert (gn_id m) known" ns] by simp_all
  show ?case
  proof (cases "n = m")
    case True
    with 2(2,4) have "i \<in> known" "i \<noteq> gn_id m" by auto
    with out have "place (m # ns) i = 0" by auto
    with True show ?thesis by simp
  next
    case False
    with 2(3) have n: "n \<in> set ns" by simp
    then have "gn_id n \<noteq> gn_id m" using out(1) by (metis imageI)
    moreover have "place ns i < place ns (gn_id n)" using 2 n by simp
    ultimately show ?thesis using n by simp
  qed
qed

lemma redirect_table_descending:
  assumes "ordered_from known ns"
  shows "descending (place ns) (redirect_table ns)"
  using place_ordered [OF assms] redirect_table_iff [of ns] ordered_from_ids [OF assms]
  by (auto simp: descending_def)

lemma redirect_table_dom:
  assumes "distinct (node_ids ns)"
  shows "dom (redirect_table ns) = set (map gn_id (filter removable ns))"
proof -
  have "(\<exists>y. gn_inputs n = [y])" if "removable n" for n :: "'a graph_node"
    using that by (auto simp: removable_def length_Suc_conv)
  then show ?thesis using redirect_table_iff [OF assms] unfolding dom_def by fastforce
qed

text \<open>After compression a name is redirected to the end of its chain in one step.\<close>

definition chain_end :: "'v graph_node list \<Rightarrow> string \<Rightarrow> string" where
  "chain_end ns x = the (chase (redirect_table ns) x)"

lemma chase_chain_end:
  "ordered_from known ns \<Longrightarrow> chase (redirect_table ns) x = Some (chain_end ns x)"
  using chase_ends [OF redirect_table_descending, of known ns x] by (auto simp: chain_end_def)

lemma chain_end_survives:
  assumes "ordered_from known ns" and "removable n" and "n \<in> set ns"
  shows "chain_end ns x \<noteq> gn_id n"
proof -
  have "redirect_table ns (chain_end ns x) = None"
    using chase_ends [OF redirect_table_descending [OF assms(1)], of x] chase_chain_end [OF assms(1), of x] by auto
  then have "chain_end ns x \<notin> dom (redirect_table ns)" by auto
  then show ?thesis using assms ordered_from_ids [OF assms(1)] by (auto simp: redirect_table_dom)
qed

lemma compress_table:
  assumes ord: "ordered_from known ns" and xs: "set xs = dom (redirect_table ns)"
  shows "\<exists>m. compress xs (redirect_table ns) = Some m \<and> redirected m = chain_end ns"
proof -
  let ?t = "redirect_table ns"
  from compress_spec [OF redirect_table_descending [OF ord], of xs] xs
  obtain m where m: "compress xs ?t = Some m" "dom m = dom ?t"
    "\<forall>x \<in> dom ?t. m x = (if x \<in> set xs then chase ?t x else ?t x)" by auto
  have "redirected m x = chain_end ns x" for x
  proof (cases "x \<in> dom ?t")
    case True
    with m(3) xs chase_chain_end [OF ord, of x] show ?thesis by (simp add: redirected_def)
  next
    case False
    then have "?t x = None" "m x = None" using m(2) by auto
    then show ?thesis by (simp add: redirected_def chain_end_def chase_None)
  qed
  with m(1) show ?thesis by blast
qed

text \<open>
  Go's \<open>range\<close> visits the table in any order: every order gives the same table.
\<close>

lemma compress_any_order:
  assumes ord: "ordered_from known ns" and xs: "set xs = dom (redirect_table ns)" "set ys = dom (redirect_table ns)"
  shows "compress xs (redirect_table ns) = compress ys (redirect_table ns)"
proof -
  let ?t = "redirect_table ns"
  note spec = compress_spec [OF redirect_table_descending [OF ord]]
  obtain m where m: "compress xs ?t = Some m" "dom m = dom ?t"
    "\<forall>x \<in> dom ?t. m x = (if x \<in> set xs then chase ?t x else ?t x)" using spec [of xs] xs by blast
  obtain k where k: "compress ys ?t = Some k" "dom k = dom ?t"
    "\<forall>x \<in> dom ?t. k x = (if x \<in> set ys then chase ?t x else ?t x)" using spec [of ys] xs by blast
  have "m x = k x" for x
  proof (cases "x \<in> dom ?t")
    case True
    with m(3) k(3) xs show ?thesis by simp
  next
    case False
    then have "x \<notin> dom m" "x \<notin> dom k" using m(2) k(2) by simp_all
    then show ?thesis by (simp add: domIff)
  qed
  then have "m = k" by (rule ext)
  with m(1) k(1) show ?thesis by simp
qed

lemma chain_end_value:
  assumes ord: "ordered_from known ns" and sat: "satisfies I ns env"
  shows "env (chain_end ns x) = env x"
proof -
  have dist: "distinct (node_ids ns)" using ordered_from_ids [OF ord] by (rule conjunct1)
  have "env a = env b" if "redirect_table ns a = Some b" for a b
  proof -
    from that have "\<exists>n \<in> set ns. removable n \<and> gn_id n = a \<and> gn_inputs n = [b]"
      unfolding redirect_table_iff [OF dist] .
    then obtain n where n: "n \<in> set ns" "removable n" "gn_id n = a" "gn_inputs n = [b]" by blast
    from sat n(1) have "env a = node_value I n [env b]" unfolding node_holds_def n(3) [symmetric] by (simp add: n(4))
    with n(2) show ?thesis by (simp add: removable_def node_value_identity)
  qed
  from chase_eq [OF redirect_table_descending [OF ord], of env, OF this chase_chain_end [OF ord]]
  show ?thesis by simp
qed

lemma chain_end_known:
  assumes ord: "ordered_from known (us @ vs)"
  shows "x \<in> known \<union> gn_id ` set us \<Longrightarrow>
    chain_end (us @ vs) x \<in> known \<union> gn_id ` set (survivors us)"
proof -
  let ?ns = "us @ vs"
  assume x: "x \<in> known \<union> gn_id ` set us"
  have dist: "distinct (node_ids ?ns)" "gn_id ` set ?ns \<inter> known = {}" using ordered_from_ids [OF ord] by simp_all
  have closed: "b \<in> known \<union> gn_id ` set us" if a: "a \<in> known \<union> gn_id ` set us" and b: "redirect_table ?ns a = Some b" for a b
  proof -
    obtain n where n: "n \<in> set ?ns" "removable n" "gn_id n = a" "gn_inputs n = [b]"
      using b redirect_table_iff [OF dist(1)] by blast
    have "n \<in> set us"
    proof (rule ccontr)
      assume "n \<notin> set us"
      with n(1) have "n \<in> set vs" by simp
      with n(3) dist have "a \<notin> gn_id ` set us" by auto
      moreover have "a \<notin> known" using dist(2) n(1,3) by blast
      ultimately show False using a by simp
    qed
    then obtain ps qs where "us = ps @ n # qs" by (auto dest: split_list)
    then have "set (gn_inputs n) \<subseteq> known \<union> gn_id ` set ps"
      using ordered_from_split [of known ps n "qs @ vs"] ord by simp
    with n(4) \<open>us = ps @ n # qs\<close> show ?thesis by auto
  qed
  have e: "chain_end ?ns x \<in> known \<union> gn_id ` set us"
    by (rule chase_closed [OF redirect_table_descending [OF ord] closed x chase_chain_end [OF ord]])
  have "chain_end ?ns x \<noteq> gn_id n" if "n \<in> set us \<and> removable n" for n
    using chain_end_survives [OF ord, of n x] that by simp
  with e show ?thesis by (auto simp: survivors_def)
qed

lemma operands_match_cong:
  "gn_op n' = gn_op n \<Longrightarrow> length (gn_inputs n') = length (gn_inputs n) \<Longrightarrow> operands_match n' = operands_match n"
  by (simp add: operands_match_def split: option.split)

lemma redirect_inputs_simps [simp]:
  "gn_id (redirect_inputs m n) = gn_id n" "gn_op (redirect_inputs m n) = gn_op n"
  "gn_attrs (redirect_inputs m n) = gn_attrs n"
  "gn_inputs (redirect_inputs m n) = map (redirected m) (gn_inputs n)"
  by (simp_all add: redirect_inputs_def)

lemma survivors_ordered:
  assumes red: "redirected m = chain_end ns"
  shows "ns = us @ vs \<Longrightarrow> ordered_from known ns \<Longrightarrow>
    ordered_from (known \<union> gn_id ` set (survivors us)) (map (redirect_inputs m) (survivors vs))"
proof (induction vs arbitrary: us)
  case Nil
  then show ?case by (simp add: survivors_def)
next
  case (Cons n vs)
  from Cons.prems have ord: "ordered_from known (us @ n # vs)" by simp
  have dist: "gn_id n \<notin> known" "gn_id n \<notin> gn_id ` set us"
    using ordered_from_ids [OF ord] by auto
  have ih: "ordered_from (known \<union> gn_id ` set (survivors (us @ [n]))) (map (redirect_inputs m) (survivors vs))"
    using Cons.IH [of "us @ [n]"] Cons.prems by simp
  show ?case
  proof (cases "removable n")
    case True
    with ih show ?thesis by (simp add: survivors_def)
  next
    case False
    have "redirected m i \<in> known \<union> gn_id ` set (survivors us)" if "i \<in> set (gn_inputs n)" for i
      unfolding red Cons.prems(1) by (rule chain_end_known [OF ord]) (use ordered_from_split [OF ord] that in blast)
    moreover have "gn_id n \<notin> gn_id ` set (survivors us)" using dist(2) by (auto simp: survivors_def)
    ultimately show ?thesis using False ih dist(1) by (auto simp: survivors_def)
  qed
qed

section \<open>The contract\<close>

definition rewrite_identities_pass :: "'v ast_graph \<Rightarrow> 'v ast_graph option" where
  "rewrite_identities_pass g = map_option fst (rewrite_identities g)"

lemma rewrite_identities_eq:
  assumes "ordered_from known (g_nodes g)"
  shows "\<exists>m. redirected m = chain_end (g_nodes g) \<and> rewrite_identities g =
    Some (g\<lparr>g_nodes := map (redirect_inputs m) (survivors (g_nodes g)),
            g_outputs := map (\<lambda>(name, p). (name, redirected m p)) (g_outputs g)\<rparr>,
          length (filter removable (g_nodes g)))"
proof -
  let ?ns = "g_nodes g" and ?sources = "map gn_id (filter removable (g_nodes g))"
  have dom: "dom (redirect_table ?ns) = set ?sources"
    by (rule redirect_table_dom) (use ordered_from_ids [OF assms] in simp)
  obtain m where m: "compress ?sources (redirect_table ?ns) = Some m" "redirected m = chain_end ?ns"
    using compress_table [OF assms dom [symmetric]] by blast
  show ?thesis
  proof (cases "?sources = []")
    case False
    with m show ?thesis by (intro exI [of _ m]) (simp add: rewrite_identities_def)
  next
    case True
    then have "m = Map.empty" using m(1) dom by simp
    then have id: "redirected m = (\<lambda>x. x)" by (simp add: redirected_def fun_eq_iff)
    have "filter removable ?ns = []" using True by simp
    then have "survivors ?ns = ?ns" by (simp add: survivors_def filter_empty_conv)
    moreover have "redirect_inputs m n = n" for n :: "'a graph_node" by (simp add: redirect_inputs_def id)
    moreover have "rewrite_identities g = Some (g, 0)" using True by (simp add: rewrite_identities_def)
    moreover have "map (\<lambda>(name, p). (name, redirected m p)) (g_outputs g) = g_outputs g" by (simp add: id)
    moreover have "map (redirect_inputs m) (g_nodes g) = g_nodes g"
      using \<open>\<And>n. redirect_inputs m n = n\<close> by (simp add: map_idI)
    ultimately have "rewrite_identities g = Some (g\<lparr>g_nodes := map (redirect_inputs m) (survivors ?ns),
        g_outputs := map (\<lambda>(name, p). (name, redirected m p)) (g_outputs g)\<rparr>, 0)" by simp
    then show ?thesis using True m(2) by (intro exI [of _ m]) simp
  qed
qed

interpretation identities: graph_pass rewrite_identities_pass "\<lambda>I :: ('v, 'a) interp. True"
proof
  fix g :: "'v ast_graph"
  show "runnable g \<Longrightarrow> \<exists>g'. rewrite_identities_pass g = Some g'"
    using rewrite_identities_eq [of "known_names g" g] by (auto simp: runnable_def rewrite_identities_pass_def)
next
  fix g g' :: "'v ast_graph"
  assume "rewrite_identities_pass g = Some g'"
  then show "g_inputs g' = g_inputs g"
    by (auto simp: rewrite_identities_pass_def rewrite_identities_def Let_def bind_eq_Some_conv split: if_splits)
next
  fix g g' :: "'v ast_graph"
  assume r: "runnable g" and p: "rewrite_identities_pass g = Some g'"
  from r have ord: "ordered_from (known_names g) (g_nodes g)" by (simp add: runnable_def)
  obtain m where m: "redirected m = chain_end (g_nodes g)"
    and eq: "g' = g\<lparr>g_nodes := map (redirect_inputs m) (survivors (g_nodes g)),
            g_outputs := map (\<lambda>(name, p). (name, redirected m p)) (g_outputs g)\<rparr>"
    using rewrite_identities_eq [OF ord] p by (auto simp: rewrite_identities_pass_def)
  have kn: "known_names g' = known_names g" by (simp add: eq known_names_def)
  have "ordered_from (known_names g) (g_nodes g')"
    using survivors_ordered [OF m, of "[]" "g_nodes g" "known_names g"] ord by (simp add: eq survivors_def)
  moreover have "redirected m q \<in> known_names g \<union> gn_id ` set (survivors (g_nodes g))"
    if "(name, q) \<in> set (g_outputs g)" for name q
    using chain_end_known [of "known_names g" "g_nodes g" "[]" q] r that ord m by (auto simp: runnable_def)
  moreover have "operands_match (redirect_inputs m n)" if "n \<in> set (survivors (g_nodes g))" for n
    using r that operands_match_cong [of "redirect_inputs m n" n] by (auto simp: runnable_def survivors_def)
  ultimately show "runnable g'" unfolding runnable_def kn by (auto simp: eq image_image)
next
  fix I :: "('v, 'a) interp" and g g' :: "'v ast_graph" and env
  assume r: "runnable g" and p: "rewrite_identities_pass g = Some g'" and sat: "satisfies I (g_nodes g) env"
  from r have ord: "ordered_from (known_names g) (g_nodes g)" by (simp add: runnable_def)
  obtain m where m: "redirected m = chain_end (g_nodes g)"
    and eq: "g' = g\<lparr>g_nodes := map (redirect_inputs m) (survivors (g_nodes g)),
            g_outputs := map (\<lambda>(name, p). (name, redirected m p)) (g_outputs g)\<rparr>"
    using rewrite_identities_eq [OF ord] p by (auto simp: rewrite_identities_pass_def)
  have same: "env (redirected m x) = env x" for x using chain_end_value [OF ord sat, of x] m by simp
  have "node_holds I env (redirect_inputs m n)" if "n \<in> set (g_nodes g)" for n
  proof -
    have "map env (gn_inputs (redirect_inputs m n)) = map env (gn_inputs n)" by (simp add: same)
    then have "node_value I (redirect_inputs m n) (map env (gn_inputs (redirect_inputs m n)))
        = node_value I n (map env (gn_inputs n))"
      unfolding redirect_inputs_def by (simp only: node_value_inputs)
    then show ?thesis using sat that unfolding node_holds_def by (simp only: redirect_inputs_simps)
  qed
  then have "satisfies I (g_nodes g') env" by (auto simp: eq survivors_def)
  moreover have "output_values g' env = output_values g env"
    by (auto simp: output_values_def eq same)
  ultimately show "satisfies I (g_nodes g') env \<and> output_values g' env = output_values g env" by simp
qed

definition flag_scale_folds_pass :: "'v ast_graph \<Rightarrow> 'v ast_graph option" where
  "flag_scale_folds_pass g = Some (fst (flag_scale_folds g))"

text \<open>Setting attributes on the nodes, one by one, keeps everything but the attributes.\<close>

lemma attrs_only_ordered:
  assumes "\<And>n. gn_id (f n) = gn_id n" and "\<And>n. gn_inputs (f n) = gn_inputs n"
  shows "ordered_from known (map f ns) \<longleftrightarrow> ordered_from known ns"
  by (induction known ns rule: ordered_from.induct) (simp_all add: assms)

lemma annotation_pass:
  assumes f: "\<And>g n. f g n = n \<or> (\<exists>k a. (k = tile_attribute \<or> k = fold_scale_attribute)
      \<and> f g n = n\<lparr>gn_attrs := (gn_attrs n)(k \<mapsto> a)\<rparr>)"
  shows "graph_pass (\<lambda>g. Some (g\<lparr>g_nodes := map (f g) (g_nodes g)\<rparr>)) good"
proof -
  have same [simp]: "gn_id (f g n) = gn_id n" "gn_inputs (f g n) = gn_inputs n" "gn_op (f g n) = gn_op n" for g n
    using f [of g n] by auto
  have ids: "gn_id ` f g ` A = gn_id ` A" for g A by (simp add: image_image)
  have nv: "node_value I (f g n) args = node_value I n args" for I :: "('a, 'b) interp" and g n args
  proof -
    consider "f g n = n" | k a where "k = tile_attribute \<or> k = fold_scale_attribute"
      "f g n = n\<lparr>gn_attrs := (gn_attrs n)(k \<mapsto> a)\<rparr>" using f [of g n] by blast
    then show ?thesis
    proof cases
      case 1
      then show ?thesis by simp
    next
      case 2
      show ?thesis unfolding 2(2) by (rule node_value_annotation [OF 2(1)])
    qed
  qed
  have holds: "node_holds I env (f g n) = node_holds I env n" for I :: "('a, 'b) interp" and env g n
    unfolding node_holds_def same nv by (rule refl)
  have ops: "operands_match (f g n) = operands_match n" for g n by (rule operands_match_cong) simp_all
  show ?thesis
  proof
    fix I :: "('a, 'b) interp" and g g' :: "'a ast_graph" and env
    assume "Some (g\<lparr>g_nodes := map (f g) (g_nodes g)\<rparr>) = Some g'" and "satisfies I (g_nodes g) env"
    then show "satisfies I (g_nodes g') env \<and> output_values g' env = output_values g env"
      using holds by (auto simp: output_values_def)
  next
    fix g g' :: "'a ast_graph"
    assume "runnable g" and "Some (g\<lparr>g_nodes := map (f g) (g_nodes g)\<rparr>) = Some g'"
    then show "runnable g'" by (auto simp: runnable_def known_names_def attrs_only_ordered ids ops)
  qed auto
qed

interpretation scale_flags: graph_pass flag_scale_folds_pass good for good :: "('v, 'a) interp \<Rightarrow> bool"
proof -
  have "flag_scale_folds_pass = (\<lambda>g :: 'v ast_graph. Some (g\<lparr>g_nodes := map (flag_node (g_nodes g)) (g_nodes g)\<rparr>))"
    by (simp add: fun_eq_iff flag_scale_folds_pass_def flag_scale_folds_def)
  moreover have "graph_pass (\<lambda>g :: 'v ast_graph. Some (g\<lparr>g_nodes := map (flag_node (g_nodes g)) (g_nodes g)\<rparr>)) good"
    by (rule annotation_pass) (auto simp: flag_node_def split: option.split)
  ultimately show "graph_pass flag_scale_folds_pass good" by simp
qed

section \<open>The whole pass\<close>

definition rewrite_pass :: "'v ast_graph \<Rightarrow> 'v ast_graph option" where
  "rewrite_pass g = Option.bind (rewrite_identities_pass g) flag_scale_folds_pass"

interpretation rewriting: graph_pass rewrite_pass "\<lambda>I :: ('v, 'a) interp. True"
proof -
  have "rewrite_pass = (\<lambda>g :: 'v ast_graph. Option.bind (rewrite_identities_pass g) flag_scale_folds_pass)"
    by (simp add: fun_eq_iff rewrite_pass_def)
  moreover have "graph_pass (\<lambda>g :: 'v ast_graph. Option.bind (rewrite_identities_pass g) flag_scale_folds_pass)
      (\<lambda>I :: ('v, 'a) interp. True)"
    by (rule compose_passes) (rule identities.graph_pass_axioms scale_flags.graph_pass_axioms)+
  ultimately show "graph_pass (rewrite_pass :: 'v ast_graph \<Rightarrow> _) (\<lambda>I :: ('v, 'a) interp. True)" by simp
qed

lemma rewrite_pass_eq:
  "rewrite (Some g) = Some (Ok (g', st)) \<Longrightarrow> rewrite_pass g = Some g'"
proof -
  assume a: "rewrite (Some g) = Some (Ok (g', st))"
  obtain g1 k where i: "rewrite_identities g = Some (g1, k)"
    using a by (cases "rewrite_identities g") (auto simp: rewrite_def)
  obtain g2 j where f: "flag_scale_folds g1 = (g2, j)" by (cases "flag_scale_folds g1")
  have "g' = g2" using a i f by (simp add: rewrite_def)
  then show "rewrite_pass g = Some g'"
    by (simp add: rewrite_pass_def rewrite_identities_pass_def flag_scale_folds_pass_def i f)
qed

lemma flag_scale_folds_simps [simp]:
  "length (g_nodes (fst (flag_scale_folds g))) = length (g_nodes g)"
  by (simp add: flag_scale_folds_def)

lemma flag_node_removable [simp]: "removable (flag_node ns n) = removable n"
  by (simp add: flag_node_def removable_def is_identity_node_def split: option.split)

text \<open>
  C15. \<open>Rewrite\<close> returns on every runnable graph. The result is runnable and has the same outputs
  for every interpretation of the operators and every value of the graph inputs, no identity node
  with one input is left in it, and the counter accounts for the nodes that are gone.
\<close>

theorem rewrite_correct:
  fixes g :: "'v ast_graph"
  assumes "runnable g"
  shows "\<exists>g' st. rewrite (Some g) = Some (Ok (g', st)) \<and> runnable g'
    \<and> (\<forall>(I :: ('v, 'a) interp) env. graph_result I g' env = graph_result I g env)
    \<and> filter removable (g_nodes g') = []
    \<and> length (g_nodes g') + rs_identities_removed st = length (g_nodes g)"
proof -
  from assms have ord: "ordered_from (known_names g) (g_nodes g)" by (simp add: runnable_def)
  obtain m where m: "rewrite_identities g =
    Some (g\<lparr>g_nodes := map (redirect_inputs m) (survivors (g_nodes g)),
            g_outputs := map (\<lambda>(name, p). (name, redirected m p)) (g_outputs g)\<rparr>,
          length (filter removable (g_nodes g)))" (is "_ = Some (?g1, ?k)")
    using rewrite_identities_eq [OF ord] by blast
  obtain g2 j where f: "flag_scale_folds ?g1 = (g2, j)" by (cases "flag_scale_folds ?g1")
  let ?st = "\<lparr>rs_identities_removed = ?k, rs_scales_folded = j\<rparr>"
  have r: "rewrite (Some g) = Some (Ok (g2, ?st))" by (simp add: rewrite_def m f)
  note p = rewrite_pass_eq [OF r]
  have "graph_result I g2 env = graph_result I g env" for I :: "('v, 'a) interp" and env
    by (rule rewriting.same_result [OF TrueI assms p])
  moreover have g2: "g_nodes g2 = map (flag_node (g_nodes ?g1)) (g_nodes ?g1)"
    using f by (auto simp: flag_scale_folds_def)
  moreover have "removable (redirect_inputs m n) = removable n" for n :: "'v graph_node"
    by (simp add: removable_def is_identity_node_def)
  then have "filter removable (g_nodes g2) = []"
    unfolding g2 by (auto simp: filter_empty_conv survivors_def)
  moreover have "length (g_nodes g2) + ?k = length (g_nodes g)"
    using sum_length_filter_compl [of removable "g_nodes g"] by (simp add: g2 survivors_def)
  ultimately show ?thesis using r rewriting.keeps [OF assms p]
    by (intro exI [of _ g2] exI [of _ ?st]) simp
qed

definition identity_graph :: "int ast_graph" where
  "identity_graph = loop_graph\<lparr>g_nodes :=
     [plain_node ''a'' [''x'', ''x''],
      (plain_node ''i'' [''a''])\<lparr>gn_op := ''shape.identity''\<rparr>,
      (plain_node ''j'' [''i''])\<lparr>gn_op := ''control.identity''\<rparr>,
      plain_node ''b'' [''j'', ''i'']]\<rparr>"

lemma runnable_identity_graph: "runnable identity_graph"
  by (simp add: runnable_def identity_graph_def loop_graph_def plain_node_def known_names_def
      operands_match_def arity_def)

theorem rewrite_correct_witness:
  "\<exists>g' st. rewrite (Some identity_graph) = Some (Ok (g', st)) \<and> runnable g'
    \<and> length (g_nodes g') + rs_identities_removed st = 4"
proof -
  have "length (g_nodes identity_graph) = 4" by (simp add: identity_graph_def)
  then show ?thesis using rewrite_correct [OF runnable_identity_graph] by (elim exE conjE) (intro exI conjI, simp_all)
qed

text \<open>A chain that never leaves a set of entries never ends.\<close>

lemma chase_diverges:
  assumes "\<forall>s \<in> S. \<exists>t \<in> S. m s = Some t" and "x \<in> S"
  shows "chase m x = None"
proof -
  have "(case p of (k, x) \<Rightarrow> \<lambda>y. \<not> (x \<in> S \<and> (\<forall>s \<in> S. \<exists>t \<in> S. k s = Some t))) y"
    if "(case p of (k, x) \<Rightarrow> chase k x) = Some y" for p y
  proof (rule chase.raw_induct [OF _ that, where P = "\<lambda>k x y. \<not> (x \<in> S \<and> (\<forall>s \<in> S. \<exists>t \<in> S. k s = Some t))"])
    fix ch :: "(string \<rightharpoonup> string) \<Rightarrow> string \<Rightarrow> string option" and k x y
    assume ih: "\<And>k x y. ch k x = Some y \<Longrightarrow> \<not> (x \<in> S \<and> (\<forall>s \<in> S. \<exists>t \<in> S. k s = Some t))"
      and eq: "(case k x of None \<Rightarrow> Some x | Some y \<Rightarrow> ch k y) = Some y"
    show "\<not> (x \<in> S \<and> (\<forall>s \<in> S. \<exists>t \<in> S. k s = Some t))"
    proof
      assume s: "x \<in> S \<and> (\<forall>s \<in> S. \<exists>t \<in> S. k s = Some t)"
      then obtain t where t: "t \<in> S" "k x = Some t" by blast
      with eq have "ch k t = Some y" by simp
      from ih [OF this] t(1) s show False by blast
    qed
  qed
  note this [of "(m, x)", unfolded prod.case]
  with assms have "chase m x \<noteq> Some y" for y by blast
  then show ?thesis using option.exhaust by blast
qed

lemma compress_diverges:
  "\<forall>s \<in> S. \<exists>t \<in> S. m s = Some t \<Longrightarrow> set xs \<inter> S \<noteq> {} \<Longrightarrow> compress xs m = None"
proof (induction xs arbitrary: m)
  case Nil
  then show ?case by simp
next
  case (Cons x xs)
  show ?case
  proof (cases "x \<in> S")
    case True
    then show ?thesis using chase_diverges [OF Cons.prems(1)] by simp
  next
    case False
    then have "\<forall>s \<in> S. \<exists>t \<in> S. (m(x \<mapsto> y)) s = Some t" for y using Cons.prems(1) by auto
    then show ?thesis using Cons.IH Cons.prems(2) False by (cases "chase m x") auto
  qed
qed

text \<open>
  C29. The chase through the redirects has no guard against a cycle: on a graph in which some
  identity nodes feed only each other \<open>Rewrite\<close> does not return.
\<close>

theorem rewrite_diverges_on_identity_cycle:
  assumes "distinct (node_ids (g_nodes g))" and "S \<noteq> {}"
    and "\<forall>s \<in> S. \<exists>n \<in> set (g_nodes g). gn_id n = s \<and> is_identity_node n \<and> (\<exists>t \<in> S. gn_inputs n = [t])"
  shows "rewrite (Some g) = None"
proof -
  let ?ns = "g_nodes g" and ?sources = "map gn_id (filter removable (g_nodes g))"
  have t: "\<exists>t \<in> S. redirect_table ?ns s = Some t" if s: "s \<in> S" for s
  proof -
    obtain n t where n: "n \<in> set ?ns" "gn_id n = s" "is_identity_node n" "t \<in> S" "gn_inputs n = [t]"
      using bspec [OF assms(3) s] by (elim bexE conjE)
    then have "redirect_table ?ns s = Some t"
      unfolding redirect_table_iff [OF assms(1)] by (intro bexI [of _ n]) (simp_all add: removable_def)
    with n(4) show ?thesis by blast
  qed
  then have "S \<subseteq> dom (redirect_table ?ns)" by blast
  then have S: "S \<subseteq> set ?sources" unfolding redirect_table_dom [OF assms(1)] .
  with assms(2) have "compress ?sources (redirect_table ?ns) = None"
    by (intro compress_diverges [of S]) (use t in auto)
  moreover have "?sources \<noteq> []"
  proof
    assume "?sources = []"
    with S have "S \<subseteq> {}" by (simp only: list.set)
    with assms(2) show False by simp
  qed
  ultimately have "rewrite_identities g = None" unfolding rewrite_identities_def Let_def by simp
  then show ?thesis by (simp add: rewrite_def)
qed

theorem rewrite_diverges_on_identity_cycle_witness:
  "rewrite (Some (loop_graph\<lparr>g_nodes := [(plain_node ''a'' [''b''])\<lparr>gn_op := ''shape.identity''\<rparr>,
     (plain_node ''b'' [''a''])\<lparr>gn_op := ''shape.identity''\<rparr>]\<rparr>)) = None"
  by (rule rewrite_diverges_on_identity_cycle [where S = "{''a'', ''b''}"])
    (simp_all add: plain_node_def is_identity_node_def)

end
