(* ===== verification/Tiling.thy ===== *)
theory Tiling
  imports Rewrite
begin

text \<open>
  The cache-tiling pass of \<open>optimizer/tiling.go\<close>: \<open>pickTile\<close> grows a square tile by whole vectors
  until it no longer fits a quarter of L1, on int64 arithmetic written out with its wrap-around, and
  \<open>Tile\<close> attaches the result to the heavy operations. The growing loop has no bound of its own, so
  it is a partial function; for hardware-sized targets it is shown to end.
\<close>

record tile_target_config =
  tt_l1_bytes :: int
  tt_l2_bytes :: int
  tt_vector :: int

definition default_tile_target :: tile_target_config where
  "default_tile_target = \<lparr>tt_l1_bytes = 32 * 1024, tt_l2_bytes = 256 * 1024, tt_vector = 8\<rparr>"

definition is_heavy_op :: "string \<Rightarrow> bool" where
  "is_heavy_op op \<longleftrightarrow> op \<in> {''math.matmul'', ''projection.linear'', ''convolution.conv1d'',
     ''convolution.conv2d'', ''convolution.conv3d''}"

definition tile_footprint_of :: "int \<Rightarrow> int" where
  "tile_footprint_of side = wrap64 (wrap64 (wrap64 (side * side) + wrap64 (2 * side)) * 4)"

partial_function (option) grow_side :: "int \<Rightarrow> int \<Rightarrow> int \<Rightarrow> int option" where
  "grow_side budget vector side =
     (if tile_footprint_of side > budget then Some side
      else grow_side budget vector (wrap64 (side + vector)))"

definition tile_budget :: "tile_target_config \<Rightarrow> int" where
  "tile_budget t = (let budget = tt_l1_bytes t sdiv 4 in if budget < 256 then 256 else budget)"

definition tile_vector :: "tile_target_config \<Rightarrow> int" where
  "tile_vector t = (if tt_vector t \<le> 0 then 4 else tt_vector t)"

definition pick_tile :: "tile_target_config \<Rightarrow> tile_config option" where
  "pick_tile t = (let vector = tile_vector t in
     Option.bind (grow_side (tile_budget t) vector vector) (\<lambda>grown.
       let shrunk = wrap64 (grown - vector);
           side = (if shrunk < vector then vector else shrunk)
       in Some \<lparr>tile_rows = side, tile_inner = side, tile_cols = side,
                tile_footprint = wrap64 (wrap64 (side * side) * 4)\<rparr>))"

definition tile_node :: "tile_target_config \<Rightarrow> 'v graph_node \<Rightarrow> ('v graph_node \<times> nat) option" where
  "tile_node t n =
     (if \<not> is_heavy_op (gn_op n) then Some (n, 0)
      else if gn_attrs n tile_attribute \<noteq> None then Some (n, 0)
      else Option.bind (pick_tile t) (\<lambda>c.
        Some (n\<lparr>gn_attrs := (gn_attrs n)(tile_attribute \<mapsto> ATile c)\<rparr>, 1)))"

fun tile_nodes :: "tile_target_config \<Rightarrow> 'v graph_node list \<Rightarrow> ('v graph_node list \<times> nat) option" where
  "tile_nodes t [] = Some ([], 0)"
| "tile_nodes t (n # ns) =
     Option.bind (tile_node t n) (\<lambda>(n', i).
       Option.bind (tile_nodes t ns) (\<lambda>(ns', k). Some (n' # ns', i + k)))"

definition tile ::
  "'v ast_graph option \<Rightarrow> tile_target_config \<Rightarrow> (optimizer_error, 'v ast_graph \<times> nat) res option" where
  "tile go t = (case go of
     None \<Rightarrow> Some (Err GraphRequired)
   | Some g \<Rightarrow> Option.bind (tile_nodes t (g_nodes g)) (\<lambda>(ns, k). Some (Ok (g\<lparr>g_nodes := ns\<rparr>, k))))"

section \<open>The growing loop ends\<close>

definition hardware_target :: "tile_target_config \<Rightarrow> bool" where
  "hardware_target t \<longleftrightarrow> tt_l1_bytes t \<le> 2 ^ 60 \<and> tt_vector t \<le> 2 ^ 28"

text \<open>The bytes of one tile and two operand panels, without wrap-around.\<close>

definition working_set :: "int \<Rightarrow> int" where
  "working_set side = (side * side + 2 * side) * 4"

lemma footprint_no_wrap:
  assumes "0 \<le> s" and "s \<le> 2 ^ 29"
  shows "tile_footprint_of s = working_set s" "wrap64 (wrap64 (s * s) * 4) = s * s * 4"
proof -
  have "s * s \<le> 2 ^ 29 * 2 ^ 29" using assms by (intro mult_mono) auto
  then have "s * s \<le> 2 ^ 58" "0 \<le> s * s" using assms by simp_all
  with assms show "tile_footprint_of s = working_set s" "wrap64 (wrap64 (s * s) * 4) = s * s * 4"
    by (simp_all add: tile_footprint_of_def working_set_def wrap64_pos)
qed

lemma fits_bound:
  assumes "0 \<le> s" and "working_set s \<le> 2 ^ 58"
  shows "s \<le> 2 ^ 28"
proof (rule ccontr)
  assume "\<not> s \<le> 2 ^ 28"
  then have "2 ^ 28 * 2 ^ 28 \<le> s * s" by (intro mult_mono) auto
  then have "2 ^ 58 \<le> s * s * 4" by simp
  moreover have "0 < s" using \<open>\<not> s \<le> 2 ^ 28\<close> by simp
  ultimately show False using assms(2) by (simp add: working_set_def)
qed

lemma grow_side_ends:
  assumes b: "budget \<le> 2 ^ 58" and v: "0 < vector" "vector \<le> 2 ^ 28"
  shows "vector dvd side \<Longrightarrow> vector \<le> side \<Longrightarrow> side = vector \<or> working_set (side - vector) \<le> budget \<Longrightarrow>
    \<exists>s. grow_side budget vector side = Some s \<and> vector dvd s \<and> vector \<le> s \<and> s \<le> 2 ^ 29
      \<and> budget < working_set s \<and> (s = vector \<or> working_set (s - vector) \<le> budget)"
proof (induction "nat (2 ^ 30 - side)" arbitrary: side rule: less_induct)
  case less
  have "side \<le> 2 ^ 29"
  proof (cases "side = vector")
    case True
    with v show ?thesis by simp
  next
    case False
    then have "side - vector \<le> 2 ^ 28" using less.prems(2,3) b by (intro fits_bound) auto
    with v show ?thesis by simp
  qed
  then have fp: "tile_footprint_of side = working_set side" using less.prems(2) v by (intro footprint_no_wrap) auto
  show ?case
  proof (cases "budget < working_set side")
    case True
    with fp have "grow_side budget vector side = Some side" by (subst grow_side.simps) simp
    with True less.prems \<open>side \<le> 2 ^ 29\<close> show ?thesis by blast
  next
    case False
    have w: "wrap64 (side + vector) = side + vector"
      using v less.prems(2) \<open>side \<le> 2 ^ 29\<close> by (intro wrap64_pos) auto
    have "grow_side budget vector side = grow_side budget vector (side + vector)"
      using False fp w by (subst grow_side.simps) simp
    moreover have "\<exists>s. grow_side budget vector (side + vector) = Some s \<and> vector dvd s \<and> vector \<le> s
        \<and> s \<le> 2 ^ 29 \<and> budget < working_set s \<and> (s = vector \<or> working_set (s - vector) \<le> budget)"
      by (rule less.hyps) (use False less.prems v \<open>side \<le> 2 ^ 29\<close> in auto)
    ultimately show ?thesis by simp
  qed
qed

lemma working_set_mono: "0 \<le> a \<Longrightarrow> a \<le> b \<Longrightarrow> working_set a \<le> working_set b"
  by (simp add: working_set_def mult_mono add_mono)

lemma pick_tile_spec:
  assumes "hardware_target t"
  shows "\<exists>c. pick_tile t = Some c \<and> tile_inner c = tile_rows c \<and> tile_cols c = tile_rows c
    \<and> tile_vector t dvd tile_rows c \<and> tile_vector t \<le> tile_rows c
    \<and> (tile_rows c = tile_vector t \<or> working_set (tile_rows c) \<le> tile_budget t)
    \<and> tile_budget t < working_set (tile_rows c + tile_vector t)
    \<and> tile_footprint c = tile_rows c * tile_rows c * 4"
proof -
  let ?v = "tile_vector t" and ?b = "tile_budget t"
  have v: "0 < ?v" "?v \<le> 2 ^ 28" using assms by (auto simp: tile_vector_def hardware_target_def)
  have b: "?b \<le> 2 ^ 58"
  proof (cases "0 \<le> tt_l1_bytes t")
    case True
    have "tt_l1_bytes t div 4 \<le> 2 ^ 60 div 4"
      using assms by (intro zdiv_mono1) (simp_all add: hardware_target_def)
    with True show ?thesis by (simp add: tile_budget_def Let_def sdiv_nonneg)
  next
    case False
    then have "tt_l1_bytes t sdiv 4 \<le> 0" by (auto simp: signed_divide_int_def sgn_if)
    then show ?thesis by (simp add: tile_budget_def)
  qed
  obtain s where s: "grow_side ?b ?v ?v = Some s" "?v dvd s" "?v \<le> s" "s \<le> 2 ^ 29" "?b < working_set s"
    "s = ?v \<or> working_set (s - ?v) \<le> ?b"
    using grow_side_ends [OF b v, of ?v] by auto
  have w: "wrap64 (s - ?v) = s - ?v" using s(3,4) v by (intro wrap64_pos) auto
  define side where "side = (if s - ?v < ?v then ?v else s - ?v)"
  have side: "?v \<le> side" "side \<le> 2 ^ 29" "s \<le> side + ?v" using s(3,4) v by (auto simp: side_def)
  have p: "pick_tile t = Some \<lparr>tile_rows = side, tile_inner = side, tile_cols = side, tile_footprint = side * side * 4\<rparr>"
  proof -
    have f: "wrap64 (wrap64 (side * side) * 4) = side * side * 4" using side v by (intro footprint_no_wrap(2)) auto
    have "(if wrap64 (s - ?v) < ?v then ?v else wrap64 (s - ?v)) = side" unfolding w side_def by (rule refl)
    then show ?thesis unfolding pick_tile_def Let_def s(1) Option.bind.simps by (simp only: f)
  qed
  have "?v dvd side" using s(2) by (simp add: side_def)
  moreover have "side = ?v \<or> working_set side \<le> ?b" using s(6) v by (auto simp: side_def)
  moreover have "working_set s \<le> working_set (side + ?v)" using side(3) s(3) v by (intro working_set_mono) auto
  then have "?b < working_set (side + ?v)" using s(5) by simp
  ultimately show ?thesis using p side(1) by simp
qed

text \<open>
  On any target with at most 2^60 bytes of L1 and at most 2^28 lanes \<open>pickTile\<close> returns. The
  tile is square with a side of whole vectors; the tile and its two operand panels fit the budget
  of a quarter of L1 (at least 256 bytes) unless a single vector is already too wide; one vector
  more on the side would not fit; and the recorded footprint is the tile's size in bytes.
\<close>

theorem pick_tile_largest:
  assumes "hardware_target t"
  shows "\<exists>c. pick_tile t = Some c \<and> tile_inner c = tile_rows c \<and> tile_cols c = tile_rows c
    \<and> tile_vector t dvd tile_rows c \<and> tile_vector t \<le> tile_rows c
    \<and> (tile_rows c = tile_vector t \<or> working_set (tile_rows c) \<le> tile_budget t)
    \<and> tile_budget t < working_set (tile_rows c + tile_vector t)
    \<and> tile_footprint c = tile_rows c * tile_rows c * 4"
  using assms by (rule pick_tile_spec)

theorem pick_tile_largest_witness:
  "\<exists>c. pick_tile default_tile_target = Some c \<and> 8 dvd tile_rows c
    \<and> (tile_rows c = 8 \<or> working_set (tile_rows c) \<le> 8192)"
proof -
  have "hardware_target default_tile_target"
    by (simp add: hardware_target_def default_tile_target_def)
  moreover have "tile_vector default_tile_target = 8" "tile_budget default_tile_target = 8192"
    by (simp_all add: tile_vector_def tile_budget_def default_tile_target_def sdiv_nonneg)
  ultimately show ?thesis using pick_tile_largest [of default_tile_target] by auto
qed

section \<open>The contract\<close>

lemma tile_nodes_map:
  assumes "pick_tile t = Some c"
  shows "tile_nodes t ns = Some (map (\<lambda>n. fst (the (tile_node t n))) ns,
    length (filter (\<lambda>n. is_heavy_op (gn_op n) \<and> gn_attrs n tile_attribute = None) ns))"
  using assms by (induction ns) (auto simp: tile_node_def)

definition tile_pass :: "tile_target_config \<Rightarrow> 'v ast_graph \<Rightarrow> 'v ast_graph option" where
  "tile_pass t g = Option.bind (tile (Some g) t) (\<lambda>r. case r of Inl e \<Rightarrow> None | Inr (g', k) \<Rightarrow> Some g')"

lemma tile_pass_eq:
  assumes "pick_tile t = Some c"
  shows "tile_pass t g = Some (g\<lparr>g_nodes := map (\<lambda>n. fst (the (tile_node t n))) (g_nodes g)\<rparr>)"
  by (simp add: tile_pass_def tile_def tile_nodes_map [OF assms])

lemma tile_pass_contract:
  assumes "hardware_target t"
  shows "graph_pass (tile_pass t :: 'v ast_graph \<Rightarrow> _) (good :: ('v, 'a) interp \<Rightarrow> bool)"
proof -
  obtain c where c: "pick_tile t = Some c" using pick_tile_spec [OF assms] by blast
  have "tile_pass t = (\<lambda>g :: 'v ast_graph. Some (g\<lparr>g_nodes := map (\<lambda>n. fst (the (tile_node t n))) (g_nodes g)\<rparr>))"
    by (simp add: fun_eq_iff tile_pass_eq [OF c])
  moreover have "graph_pass (\<lambda>g :: 'v ast_graph. Some (g\<lparr>g_nodes := map (\<lambda>n. fst (the (tile_node t n))) (g_nodes g)\<rparr>)) good"
    by (rule annotation_pass) (auto simp: tile_node_def c)
  ultimately show ?thesis by simp
qed

interpretation tiling: graph_pass "tile_pass default_tile_target" good for good :: "('v, 'a) interp \<Rightarrow> bool"
  by (rule tile_pass_contract) (simp add: hardware_target_def default_tile_target_def)

end
