(* ===== verification/Fuse.thy ===== *)
theory Fuse
  imports Tiling
begin

text \<open>
  The fusion pass of \<open>optimizer/fuse.go\<close>. Clusters of elementwise nodes become one node holding an
  expression tree; a producer is inlined when it is elementwise, not taken yet and has exactly one
  use. A \<open>clusterBuilder\<close> is its absorbed indices and its inputs (the index map of the code is a
  name's place in the inputs); the graph, the producer table, the use counts and the absorbed
  flags it reads are a \<open>fuse_context\<close>. The recursion runs on fuel; the length of the node list is
  enough because a cluster only grows towards the front. The contained ids are listed in the order
  of absorption, where Go ranges over a map.
\<close>

section \<open>The cluster builder\<close>

record 'v fuse_context =
  fc_nodes :: "'v graph_node list"
  fc_producers :: "string \<rightharpoonup> nat"
  fc_count :: "string \<Rightarrow> nat"
  fc_absorbed :: "bool list"

record cluster_builder =
  cb_absorbed :: "nat list"
  cb_inputs :: "string list"

definition new_cluster_builder :: cluster_builder where
  "new_cluster_builder = \<lparr>cb_absorbed = [], cb_inputs = []\<rparr>"

fun position :: "string \<Rightarrow> string list \<Rightarrow> nat option" where
  "position x [] = None"
| "position x (y # ys) = (if x = y then Some 0 else map_option Suc (position x ys))"

definition input_leaf :: "nat \<Rightarrow> ('v :: zero) ast_node" where
  "input_leaf i = ASTNode NodeInput 0 i [] DInvalid"

definition external_input :: "string \<Rightarrow> cluster_builder \<Rightarrow> ('v :: zero) ast_node \<times> cluster_builder" where
  "external_input x b = (case position x (cb_inputs b) of
     Some i \<Rightarrow> (input_leaf i, b)
   | None \<Rightarrow> (input_leaf (length (cb_inputs b)), b\<lparr>cb_inputs := cb_inputs b @ [x]\<rparr>))"

definition absorb :: "nat \<Rightarrow> cluster_builder \<Rightarrow> cluster_builder" where
  "absorb i b = (if i \<in> set (cb_absorbed b) then b else b\<lparr>cb_absorbed := cb_absorbed b @ [i]\<rparr>)"

type_synonym 'v builder_step = "cluster_builder \<Rightarrow> ('v ast_node \<times> cluster_builder) option"

definition build_operand ::
  "('v graph_node \<Rightarrow> ('v :: zero) builder_step) \<Rightarrow> 'v fuse_context \<Rightarrow> string \<Rightarrow> 'v builder_step" where
  "build_operand build_node c x b = (case fc_producers c x of
     None \<Rightarrow> Some (external_input x b)
   | Some p \<Rightarrow>
       if fc_absorbed c ! p then Some (external_input x b)
       else if p \<in> set (cb_absorbed b) then Some (external_input x b)
       else if fc_count c x \<noteq> 1 then Some (external_input x b)
       else if is_elementwise_op (gn_op (fc_nodes c ! p)) = None then Some (external_input x b)
       else build_node (fc_nodes c ! p) b)"

fun build_operands ::
  "(string \<Rightarrow> 'v builder_step) \<Rightarrow> string list \<Rightarrow> cluster_builder \<Rightarrow> ('v ast_node list \<times> cluster_builder) option" where
  "build_operands f [] b = Some ([], b)"
| "build_operands f (x # xs) b =
     Option.bind (f x b) (\<lambda>(t, b). Option.bind (build_operands f xs b) (\<lambda>(ts, b). Some (t # ts, b)))"

primrec build :: "nat \<Rightarrow> 'v fuse_context \<Rightarrow> 'v graph_node \<Rightarrow> ('v :: zero) builder_step" where
  "build 0 c n b = None"
| "build (Suc k) c n b = (case is_elementwise_op (gn_op n) of
     None \<Rightarrow> Some (external_input (gn_id n) b)
   | Some t \<Rightarrow>
       let p = (case fc_producers c (gn_id n) of None \<Rightarrow> 0 | Some p \<Rightarrow> p) in
       Option.bind (build_operands (build_operand (build k c) c) (gn_inputs n) (absorb p b)) (\<lambda>(ts, b).
         Some (ASTNode t 0 0 ts DInvalid, b)))"

section \<open>The types of the fused node's inputs\<close>

text \<open>The declared type of the first slot that reads \<open>x\<close> and has one.\<close>

fun slot_type :: "string \<Rightarrow> string list \<Rightarrow> port_type list \<Rightarrow> port_type option" where
  "slot_type x [] ts = None"
| "slot_type x (i # is) [] = None"
| "slot_type x (i # is) (t # ts) = (if i = x then Some t else slot_type x is ts)"

fun boundary_input_port_type :: "'v graph_node list \<Rightarrow> string \<Rightarrow> port_type" where
  "boundary_input_port_type [] x = zero_port_type"
| "boundary_input_port_type (n # ns) x = (case slot_type x (gn_inputs n) (gn_input_types n) of
     Some t \<Rightarrow> t | None \<Rightarrow> boundary_input_port_type ns x)"

definition producer_types :: "'v graph_node list \<Rightarrow> (string \<rightharpoonup> port_type)" where
  "producer_types ns = fold (\<lambda>n m. if pt_dtype (gn_output_type n) = DInvalid then m
     else m(gn_id n \<mapsto> gn_output_type n)) ns Map.empty"

definition fusion_input_types :: "'v graph_node list \<Rightarrow> string list \<Rightarrow> port_type list" where
  "fusion_input_types ns xs = map (\<lambda>x. case producer_types ns x of
     Some t \<Rightarrow> t | None \<Rightarrow> boundary_input_port_type ns x) xs"

section \<open>The pass\<close>

record fusion_stats =
  fs_clusters :: nat
  fs_nodes_fused :: nat
  fs_nodes_removed :: nat

text \<open>A node is visited only when the walk is at it, so the visited flags stop nothing and are left out.\<close>

record 'v fuse_state =
  st_nodes :: "'v graph_node list"
  st_absorbed :: "bool list"
  st_stats :: fusion_stats

definition producer_index :: "'v graph_node list \<Rightarrow> (string \<rightharpoonup> nat)" where
  "producer_index ns = fold (\<lambda>(i, n) m. m(gn_id n \<mapsto> i)) (zip [0..<length ns] ns) Map.empty"

definition use_count :: "'v ast_graph \<Rightarrow> string \<Rightarrow> nat" where
  "use_count g x = count_list (concat (map gn_inputs (g_nodes g)) @ map snd (g_outputs g)) x"

definition fused_node ::
  "dtype \<Rightarrow> 'v graph_node list \<Rightarrow> 'v graph_node \<Rightarrow> ('v :: zero) ast_node \<Rightarrow> cluster_builder \<Rightarrow> 'v graph_node" where
  "fused_node d ns n root b = \<lparr>gn_id = gn_id n, gn_op = fuse_op, gn_inputs = cb_inputs b,
     gn_attrs = [fuse_attribute_ast \<mapsto> AFusion \<lparr>fa_root = root, fa_inputs = cb_inputs b, fa_output = gn_id n,
        fa_count = [], fa_dtype = d, fa_contained = map (\<lambda>i. gn_id (ns ! i)) (cb_absorbed b)\<rparr>],
     gn_meta = [''fused_node_count'' \<mapsto> AInt (int (length (cb_absorbed b)))],
     gn_input_types = fusion_input_types ns (cb_inputs b), gn_output_type = gn_output_type n,
     gn_value = zero_value_type, gn_weights = None\<rparr>"

definition set_flags :: "nat list \<Rightarrow> bool list \<Rightarrow> bool list" where
  "set_flags is fs = fold (\<lambda>i fs. fs[i := True]) is fs"

definition count_cluster :: "nat \<Rightarrow> fusion_stats \<Rightarrow> fusion_stats" where
  "count_cluster k s = \<lparr>fs_clusters = fs_clusters s + 1, fs_nodes_fused = fs_nodes_fused s + k,
     fs_nodes_removed = fs_nodes_removed s + (k - 1)\<rparr>"

definition fuse_step ::
  "('v :: zero) ast_graph \<Rightarrow> nat \<Rightarrow> 'v fuse_state \<Rightarrow> 'v fuse_state option" where
  "fuse_step g i s =
     (if st_absorbed s ! i then Some s
      else
        let n = st_nodes s ! i in
        if is_elementwise_op (gn_op n) = None then Some s
        else
          let c = \<lparr>fc_nodes = st_nodes s, fc_producers = producer_index (g_nodes g),
                fc_count = use_count g, fc_absorbed = st_absorbed s\<rparr> in
          Option.bind (build (Suc (length (g_nodes g))) c n new_cluster_builder) (\<lambda>(root, b).
            if length (cb_absorbed b) \<le> 1 then Some s
            else Some \<lparr>st_nodes = (st_nodes s)[i := fused_node (g_dtype g) (st_nodes s) n root b],
                   st_absorbed = set_flags (filter (\<lambda>j. j \<noteq> i) (cb_absorbed b)) (st_absorbed s),
                   st_stats = count_cluster (length (cb_absorbed b)) (st_stats s)\<rparr>))"

primrec fuse_loop :: "('v :: zero) ast_graph \<Rightarrow> nat \<Rightarrow> 'v fuse_state \<Rightarrow> 'v fuse_state option" where
  "fuse_loop g 0 s = Some s"
| "fuse_loop g (Suc i) s = Option.bind (fuse_step g i s) (fuse_loop g i)"

definition unabsorbed :: "'v fuse_state \<Rightarrow> 'v graph_node list" where
  "unabsorbed s = map fst (filter (\<lambda>(n, a). \<not> a) (zip (st_nodes s) (st_absorbed s)))"

definition fuse_start :: "'v ast_graph \<Rightarrow> 'v fuse_state" where
  "fuse_start g = \<lparr>st_nodes = g_nodes g, st_absorbed = replicate (length (g_nodes g)) False,
     st_stats = \<lparr>fs_clusters = 0, fs_nodes_fused = 0, fs_nodes_removed = 0\<rparr>\<rparr>"

definition fuse ::
  "('v :: zero) ast_graph option \<Rightarrow> (optimizer_error, 'v ast_graph \<times> fusion_stats) res option" where
  "fuse go = (case go of
     None \<Rightarrow> Some (Err GraphRequired)
   | Some g \<Rightarrow> Option.bind (fuse_loop g (length (g_nodes g)) (fuse_start g)) (\<lambda>s.
       Some (Ok (g\<lparr>g_nodes := unabsorbed s\<rparr>, st_stats s))))"

end
