(* ===== verification/Fuse_Correct.thy ===== *)
theory Fuse_Correct
  imports Fuse "HOL-Library.Multiset"
begin

text \<open>
  Fusion meets the contract of a pass. The heart is a conservation law: every use of a name in the
  nodes of a cluster is either a reference to an external input of the cluster's tree or the one
  use of an absorbed member. Summed over the graph it shows that nothing left refers to an absorbed
  node.
\<close>

section \<open>What building a tree does\<close>


lemma position_None: "position x xs = None \<longleftrightarrow> x \<notin> set xs"
  by (induction xs) auto


















section \<open>The walk over the graph\<close>




definition gone :: "'v fuse_state \<Rightarrow> nat set" where
  "gone s = {j. j < length (st_absorbed s) \<and> st_absorbed s ! j}"

definition left :: "'v fuse_state \<Rightarrow> nat set" where
  "left s = {j. j < length (st_absorbed s) \<and> \<not> st_absorbed s ! j}"

lemma finite_gone [simp]: "finite (gone s)" and finite_left [simp]: "finite (left s)"
  by (simp_all add: gone_def left_def)














section \<open>What is left refers to what is left\<close>





section \<open>The contract\<close>









section \<open>Scalar multiplications\<close>

lemma map_sum_Ok: "map_sum f g r = Ok y \<Longrightarrow> (\<And>x. r = Ok x \<Longrightarrow> g x = y \<Longrightarrow> P) \<Longrightarrow> P"
  by (cases r) simp_all

text \<open>
  A \<open>math.mul\<close> may carry its second factor as a \<open>scalar\<close> attribute (\<open>flagScaleFolds\<close> reads it).
\<close>

definition scaled_graph :: "int ast_graph" where
  "scaled_graph = loop_graph\<lparr>g_nodes :=
     [(plain_node ''a'' [''x''])\<lparr>gn_op := ''math.mul'', gn_attrs := [''scalar'' \<mapsto> AFloat64 2]\<rparr>,
      (plain_node ''b'' [''a''])\<lparr>gn_op := ''math.neg''\<rparr>]\<rparr>"

text \<open>
  \<open>Fuse\<close> checks neither the number of operands nor the \<open>scalar\<close> attribute: a scalar
  multiplication is fused into a product with one operand, the scalar is dropped, and the reference
  evaluator indexes a missing child whatever the arithmetic.
\<close>

theorem fuse_drops_scalar:
  "case fuse (Some scaled_graph) of
     Some (Inr (g', st)) \<Rightarrow> (case map gn_attrs (g_nodes g') of
        [m] \<Rightarrow> (case m ''fusion_ast'' of
            Some (AFusion f) \<Rightarrow> m ''scalar'' = None \<and> eval_scalar_reference r (fa_root f) [[v]] 0 = None
          | _ \<Rightarrow> False)
      | _ \<Rightarrow> False)
   | _ \<Rightarrow> False"
proof -
  have "map_option (map_sum id (\<lambda>(g', st). map (\<lambda>n. (case gn_attrs n ''fusion_ast'' of
      Some (AFusion f) \<Rightarrow> Some (fa_root f) | _ \<Rightarrow> None, gn_attrs n ''scalar'')) (g_nodes g'))) (fuse (Some scaled_graph))
    = Some (Ok [(Some (ASTNode NodeNeg 0 0 [ASTNode NodeMul 0 0 [ASTNode NodeInput 0 0 [] DInvalid] DInvalid] DInvalid), None)])"
    by code_simp
  then obtain g' st where f: "fuse (Some scaled_graph) = Some (Inr (g', st))"
    and nodes: "map (\<lambda>n. (case gn_attrs n ''fusion_ast'' of
      Some (AFusion f) \<Rightarrow> Some (fa_root f) | _ \<Rightarrow> None, gn_attrs n ''scalar'')) (g_nodes g')
      = [(Some (ASTNode NodeNeg 0 0 [ASTNode NodeMul 0 0 [ASTNode NodeInput 0 0 [] DInvalid] DInvalid] DInvalid), None)]"
    by (cases "fuse (Some scaled_graph)") (auto elim!: map_sum_Ok split: prod.splits)
  from nodes obtain n where n: "g_nodes g' = [n]" by (auto simp: map_eq_Cons_conv)
  from nodes n obtain a where a: "gn_attrs n ''fusion_ast'' = Some (AFusion a)"
    "fa_root a = ASTNode NodeNeg 0 0 [ASTNode NodeMul 0 0 [ASTNode NodeInput 0 0 [] DInvalid] DInvalid] DInvalid"
    "gn_attrs n ''scalar'' = None"
    by (auto split: option.splits attr.splits)
  have "eval_scalar_reference r (fa_root a) [[v]] 0 = None"
    by (simp add: a(2) eval_scalar_reference_def ref_apply_def lift1_def lift2_def child_def nth_opt_def)
  with f n a(1,3) show ?thesis by simp
qed

end
