(* ===== verification/Optimizer_Run.thy ===== *)
theory Optimizer_Run
  imports Fuse_Correct
begin








section \<open>The pipeline meets the contract\<close>












end
