(* ===== verification/Packed_Vectors.thy ===== *)
theory Packed_Vectors
  imports Small_Floats
begin

text \<open>
  The packed host views \<open>BitVector\<close> (\<open>tensor/bitvector.go\<close>, one bit per element) and
  \<open>Int4Vector\<close> (\<open>tensor/int4vector.go\<close>, one nibble per element). Both promise a mutable list;
  the promise is the locale \<open>packed_vector\<close>. \<open>None\<close> is a panic: an explicit one, or an index beyond
  the storage the caller has supplied.
\<close>

section \<open>The contract\<close>

definition defined_on :: "(int \<Rightarrow> 'a option) \<Rightarrow> int \<Rightarrow> bool" where
  "defined_on f n \<longleftrightarrow> (\<forall>i. 0 \<le> i \<and> i < n \<longrightarrow> f i \<noteq> None)"

locale packed_vector =
  fixes get :: "'v \<Rightarrow> int \<Rightarrow> 'a option"
    and put :: "'v \<Rightarrow> int \<Rightarrow> 'b \<Rightarrow> 'v option"
    and len :: "'v \<Rightarrow> int"
    and sized :: "'v \<Rightarrow> bool"
    and stored :: "'b \<Rightarrow> 'a"
  assumes get_defined: "sized v \<Longrightarrow> defined_on (get v) (len v)"
    and put_defined: "sized v \<Longrightarrow> 0 \<le> i \<Longrightarrow> i < len v \<Longrightarrow> \<exists>v'. put v i x = Some v'"
    and put_sized: "sized v \<Longrightarrow> put v i x = Some v' \<Longrightarrow> sized v' \<and> len v' = len v"
    and get_put: "sized v \<Longrightarrow> 0 \<le> i \<Longrightarrow> i < len v \<Longrightarrow> 0 \<le> j \<Longrightarrow> j < len v \<Longrightarrow> put v i x = Some v' \<Longrightarrow>
      get v' j = (if j = i then Some (stored x) else get v j)"
begin

definition contents :: "'v \<Rightarrow> 'a list" where
  "contents v = map (\<lambda>i. the (get v (int i))) [0..<nat (len v)]"

lemma contents_nth: "sized v \<Longrightarrow> i < nat (len v) \<Longrightarrow> get v (int i) = Some (contents v ! i)"
  using get_defined [of v] by (auto simp: contents_def defined_on_def)

text \<open>A write is a list update: the view refines a list.\<close>

lemma put_refines:
  assumes "sized v" and "i < nat (len v)" and "put v (int i) x = Some v'"
  shows "contents v' = (contents v)[i := stored x]"
proof (rule nth_equalityI)
  have s: "sized v'" "len v' = len v" using put_sized [OF assms(1,3)] by simp_all
  show "length (contents v') = length ((contents v)[i := stored x])" by (simp add: contents_def s)
  fix j
  assume "j < length (contents v')"
  then have j: "j < nat (len v)" by (simp add: contents_def s)
  have "get v' (int j) = (if int j = int i then Some (stored x) else get v (int j))"
    using assms j by (intro get_put) (simp_all add: zless_nat_eq_int_zless)
  moreover have "get v' (int j) = Some (contents v' ! j)" using j s by (intro contents_nth) simp_all
  moreover have "get v (int j) = Some (contents v ! j)" by (rule contents_nth [OF assms(1) j])
  moreover have "length (contents v) = nat (len v)" by (simp add: contents_def)
  ultimately show "contents v' ! j = (contents v)[i := stored x] ! j"
    using j by (cases "j = i") (simp_all del: of_nat_eq_iff)
qed

fun put_all :: "'v \<Rightarrow> nat \<Rightarrow> 'b list \<Rightarrow> 'v option" where
  "put_all v i [] = Some v"
| "put_all v i (x # xs) = Option.bind (put v (int i) x) (\<lambda>v. put_all v (Suc i) xs)"

lemma put_all_contents:
  "sized v \<Longrightarrow> i + length xs \<le> nat (len v) \<Longrightarrow>
    \<exists>v'. put_all v i xs = Some v' \<and> sized v' \<and> len v' = len v
      \<and> contents v' = take i (contents v) @ map stored xs @ drop (i + length xs) (contents v)"
proof (induction xs arbitrary: v i)
  case Nil
  then show ?case by simp
next
  case (Cons x xs)
  then have i: "i < nat (len v)" by simp
  obtain v1 where v1: "put v (int i) x = Some v1" using put_defined [OF Cons.prems(1), of "int i" x] i
    by (auto simp: zless_nat_eq_int_zless)
  have s: "sized v1" "len v1 = len v" using put_sized [OF Cons.prems(1) v1] by simp_all
  have c: "contents v1 = (contents v)[i := stored x]" by (rule put_refines [OF Cons.prems(1) i v1])
  have len: "length (contents v) = nat (len v)" by (simp add: contents_def)
  obtain v' where v': "put_all v1 (Suc i) xs = Some v'" "sized v'" "len v' = len v1"
    "contents v' = take (Suc i) (contents v1) @ map stored xs @ drop (Suc i + length xs) (contents v1)"
    using Cons.IH [OF s(1), of "Suc i"] Cons.prems(2) s(2) by auto
  have "take (Suc i) (contents v1) = take i (contents v) @ [stored x]"
    using i len by (simp add: c take_Suc_conv_app_nth take_update_cancel)
  moreover have "drop (Suc i + length xs) (contents v1) = drop (i + length (x # xs)) (contents v)"
    by (simp add: c drop_update_cancel)
  ultimately show ?case using v1 v' s(2) by simp
qed

text \<open>Filling every slot makes the contents the filled values, whatever was there before.\<close>

lemma fill_contents:
  assumes "sized v" and "nat (len v) = length xs"
  shows "\<exists>v'. put_all v 0 xs = Some v' \<and> contents v' = map stored xs"
proof -
  have "length (contents v) = length xs" using assms(2) by (simp add: contents_def)
  then show ?thesis using put_all_contents [OF assms(1), of 0 xs] assms(2) by auto
qed

end

section \<open>Bit vectors\<close>

record bit_vector =
  bv_data :: "8 word list"
  bv_length :: int

definition bv_mask :: "int \<Rightarrow> 8 word" where
  "bv_mask i = push_bit (nat (i mod 8)) 1"

definition bv_get :: "bit_vector \<Rightarrow> int \<Rightarrow> bool option" where
  "bv_get v i =
     (if i < 0 \<or> i \<ge> bv_length v then None
      else if nat (i div 8) \<ge> length (bv_data v) then None
      else Some (bv_data v ! nat (i div 8) AND bv_mask i \<noteq> 0))"

definition bv_set :: "bit_vector \<Rightarrow> int \<Rightarrow> bool \<Rightarrow> bit_vector option" where
  "bv_set v i b =
     (if i < 0 \<or> i \<ge> bv_length v then None
      else if nat (i div 8) \<ge> length (bv_data v) then None
      else
        let k = nat (i div 8); w = bv_data v ! k in
        Some (v\<lparr>bv_data := (bv_data v)[k := if b then w OR bv_mask i else w AND NOT (bv_mask i)]\<rparr>))"

text \<open>The caller's duty: at least (length + 7) / 8 bytes.\<close>

definition bv_sized :: "bit_vector \<Rightarrow> bool" where
  "bv_sized v \<longleftrightarrow> bv_length v \<le> int (length (bv_data v)) * 8"

lemma bv_mask_nonzero: "w AND bv_mask i \<noteq> 0 \<longleftrightarrow> bit w (nat (i mod 8))"
proof -
  have k: "nat (i mod 8) < 8" by (simp add: nat_less_iff)
  have "bit (w AND bv_mask i) n \<longleftrightarrow> n = nat (i mod 8) \<and> bit w n" for n
    using k by (auto simp: bv_mask_def bit_and_iff bit_exp_iff)
  then have "w AND bv_mask i = 0 \<longleftrightarrow> (\<forall>n. \<not> (n = nat (i mod 8) \<and> bit w n))"
    by (simp only: bit_eq_iff [of _ "0 :: 8 word"] bit_0_eq bot_apply) (use k in simp)
  then show ?thesis by blast
qed

lemma bit_bv_mask: "bit (bv_mask i) n \<longleftrightarrow> n = nat (i mod 8)"
proof -
  have "nat (i mod 8) < 8" by (simp add: nat_less_iff)
  then show ?thesis by (auto simp: bv_mask_def bit_exp_iff)
qed

lemma same_slot:
  assumes "0 < m" "0 \<le> i" "0 \<le> j" "nat (i div m) = nat (j div m)" "i mod m = j mod (m :: int)"
  shows "i = j"
proof -
  have "0 \<le> i div m" "0 \<le> j div m" using assms(1-3) by (simp_all add: pos_imp_zdiv_nonneg_iff)
  with assms(4) have "i div m = j div m" by simp
  with assms(5) show ?thesis by (metis div_mult_mod_eq)
qed

interpretation bv: packed_vector bv_get bv_set bv_length bv_sized "\<lambda>b. b"
proof
  fix v :: bit_vector
  assume s: "bv_sized v"
  have k: "nat (i div 8) < length (bv_data v)" if "0 \<le> i" "i < bv_length v" for i
    using s that by (simp add: bv_sized_def nat_less_iff)
  show "defined_on (bv_get v) (bv_length v)"
    unfolding defined_on_def
  proof (intro allI impI)
    fix i
    assume "0 \<le> i \<and> i < bv_length v"
    with k [of i] show "bv_get v i \<noteq> None" by (simp add: bv_get_def)
  qed
  show "\<exists>v'. bv_set v i x = Some v'" if "0 \<le> i" "i < bv_length v" for i x
    using k [OF that] that by (simp add: bv_set_def Let_def)
  show "bv_sized v' \<and> bv_length v' = bv_length v" if "bv_set v i x = Some v'" for i x v'
    using s that by (auto simp: bv_set_def bv_sized_def Let_def split: if_splits)
  show "bv_get v' j = (if j = i then Some x else bv_get v j)"
    if i: "0 \<le> i" "i < bv_length v" and j: "0 \<le> j" "j < bv_length v" and v': "bv_set v i x = Some v'" for i j x v'
  proof -
    let ?k = "nat (i div 8)"
    let ?w = "if x then bv_data v ! ?k OR bv_mask i else bv_data v ! ?k AND NOT (bv_mask i)"
    have v'': "v' = v\<lparr>bv_data := (bv_data v)[?k := ?w]\<rparr>"
      using v' i k [OF i] by (simp add: bv_set_def Let_def)
    have w: "bit ?w n \<longleftrightarrow> (if n = nat (i mod 8) then x else bit (bv_data v ! ?k) n)" if "n < 8" for n
      using that by (auto simp: bit_or_iff bit_and_iff bit_not_iff bit_bv_mask)
    have m: "nat (j mod 8) < 8" by (simp add: nat_less_iff)
    have "bv_get v' j = Some (bit (((bv_data v)[?k := ?w]) ! nat (j div 8)) (nat (j mod 8)))"
      using j k [OF j] by (simp add: bv_get_def v'' bv_mask_nonzero)
    moreover have "bv_get v j = Some (bit (bv_data v ! nat (j div 8)) (nat (j mod 8)))"
      using j k [OF j] by (simp add: bv_get_def bv_mask_nonzero)
    moreover have "bit (((bv_data v)[?k := ?w]) ! nat (j div 8)) (nat (j mod 8))
        \<longleftrightarrow> (if j = i then x else bit (bv_data v ! nat (j div 8)) (nat (j mod 8)))"
    proof (cases "nat (j div 8) = ?k")
      case True
      then have eq: "((bv_data v)[?k := ?w]) ! nat (j div 8) = ?w" using k [OF i] by simp
      have "j = i \<longleftrightarrow> nat (j mod 8) = nat (i mod 8)" 
      proof -
        have "nat (j mod 8) = nat (i mod 8) \<longleftrightarrow> j mod 8 = i mod 8" by (simp add: eq_nat_nat_iff)
        then show ?thesis using same_slot [of 8 j i] i j True by auto
      qed
      then show ?thesis unfolding eq w [OF m] using True by auto
    next
      case False
      then have "j \<noteq> i" by auto
      with False show ?thesis by simp
    qed
    ultimately show ?thesis by simp
  qed
qed

section \<open>Int4 vectors\<close>

record int4_vector =
  iv_data :: "8 word list"
  iv_length :: int

definition iv_get :: "int4_vector \<Rightarrow> int \<Rightarrow> 8 word option" where
  "iv_get v i =
     (if i < 0 \<or> i \<ge> iv_length v then Some 0
      else if nat (i div 2) \<ge> length (iv_data v) then None
      else
        let pair = iv_data v ! nat (i div 2) in
        Some (if i mod 2 = 0 then int4_lo pair else int4_hi pair))"

definition iv_set :: "int4_vector \<Rightarrow> int \<Rightarrow> 8 word \<Rightarrow> int4_vector option" where
  "iv_set v i x =
     (if i < 0 \<or> i \<ge> iv_length v then Some v
      else if nat (i div 2) \<ge> length (iv_data v) then None
      else
        let k = nat (i div 2); pair = iv_data v ! k in
        Some (v\<lparr>iv_data := (iv_data v)[k := if i mod 2 = 0 then int4_with_lo pair x else int4_with_hi pair x]\<rparr>))"

definition iv_sized :: "int4_vector \<Rightarrow> bool" where
  "iv_sized v \<longleftrightarrow> iv_length v \<le> int (length (iv_data v)) * 2"

definition iv_stored :: "8 word \<Rightarrow> 8 word" where
  "iv_stored x = int4_decode (int4_encode x)"

interpretation iv: packed_vector iv_get iv_set iv_length iv_sized iv_stored
proof
  fix v :: int4_vector
  assume s: "iv_sized v"
  have k: "nat (i div 2) < length (iv_data v)" if "0 \<le> i" "i < iv_length v" for i
    using s that by (simp add: iv_sized_def nat_less_iff)
  show "defined_on (iv_get v) (iv_length v)"
    unfolding defined_on_def
  proof (intro allI impI)
    fix i
    assume "0 \<le> i \<and> i < iv_length v"
    with k [of i] show "iv_get v i \<noteq> None" by (simp add: iv_get_def Let_def)
  qed
  show "\<exists>v'. iv_set v i x = Some v'" if "0 \<le> i" "i < iv_length v" for i x
    using k [OF that] that by (simp add: iv_set_def Let_def)
  show "iv_sized v' \<and> iv_length v' = iv_length v" if "iv_set v i x = Some v'" for i x v'
    using s that by (auto simp: iv_set_def iv_sized_def Let_def split: if_splits)
  show "iv_get v' j = (if j = i then Some (iv_stored x) else iv_get v j)"
    if i: "0 \<le> i" "i < iv_length v" and j: "0 \<le> j" "j < iv_length v" and v': "iv_set v i x = Some v'" for i j x v'
  proof -
    let ?k = "nat (i div 2)"
    have v'': "v' = v\<lparr>iv_data := (iv_data v)[?k := if i mod 2 = 0 then int4_with_lo (iv_data v ! ?k) x
        else int4_with_hi (iv_data v ! ?k) x]\<rparr>"
      using v' i k [OF i] by (simp add: iv_set_def Let_def)
    show ?thesis
    proof (cases "nat (j div 2) = ?k")
      case True
      have "j = i \<longleftrightarrow> j mod 2 = i mod 2" using True i j same_slot [of 2 j i] by auto
      then show ?thesis using True i j k [OF i]
        by (auto simp: iv_get_def v'' Let_def int4_pair_access iv_stored_def)
    next
      case False
      then have "j \<noteq> i" by auto
      with False j k [OF j] show ?thesis by (simp add: iv_get_def v'' Let_def)
    qed
  qed
qed

section \<open>Properties\<close>

text \<open>
  On storage of the documented size, \<open>BitVector.Set\<close> never panics in range and refines the
  update of a list of booleans: exactly the addressed element changes.
\<close>

theorem bit_vector_refines_list:
  assumes "bv_sized v" and "i < nat (bv_length v)"
  shows "\<exists>v'. bv_set v (int i) b = Some v' \<and> bv_sized v' \<and> bv.contents v' = (bv.contents v)[i := b]"
proof -
  have "int i < bv_length v" using assms(2) by (simp add: zless_nat_eq_int_zless)
  then obtain v' where v': "bv_set v (int i) b = Some v'" using bv.put_defined [OF assms(1), of "int i" b] by auto
  with bv.put_refines [OF assms v'] bv.put_sized [OF assms(1) v'] show ?thesis by blast
qed

theorem bit_vector_refines_list_witness:
  "\<exists>v'. bv_set \<lparr>bv_data = [0, 0], bv_length = 11\<rparr> 9 True = Some v' \<and> bv.contents v' ! 9"
proof -
  let ?v = "\<lparr>bv_data = [0, 0], bv_length = 11\<rparr>"
  have s: "bv_sized ?v" by (simp add: bv_sized_def)
  have "\<exists>v'. bv_set ?v (int 9) True = Some v' \<and> bv_sized v' \<and> bv.contents v' = (bv.contents ?v)[9 := True]"
    by (rule bit_vector_refines_list [OF s]) simp
  then obtain v' where v': "bv_set ?v 9 True = Some v'" "bv.contents v' = (bv.contents ?v)[9 := True]"
    by (elim exE conjE) simp
  have "length (bv.contents ?v) = 11" by (simp add: bv.contents_def)
  with v' show ?thesis by simp
qed

text \<open>
  C30. \<open>Int4Vector.Set\<close> refines a list update with the value clamped to the int4 range, and leaves
  the other nibble of the byte alone.
\<close>

theorem int4_vector_refines_list:
  assumes "iv_sized v" and "i < nat (iv_length v)"
  shows "\<exists>v'. iv_set v (int i) x = Some v' \<and> iv_sized v'
    \<and> map sint (iv.contents v') = (map sint (iv.contents v))[i := clamp4 (sint x)]"
proof -
  obtain v' where v': "iv_set v (int i) x = Some v'" using iv.put_defined [OF assms(1), of "int i" x] assms(2)
    by (auto simp: zless_nat_eq_int_zless)
  have "iv.contents v' = (iv.contents v)[i := iv_stored x]" by (rule iv.put_refines [OF assms v'])
  then have "map sint (iv.contents v') = (map sint (iv.contents v))[i := clamp4 (sint x)]"
    by (simp add: map_update iv_stored_def int4_decode_encode)
  with v' iv.put_sized [OF assms(1) v'] show ?thesis by blast
qed

theorem int4_vector_refines_list_witness:
  "\<exists>v'. iv_set \<lparr>iv_data = [0x21, 0x43], iv_length = 3\<rparr> 1 100 = Some v' \<and> map sint (iv.contents v') = [1, 7, 3]"
proof -
  let ?v = "\<lparr>iv_data = [0x21, 0x43], iv_length = 3\<rparr>"
  have s: "iv_sized ?v" by (simp add: iv_sized_def)
  have "\<exists>v'. iv_set ?v (int 1) 100 = Some v' \<and> iv_sized v'
      \<and> map sint (iv.contents v') = (map sint (iv.contents ?v))[1 := clamp4 (sint (100 :: 8 word))]"
    by (rule int4_vector_refines_list [OF s]) simp
  then obtain v' where v': "iv_set ?v 1 100 = Some v'"
    "map sint (iv.contents v') = (map sint (iv.contents ?v))[1 := clamp4 (sint (100 :: 8 word))]"
    unfolding of_nat_1 by blast
  have "map sint (iv.contents ?v) = [1, 2, 3]"
  proof -
    have "[0..<nat (iv_length ?v)] = [0, 1, 2]" by (simp add: eval_nat_numeral)
    then show ?thesis
      by (simp add: iv.contents_def iv_get_def int4_lo_def int4_hi_def int4_decode_def Let_def)
  qed
  moreover have "clamp4 (sint (100 :: 8 word)) = 7" by (simp add: clamp4_def)
  ultimately have "map sint (iv.contents v') = [1, 7, 3]" unfolding v'(2) by simp
  with v'(1) show ?thesis by (intro exI [of _ v'] conjI)
qed

end
