(* ===== verification/Tensor_Shape.thy ===== *)
theory Tensor_Shape
  imports Dtypes
begin

text \<open>
  Tensor shapes, \<open>tensor/shape.go\<close>: validated dimensions with their element count. The sentinel
  errors of \<open>tensor/errors.go\<close> are constructors.
\<close>

datatype tensor_error =
    ErrDTypeMismatch | ErrDTypeUnsupported | ErrLayoutUnsupported | ErrShapeMismatch
  | ErrTensorInTransit | ErrTensorMutating | ErrTensorClosed | ErrBackendClosed | ErrShapeInvalid
  | ErrNoAutograd | ErrBackwardNotImplemented | ErrNeedsPlatformSetup | ErrAllocatorExhausted
  | ErrDType dtype_error | ErrHugePageOverflow int

record tensor_shape =
  ts_dims :: "int list"
  ts_elements :: int
  ts_valid :: bool

definition zero_shape :: tensor_shape where
  "zero_shape = \<lparr>ts_dims = [], ts_elements = 0, ts_valid = False\<rparr>"

fun shape_elements :: "int list \<Rightarrow> int \<Rightarrow> (tensor_error, int) res" where
  "shape_elements [] e = Ok e"
| "shape_elements (d # ds) e =
     (if d < 0 then Err ErrShapeInvalid
      else if d = 0 then shape_elements ds 0
      else if e > max_int64 sdiv d then Err ErrShapeInvalid
      else shape_elements ds (wrap64 (e * d)))"

definition new_shape :: "int list \<Rightarrow> (tensor_error, tensor_shape) res" where
  "new_shape dims = rbind (shape_elements dims 1) (\<lambda>e.
     Ok \<lparr>ts_dims = dims, ts_elements = e, ts_valid = True\<rparr>)"

definition shape_rank :: "tensor_shape \<Rightarrow> nat" where
  "shape_rank s = length (ts_dims s)"

definition shape_bytes :: "tensor_shape \<Rightarrow> dtype \<Rightarrow> (tensor_error, int) res" where
  "shape_bytes s d = (if \<not> ts_valid s then Err ErrShapeInvalid else map_err ErrDType (bytes_for d (ts_elements s)))"

definition shape_equal :: "tensor_shape \<Rightarrow> tensor_shape \<Rightarrow> bool" where
  "shape_equal s t \<longleftrightarrow> ts_valid s \<and> ts_valid t \<and> ts_dims s = ts_dims t \<and> ts_elements s = ts_elements t"

definition reshape_to :: "tensor_shape \<Rightarrow> int list \<Rightarrow> (tensor_error, tensor_shape) res" where
  "reshape_to s dims = rbind (new_shape dims) (\<lambda>t.
     if ts_elements t \<noteq> ts_elements s then Err ErrShapeMismatch else Ok t)"

definition slice_to :: "tensor_shape \<Rightarrow> int \<Rightarrow> (tensor_error, tensor_shape) res" where
  "slice_to s n =
     (if \<not> ts_valid s then Err ErrShapeInvalid
      else if n < 0 \<or> n > ts_elements s then Err ErrShapeInvalid
      else new_shape [n])"

fun join_spaces :: "string list \<Rightarrow> string" where
  "join_spaces [] = []"
| "join_spaces [w] = w"
| "join_spaces (w # v # ws) = w @ '' '' @ join_spaces (v # ws)"

definition tensor_shape_string :: "tensor_shape \<Rightarrow> string" where
  "tensor_shape_string s =
     (if \<not> ts_valid s then ''<invalid>'' else ''['' @ join_spaces (map show_int (ts_dims s)) @ '']'')"

section \<open>The element count\<close>

text \<open>The leading dimensions, up to the first zero: the ones whose product must fit an \<open>int\<close>.\<close>

definition leading :: "int list \<Rightarrow> int list" where
  "leading dims = takeWhile (\<lambda>d. d \<noteq> 0) dims"

lemma prod_list_pos: "\<forall>d \<in> set ds. 0 < d \<Longrightarrow> 1 \<le> prod_list (ds :: int list)"
proof (induction ds)
  case Nil
  then show ?case by simp
next
  case (Cons d ds)
  then have "1 * 1 \<le> d * prod_list ds" by (intro mult_mono) auto
  then show ?case by simp
qed

lemma le_sdiv_iff:
  assumes "0 < d" and "0 \<le> m"
  shows "e \<le> m sdiv d \<longleftrightarrow> e * d \<le> (m :: int)"
proof -
  have "e * d \<le> m" if "e \<le> m div d"
  proof -
    have "e * d \<le> (m div d) * d" using that assms(1) by (intro mult_right_mono) simp_all
    also have "\<dots> = m - m mod d" by (simp add: minus_mod_eq_div_mult)
    also have "\<dots> \<le> m" using assms(1) by simp
    finally show ?thesis .
  qed
  moreover have "e \<le> m div d" if "e * d \<le> m"
    using zdiv_mono1 [OF that assms(1)] assms(1) by simp
  ultimately show ?thesis using assms by (auto simp: sdiv_nonneg)
qed

lemma shape_elements_zero:
  "shape_elements ds 0 = (if \<forall>d \<in> set ds. 0 \<le> d then Ok 0 else Err ErrShapeInvalid)"
proof (induction ds)
  case Nil
  then show ?case by simp
next
  case (Cons d ds)
  have "\<not> 0 > max_int64 sdiv d" if "0 < d" using le_sdiv_iff [of d max_int64 0] that by (simp add: max_int64_def)
  with Cons show ?case by (auto simp: wrap64_pos)
qed

lemma shape_elements_spec:
  "1 \<le> e \<Longrightarrow> e \<le> max_int64 \<Longrightarrow> shape_elements ds e =
    (if (\<forall>d \<in> set ds. 0 \<le> d) \<and> e * prod_list (leading ds) \<le> max_int64 then Ok (e * prod_list ds)
     else Err ErrShapeInvalid)"
proof (induction ds arbitrary: e)
  case Nil
  then show ?case by (simp add: leading_def)
next
  case (Cons d ds)
  consider "d < 0" | "d = 0" | "0 < d" by linarith
  then show ?case
  proof cases
    case 1
    then show ?thesis by simp
  next
    case 2
    then show ?thesis using Cons.prems by (simp add: shape_elements_zero leading_def)
  next
    case 3
    have le: "e \<le> max_int64 sdiv d \<longleftrightarrow> e * d \<le> max_int64"
      by (rule le_sdiv_iff [OF 3]) (simp add: max_int64_def)
    show ?thesis
    proof (cases "e * d \<le> max_int64")
      case True
      have "1 * 1 \<le> e * d" using Cons.prems 3 by (intro mult_mono) auto
      moreover from this True have "wrap64 (e * d) = e * d" by (intro wrap64_pos) (simp_all add: max_int64_def)
      ultimately have "shape_elements (d # ds) e = (if (\<forall>d \<in> set ds. 0 \<le> d)
          \<and> (e * d) * prod_list (leading ds) \<le> max_int64 then Ok ((e * d) * prod_list ds) else Err ErrShapeInvalid)"
        using Cons.IH [of "e * d"] True 3 le by simp
      then show ?thesis using 3 by (simp add: leading_def mult.assoc)
    next
      case False
      have "\<not> e * (d * prod_list (leading ds)) \<le> max_int64" if "\<forall>d \<in> set ds. 0 \<le> d"
      proof -
        have "\<forall>d \<in> set (leading ds). 0 < d"
          using that by (auto simp: leading_def dest!: set_takeWhileD)
        then have "e * d * 1 \<le> e * d * prod_list (leading ds)"
          using Cons.prems(1) 3 by (intro mult_left_mono prod_list_pos) auto
        with False show ?thesis by (simp add: mult.assoc)
      qed
      with False 3 le show ?thesis by (auto simp: leading_def)
    qed
  qed
qed

text \<open>
  \<open>NewShape\<close> accepts exactly the dimension lists without a negative entry whose leading
  dimensions (those before the first zero) have a product within an \<open>int\<close>, and then records the
  product of all dimensions as the element count, without wrapping. Every error is
  \<open>ErrShapeInvalid\<close>.
\<close>

theorem new_shape_exact:
  "new_shape dims =
    (if (\<forall>d \<in> set dims. 0 \<le> d) \<and> prod_list (leading dims) \<le> max_int64
     then Ok \<lparr>ts_dims = dims, ts_elements = prod_list dims, ts_valid = True\<rparr>
     else Err ErrShapeInvalid)"
  using shape_elements_spec [of 1 dims] by (simp add: new_shape_def max_int64_def)

theorem new_shape_exact_witness:
  "new_shape [2, 3, 4] = Ok \<lparr>ts_dims = [2, 3, 4], ts_elements = 24, ts_valid = True\<rparr>
   \<and> new_shape [2 ^ 40, 2 ^ 40, 0] = Err ErrShapeInvalid
   \<and> new_shape [0, 2 ^ 40, 2 ^ 40] = Ok \<lparr>ts_dims = [0, 2 ^ 40, 2 ^ 40], ts_elements = 0, ts_valid = True\<rparr>"
  using new_shape_exact [of "[2, 3, 4]"] new_shape_exact [of "[2 ^ 40, 2 ^ 40, 0]"]
    new_shape_exact [of "[0, 2 ^ 40, 2 ^ 40]"]
  by (simp add: leading_def max_int64_def)

text \<open>
  Reshaping keeps the element count and is undone by reshaping to the original dimensions.
\<close>

theorem reshape_roundtrip:
  assumes "new_shape dims = Ok s" and "reshape_to s dims' = Ok t"
  shows "ts_elements t = ts_elements s \<and> reshape_to t dims = Ok s"
  using assms by (auto simp: reshape_to_def split: if_splits)

theorem reshape_roundtrip_witness:
  "\<exists>s t. reshape_to s [6, 4] = Ok t \<and> ts_elements t = ts_elements s \<and> reshape_to t [2, 3, 4] = Ok s"
proof -
  have "new_shape [2, 3, 4] = Ok \<lparr>ts_dims = [2, 3, 4], ts_elements = 24, ts_valid = True\<rparr>" (is "_ = Ok ?s")
    by code_simp
  moreover have "reshape_to ?s [6, 4] = Ok \<lparr>ts_dims = [6, 4], ts_elements = 24, ts_valid = True\<rparr>" (is "_ = Ok ?t")
    by code_simp
  ultimately show ?thesis using reshape_roundtrip [of "[2, 3, 4]" ?s "[6, 4]" ?t] by blast
qed

end
