(* ===== verification/Tensor_Alloc.thy ===== *)
theory Tensor_Alloc
  imports Tensor_Shape Alignment "HOL-Library.Multiset"
begin

text \<open>
  The tiered allocator of \<open>tensor/slab.go\<close>, \<open>tensor/mmap_medium.go\<close> and \<open>tensor/mmap_large.go\<close>. A
  Go slice of memory is a base address, a length and a capacity. The pools are lists of parked
  slices; every operation runs under the lock of the list it touches, so an execution is a sequence
  of whole operations: the step relation \<open>alloc_step\<close>. What \<open>make\<close> and \<open>mmap\<close> return is a
  parameter of each step, with their documented guarantee as a side condition: the memory does not
  overlap any memory in use, and \<open>mmap\<close> returns page-aligned addresses (or fails, \<open>None\<close>).
\<close>

section \<open>Slices\<close>

record buffer =
  bu_base :: int
  bu_len :: int
  bu_cap :: int

definition slice_of :: "buffer \<Rightarrow> int \<Rightarrow> buffer" where
  "slice_of b n = b\<lparr>bu_len := n\<rparr>"

text \<open>The memory behind a slice, and two pieces of memory without a common byte.\<close>

definition region :: "buffer \<Rightarrow> int \<times> int" where
  "region b = (bu_base b, bu_cap b)"

definition separate :: "int \<times> int \<Rightarrow> int \<times> int \<Rightarrow> bool" where
  "separate r q \<longleftrightarrow> fst r + snd r \<le> fst q \<or> fst q + snd q \<le> fst r"

lemma region_slice [simp]: "region (slice_of b n) = region b"
  by (simp add: region_def slice_of_def)

lemma separate_sym: "separate r q \<longleftrightarrow> separate q r"
  by (auto simp: separate_def)

section \<open>Size classes\<close>

fun bits_len :: "nat \<Rightarrow> nat" where
  "bits_len n = (if n = 0 then 0 else Suc (bits_len (n div 2)))"

declare bits_len.simps [simp del]

definition slab_class :: "int \<Rightarrow> nat option" where
  "slab_class n =
     (if n \<le> 0 then None
      else if n > 2 ^ 20 then None
      else
        let power = bits_len (nat (n - 1));
            power = (if power < 6 then 6 else power)
        in Some (power - 6))"

function medium_loop :: "int \<Rightarrow> nat \<Rightarrow> nat" where
  "medium_loop n class = (if 2 ^ (20 + class) < n then medium_loop n (Suc class) else class)"
  by auto
termination
  by (relation "measure (\<lambda>(n, class). nat (n - 2 ^ (20 + class)))") (auto simp: nat_mono_iff)

declare medium_loop.simps [simp del]

definition medium_class :: "int \<Rightarrow> nat option" where
  "medium_class n =
     (if n < 2 ^ 20 then None
      else if n > 2 ^ 30 then None
      else let class = medium_loop n 0 in if class > 10 then None else Some class)"

definition round_to_huge_page :: "int \<Rightarrow> (tensor_error, int) res" where
  "round_to_huge_page n =
     (if n > max_int64 - (2 ^ 21 - 1) then Err (ErrHugePageOverflow n)
      else Ok (wrap64 (wrap64 (n + 2 ^ 21) - 1) AND NOT (2 ^ 21 - 1)))"

section \<open>The pools\<close>

record alloc_state =
  al_slab :: "nat \<times> nat \<Rightarrow> buffer list"
  al_medium :: "nat \<Rightarrow> buffer list"
  al_large :: "buffer list"
  al_shard :: nat
  al_allocs :: nat
  al_frees :: nat

definition empty_pools :: alloc_state where
  "empty_pools = \<lparr>al_slab = (\<lambda>_. []), al_medium = (\<lambda>_. []), al_large = [], al_shard = 0,
     al_allocs = 0, al_frees = 0\<rparr>"

text \<open>\<open>Add(1)\<close> on the 64-bit counter; only its low six bits are read.\<close>

definition slab_shard_index :: "alloc_state \<Rightarrow> nat \<times> alloc_state" where
  "slab_shard_index st = (let v = Suc (al_shard st) in (v mod 64, st\<lparr>al_shard := v\<rparr>))"

text \<open>\<open>raw\<close> is the address \<open>make\<close> returns for \<open>n + 64\<close> bytes.\<close>

definition allocate_aligned :: "int \<Rightarrow> int \<Rightarrow> buffer" where
  "allocate_aligned raw n =
     (let offset = (64 - (raw AND 63)) AND 63 in \<lparr>bu_base = raw + offset, bu_len = n, bu_cap = n\<rparr>)"

definition slab_alloc :: "alloc_state \<Rightarrow> int \<Rightarrow> int \<Rightarrow> buffer option \<times> alloc_state" where
  "slab_alloc st n raw = (case slab_class n of
     None \<Rightarrow> (None, st)
   | Some class \<Rightarrow>
       let (shard, st) = slab_shard_index st in
       (case al_slab st (class, shard) of
          block # rest \<Rightarrow>
            (Some block, st\<lparr>al_slab := (al_slab st)((class, shard) := rest), al_allocs := al_allocs st + 1\<rparr>)
        | [] \<Rightarrow> (Some (allocate_aligned raw (2 ^ (6 + class))), st\<lparr>al_allocs := al_allocs st + 1\<rparr>)))"

definition slab_free :: "alloc_state \<Rightarrow> buffer \<Rightarrow> alloc_state" where
  "slab_free st b = (case slab_class (bu_cap b) of
     None \<Rightarrow> st
   | Some class \<Rightarrow>
       let (shard, st) = slab_shard_index st in
       st\<lparr>al_slab := (al_slab st)((class, shard) := b # al_slab st (class, shard)),
          al_frees := al_frees st + 1\<rparr>)"

definition mmap_alloc :: "int option \<Rightarrow> int \<Rightarrow> (tensor_error, buffer) res" where
  "mmap_alloc raw n = (case raw of
     None \<Rightarrow> Err ErrAllocatorExhausted
   | Some base \<Rightarrow> Ok \<lparr>bu_base = base, bu_len = n, bu_cap = n\<rparr>)"

definition mmap_medium :: "alloc_state \<Rightarrow> int \<Rightarrow> int option \<Rightarrow> (tensor_error, buffer) res \<times> alloc_state" where
  "mmap_medium st n raw = (case medium_class n of
     None \<Rightarrow> (Err ErrAllocatorExhausted, st)
   | Some class \<Rightarrow> (case al_medium st class of
        block # rest \<Rightarrow> (Ok block, st\<lparr>al_medium := (al_medium st)(class := rest)\<rparr>)
      | [] \<Rightarrow> (mmap_alloc raw (2 ^ (20 + class)), st)))"

definition mmap_medium_release :: "alloc_state \<Rightarrow> buffer \<Rightarrow> alloc_state" where
  "mmap_medium_release st b = (case medium_class (bu_cap b) of
     None \<Rightarrow> st
   | Some class \<Rightarrow> st\<lparr>al_medium := (al_medium st)(class := b # al_medium st class)\<rparr>)"

text \<open>First fit in the list of parked large blocks.\<close>

fun take_large :: "int \<Rightarrow> buffer list \<Rightarrow> (buffer \<times> buffer list) option" where
  "take_large n [] = None"
| "take_large n (b # bs) =
     (if bu_cap b \<ge> n then Some (b, bs)
      else map_option (\<lambda>(c, cs). (c, b # cs)) (take_large n bs))"

definition mmap_large :: "alloc_state \<Rightarrow> int \<Rightarrow> int option \<Rightarrow> (tensor_error, buffer) res \<times> alloc_state" where
  "mmap_large st n raw = (case round_to_huge_page n of
     Inl e \<Rightarrow> (Err e, st)
   | Inr rounded \<Rightarrow> (case take_large n (al_large st) of
        Some (b, rest) \<Rightarrow> (Ok (slice_of b n), st\<lparr>al_large := rest\<rparr>)
      | None \<Rightarrow> (map_sum id (\<lambda>b. slice_of b n) (mmap_alloc raw rounded), st)))"

definition mmap_large_release :: "alloc_state \<Rightarrow> buffer \<Rightarrow> alloc_state" where
  "mmap_large_release st b = st\<lparr>al_large := b # al_large st\<rparr>"

text \<open>
  \<open>raw\<close> is the address the system hands out if the pools have no block: for the slab tier \<open>make\<close>
  cannot fail. A request of at most 0 bytes yields the nil slice, \<open>Ok None\<close>.
\<close>

definition allocate ::
  "alloc_state \<Rightarrow> int \<Rightarrow> int option \<Rightarrow> (tensor_error, buffer option) res \<times> alloc_state" where
  "allocate st n raw =
     (if n \<le> 0 then (Ok None, st)
      else if n < 2 ^ 20 then (case slab_alloc st n (case raw of None \<Rightarrow> 0 | Some r \<Rightarrow> r) of
          (None, st) \<Rightarrow> (Err ErrAllocatorExhausted, st)
        | (Some b, st) \<Rightarrow> (Ok (Some (slice_of b n)), st))
      else if n < 2 ^ 30 then (case mmap_medium st n raw of
          (Inl e, st) \<Rightarrow> (Err e, st)
        | (Inr b, st) \<Rightarrow> (Ok (Some (slice_of b n)), st))
      else (case mmap_large st n raw of
          (Inl e, st) \<Rightarrow> (Err e, st)
        | (Inr b, st) \<Rightarrow> (Ok (Some b), st)))"

definition release :: "alloc_state \<Rightarrow> buffer \<Rightarrow> alloc_state" where
  "release st b =
     (let used = bu_cap b; full = slice_of b (bu_cap b) in
      if used \<le> 0 then st
      else if used < 2 ^ 20 then slab_free st full
      else if used < 2 ^ 30 then mmap_medium_release st full
      else mmap_large_release st full)"

section \<open>Classes fit\<close>

lemma bits_len_bound: "n < 2 ^ bits_len n"
proof (induction n rule: bits_len.induct)
  case (1 n)
  then show ?case by (subst bits_len.simps) auto
qed

lemma bits_len_least: "n < 2 ^ k \<Longrightarrow> bits_len n \<le> k"
proof (induction n arbitrary: k rule: bits_len.induct)
  case (1 n)
  show ?case
  proof (cases "n = 0")
    case True
    then show ?thesis by (simp add: bits_len.simps)
  next
    case False
    with "1.prems" obtain j where k: "k = Suc j" by (cases k) auto
    with "1.prems" have "n div 2 < 2 ^ j" by auto
    with "1.IH" False k show ?thesis by (subst bits_len.simps) simp
  qed
qed

lemma slab_class_spec:
  assumes "0 < n" and "n \<le> 2 ^ 20"
  shows "\<exists>c. slab_class n = Some c \<and> c \<le> 14 \<and> n \<le> 2 ^ (6 + c)"
proof -
  let ?p = "bits_len (nat (n - 1))"
  have "nat (n - 1) < 2 ^ 20" using assms by (simp add: nat_less_iff)
  then have p: "?p \<le> 20" by (rule bits_len_least)
  have "int (nat (n - 1)) < int (2 ^ ?p)" using bits_len_bound [of "nat (n - 1)"] by (simp only: of_nat_less_iff)
  then have n: "n \<le> 2 ^ ?p" using assms by simp
  show ?thesis
  proof (cases "?p < 6")
    case True
    have "(2 :: int) ^ ?p \<le> 2 ^ 6" using True by (intro power_increasing) simp_all
    with n True assms show ?thesis by (simp add: slab_class_def Let_def)
  next
    case False
    with n p assms show ?thesis by (simp add: slab_class_def Let_def)
  qed
qed

lemma slab_class_of_class: "c \<le> 14 \<Longrightarrow> slab_class (2 ^ (6 + c)) = Some c"
proof -
  assume c: "c \<le> 14"
  have le: "(2 :: int) ^ (6 + c) \<le> 2 ^ 20" using c by (intro power_increasing) simp_all
  have "nat (2 ^ (6 + c) - 1 :: int) = 2 ^ (6 + c) - 1" by (simp add: nat_diff_distrib nat_power_eq)
  moreover have "bits_len (2 ^ (6 + c) - 1) = 6 + c"
  proof (rule antisym)
    show "bits_len (2 ^ (6 + c) - 1) \<le> 6 + c" by (rule bits_len_least) simp
    show "6 + c \<le> bits_len (2 ^ (6 + c) - 1)"
    proof (rule ccontr)
      assume "\<not> 6 + c \<le> bits_len (2 ^ (6 + c) - 1)"
      then have "bits_len (2 ^ (6 + c) - 1) \<le> 5 + c" by simp
      then have "(2 :: nat) ^ bits_len (2 ^ (6 + c) - 1) \<le> 2 ^ (5 + c)" by (intro power_increasing) simp_all
      moreover have "(2 :: nat) ^ (6 + c) - 1 < 2 ^ bits_len (2 ^ (6 + c) - 1)" by (rule bits_len_bound)
      ultimately show False by (simp add: power_add)
    qed
  qed
  ultimately show ?thesis using le by (simp add: slab_class_def Let_def)
qed

lemma medium_loop_spec:
  "c \<le> k \<Longrightarrow> n \<le> 2 ^ (20 + k) \<Longrightarrow> c \<le> medium_loop n c \<and> medium_loop n c \<le> k \<and> n \<le> 2 ^ (20 + medium_loop n c)"
proof (induction n c rule: medium_loop.induct)
  case (1 n c)
  show ?case
  proof (cases "2 ^ (20 + c) < n")
    case True
    with "1.prems" have "c \<noteq> k" by auto
    with "1.prems" have "Suc c \<le> k" by simp
    with "1.IH" [OF True] "1.prems"(2) True show ?thesis by (subst (1 2 3) medium_loop.simps) auto
  next
    case False
    then show ?thesis using "1.prems" by (subst (1 2 3) medium_loop.simps) auto
  qed
qed

lemma medium_class_spec:
  assumes "2 ^ 20 \<le> n" and "n \<le> 2 ^ 30"
  shows "\<exists>c. medium_class n = Some c \<and> c \<le> 10 \<and> n \<le> 2 ^ (20 + c)"
  using medium_loop_spec [of 0 10 n] assms by (simp add: medium_class_def Let_def)

lemma medium_class_of_class: "c \<le> 10 \<Longrightarrow> medium_class (2 ^ (20 + c)) = Some c"
proof -
  assume c: "c \<le> 10"
  have "(2 :: int) ^ 20 \<le> 2 ^ (20 + c)" "(2 :: int) ^ (20 + c) \<le> 2 ^ 30" using c by (intro power_increasing; simp)+
  then obtain d where d: "medium_class (2 ^ (20 + c)) = Some d" "d \<le> 10" "(2 :: int) ^ (20 + c) \<le> 2 ^ (20 + d)"
    using medium_class_spec by blast
  have "medium_loop (2 ^ (20 + c)) 0 \<le> c" using medium_loop_spec [of 0 c "2 ^ (20 + c)"] by simp
  moreover have "d = medium_loop (2 ^ (20 + c)) 0"
    using d(1) by (auto simp: medium_class_def Let_def split: if_splits)
  moreover have "c \<le> d" using d(3) by (simp add: power_increasing_iff)
  ultimately show ?thesis using d(1) by simp
qed

lemma round_to_huge_page_spec:
  assumes "0 < n" and "round_to_huge_page n = Ok r"
  shows "n \<le> r \<and> r < n + 2 ^ 21 \<and> 2 ^ 21 dvd r"
proof -
  have n: "n + 2 ^ 21 - 1 < 2 ^ 63" using assms(2) by (simp add: round_to_huge_page_def max_int64_def split: if_splits)
  have w: "wrap64 (wrap64 (n + 2 ^ 21) - 1) = n + 2 ^ 21 - 1"
  proof (cases "n + 2 ^ 21 < 2 ^ 63")
    case True
    with assms(1) show ?thesis by (simp add: wrap64_pos)
  next
    case False
    with n have "n + 2 ^ 21 = 2 ^ 63" by simp
    then show ?thesis by (simp add: wrap64_def)
  qed
  have "r = round_up n (2 ^ 21)"
    using assms(2) and_not_low [of "n + 2 ^ 21 - 1" 21] unfolding round_to_huge_page_def w
    by (simp add: round_up_def split: if_splits)
  then show ?thesis using round_up_ge [of "2 ^ 21" n] round_up_lt [of "2 ^ 21" n] by simp
qed

section \<open>Executions\<close>

text \<open>How many bytes the system is asked for when the pools have no block.\<close>

definition system_request :: "int \<Rightarrow> int" where
  "system_request n =
     (if n < 2 ^ 20 then 2 ^ (6 + the (slab_class n)) + 64
      else if n < 2 ^ 30 then 2 ^ (20 + the (medium_class n))
      else case round_to_huge_page n of Inl e \<Rightarrow> n | Inr r \<Rightarrow> r)"

definition slots :: "(nat \<times> nat) set" where
  "slots = {..14} \<times> {..<64}"

text \<open>Everything the allocator and its clients own: parked blocks and live slices.\<close>

definition parked :: "alloc_state \<Rightarrow> (int \<times> int) multiset" where
  "parked st = image_mset region ((\<Sum>p \<in> slots. mset (al_slab st p)) + (\<Sum>c \<in> {..10}. mset (al_medium st c))
     + mset (al_large st))"

definition owned :: "alloc_state \<Rightarrow> buffer list \<Rightarrow> (int \<times> int) multiset" where
  "owned st live = parked st + image_mset region (mset live)"

definition system_memory :: "alloc_state \<Rightarrow> buffer list \<Rightarrow> int \<Rightarrow> int option \<Rightarrow> bool" where
  "system_memory st live n raw \<longleftrightarrow> (n < 2 ^ 20 \<longrightarrow> raw \<noteq> None) \<and> (\<forall>base. raw = Some base \<longrightarrow>
     (\<forall>r \<in># owned st live. separate (base, system_request n) r) \<and> (2 ^ 20 \<le> n \<longrightarrow> 4096 dvd base))"

inductive alloc_step :: "alloc_state \<times> buffer list \<Rightarrow> alloc_state \<times> buffer list \<Rightarrow> bool" where
  granted: "allocate st n raw = (Ok (Some b), st') \<Longrightarrow> system_memory st live n raw \<Longrightarrow>
    alloc_step (st, live) (st', b # live)"
| refused: "allocate st n raw = (r, st') \<Longrightarrow> \<forall>b. r \<noteq> Ok (Some b) \<Longrightarrow> alloc_step (st, live) (st', live)"
| released: "b \<in> set live \<Longrightarrow> alloc_step (st, live) (release st b, remove1 b live)"

inductive_cases alloc_stepE: "alloc_step (st, live) (st', live')"

definition alloc_reachable :: "alloc_state \<times> buffer list \<Rightarrow> bool" where
  "alloc_reachable s \<longleftrightarrow> alloc_step\<^sup>*\<^sup>* (empty_pools, []) s"

section \<open>Accounting\<close>

definition apart :: "(int \<times> int) multiset \<Rightarrow> bool" where
  "apart M \<longleftrightarrow> (\<forall>r \<in># M. \<forall>q \<in># M - {#r#}. separate r q)"

lemma apart_empty [simp]: "apart {#}"
  by (simp add: apart_def)

lemma apart_add: "apart (add_mset x M) \<longleftrightarrow> apart M \<and> (\<forall>q \<in># M. separate x q)"
proof
  assume a: "apart (add_mset x M)"
  have "separate r q" if "r \<in># M" "q \<in># M - {#r#}" for r q
  proof -
    have "M - {#r#} \<subseteq># add_mset x M - {#r#}"
      by (intro mset_subset_eqI) (simp add: diff_le_mono)
    then have "q \<in># add_mset x M - {#r#}" using that(2) by (rule mset_subset_eqD)
    moreover have "r \<in># add_mset x M" using that(1) by simp
    ultimately show ?thesis using a unfolding apart_def by blast
  qed
  with a show "apart M \<and> (\<forall>q \<in># M. separate x q)" by (simp add: apart_def)
next
  assume a: "apart M \<and> (\<forall>q \<in># M. separate x q)"
  have "separate r q" if r: "r \<in># add_mset x M" and q: "q \<in># add_mset x M - {#r#}" for r q
  proof (cases "r = x")
    case True
    with a q show ?thesis by simp
  next
    case False
    then have "add_mset x M - {#r#} = add_mset x (M - {#r#})" by (simp add: diff_add_mset_swap)
    with q have "q = x \<or> q \<in># M - {#r#}" by simp
    moreover have "r \<in># M" using r False by simp
    moreover from this have "separate r x" using a separate_sym [of r x] by blast
    moreover have "separate r q" if "q \<in># M - {#r#}" using a \<open>r \<in># M\<close> that by (auto simp: apart_def)
    ultimately show ?thesis by blast
  qed
  then show "apart (add_mset x M)" by (simp add: apart_def)
qed

lemma sum_update:
  fixes F :: "'b \<Rightarrow> 'c :: comm_monoid_add"
  assumes "finite S" and "p \<in> S"
  shows "(\<Sum>q \<in> S. F ((f(p := x)) q)) + F (f p) = (\<Sum>q \<in> S. F (f q)) + F x"
proof -
  have "(\<Sum>q \<in> S. F ((f(p := x)) q)) = F x + (\<Sum>q \<in> S - {p}. F ((f(p := x)) q))"
    using sum.remove [OF assms, of "\<lambda>q. F ((f(p := x)) q)"] by simp
  also have "(\<Sum>q \<in> S - {p}. F ((f(p := x)) q)) = (\<Sum>q \<in> S - {p}. F (f q))" by (rule sum.cong) auto
  finally show ?thesis using sum.remove [OF assms, of "\<lambda>q. F (f q)"] by (simp add: ac_simps)
qed

lemma image_mset_sum:
  "finite S \<Longrightarrow> image_mset f (\<Sum>p \<in> S. g p) = (\<Sum>p \<in> S. image_mset f (g p))"
  by (induction S rule: finite_induct) simp_all

lemma finite_slots [simp]: "finite slots"
  by (simp add: slots_def)

lemma parked_push_slab:
  "p \<in> slots \<Longrightarrow> parked (st\<lparr>al_slab := (al_slab st)(p := b # al_slab st p)\<rparr>) = add_mset (region b) (parked st)"
  using sum_update [of slots p "\<lambda>xs. image_mset region (mset xs)" "al_slab st" "b # al_slab st p"]
  by (simp add: parked_def image_mset_sum)

lemma parked_pop_slab:
  "p \<in> slots \<Longrightarrow> al_slab st p = b # rest \<Longrightarrow>
    parked st = add_mset (region b) (parked (st\<lparr>al_slab := (al_slab st)(p := rest)\<rparr>))"
  using sum_update [of slots p "\<lambda>xs. image_mset region (mset xs)" "al_slab st" rest]
  by (simp add: parked_def image_mset_sum)

lemma parked_push_medium:
  "c \<le> 10 \<Longrightarrow> parked (st\<lparr>al_medium := (al_medium st)(c := b # al_medium st c)\<rparr>) = add_mset (region b) (parked st)"
  using sum_update [of "{..10}" c "\<lambda>xs. image_mset region (mset xs)" "al_medium st" "b # al_medium st c"]
  by (simp add: parked_def image_mset_sum)

lemma parked_pop_medium:
  "c \<le> 10 \<Longrightarrow> al_medium st c = b # rest \<Longrightarrow>
    parked st = add_mset (region b) (parked (st\<lparr>al_medium := (al_medium st)(c := rest)\<rparr>))"
  using sum_update [of "{..10}" c "\<lambda>xs. image_mset region (mset xs)" "al_medium st" rest]
  by (simp add: parked_def image_mset_sum)

lemma parked_counters [simp]:
  "parked (st\<lparr>al_shard := v\<rparr>) = parked st" "parked (st\<lparr>al_allocs := k\<rparr>) = parked st"
  "parked (st\<lparr>al_frees := j\<rparr>) = parked st"
  by (simp_all add: parked_def)

lemma take_large_spec:
  "take_large n bs = Some (b, rest) \<Longrightarrow> mset bs = add_mset b (mset rest) \<and> n \<le> bu_cap b"
  by (induction bs arbitrary: rest) (auto split: if_splits)


section \<open>The invariant\<close>

definition good_cap :: "int \<Rightarrow> bool" where
  "good_cap k \<longleftrightarrow> (\<exists>c \<le> 24. k = 2 ^ (6 + c)) \<or> 2 ^ 30 \<le> k"

definition pools_ok :: "alloc_state \<Rightarrow> bool" where
  "pools_ok st \<longleftrightarrow>
     (\<forall>c. \<forall>s. \<forall>b \<in> set (al_slab st (c, s)). c \<le> 14 \<and> s < 64 \<and> bu_cap b = 2 ^ (6 + c)) \<and>
     (\<forall>c. \<forall>b \<in> set (al_medium st c). c \<le> 10 \<and> bu_cap b = 2 ^ (20 + c)) \<and>
     (\<forall>b \<in> set (al_large st). 2 ^ 30 \<le> bu_cap b)"

definition live_ok :: "buffer \<Rightarrow> bool" where
  "live_ok b \<longleftrightarrow> 0 < bu_len b \<and> bu_len b \<le> bu_cap b \<and> good_cap (bu_cap b)"

definition alloc_inv :: "alloc_state \<times> buffer list \<Rightarrow> bool" where
  "alloc_inv s \<longleftrightarrow> pools_ok (fst s) \<and> (\<forall>b \<in> set (snd s). live_ok b) \<and>
     (\<forall>r \<in># owned (fst s) (snd s). 64 dvd fst r) \<and> apart (owned (fst s) (snd s))"

text \<open>A granted slice is a parked block, or a new one.\<close>

definition grants :: "alloc_state \<Rightarrow> buffer list \<Rightarrow> int \<Rightarrow> buffer \<Rightarrow> alloc_state \<Rightarrow> bool" where
  "grants st live n b st' \<longleftrightarrow> pools_ok st' \<and> bu_len b = n \<and> n \<le> bu_cap b \<and> good_cap (bu_cap b) \<and>
     (parked st = add_mset (region b) (parked st') \<or>
      parked st' = parked st \<and> 64 dvd bu_base b \<and> (\<forall>r \<in># owned st live. separate (region b) r))"

lemma slice_of_simps [simp]:
  "bu_base (slice_of b n) = bu_base b" "bu_len (slice_of b n) = n" "bu_cap (slice_of b n) = bu_cap b"
  by (simp_all add: slice_of_def)

lemma pools_ok_counters [simp]:
  "pools_ok (st\<lparr>al_shard := v\<rparr>) = pools_ok st" "pools_ok (st\<lparr>al_allocs := k\<rparr>) = pools_ok st"
  "pools_ok (st\<lparr>al_frees := j\<rparr>) = pools_ok st"
  by (simp_all add: pools_ok_def)

lemma pools_ok_slab:
  "pools_ok st \<Longrightarrow> (\<And>b. b \<in> set xs \<Longrightarrow> c \<le> 14 \<and> s < 64 \<and> bu_cap b = 2 ^ (6 + c)) \<Longrightarrow>
    pools_ok (st\<lparr>al_slab := (al_slab st)((c, s) := xs)\<rparr>)"
  by (simp add: pools_ok_def)

lemma pools_ok_medium:
  "pools_ok st \<Longrightarrow> (\<And>b. b \<in> set xs \<Longrightarrow> c \<le> 10 \<and> bu_cap b = 2 ^ (20 + c)) \<Longrightarrow>
    pools_ok (st\<lparr>al_medium := (al_medium st)(c := xs)\<rparr>)"
  by (simp add: pools_ok_def)

lemma pools_ok_large:
  "pools_ok st \<Longrightarrow> (\<And>b. b \<in> set xs \<Longrightarrow> 2 ^ 30 \<le> bu_cap b) \<Longrightarrow> pools_ok (st\<lparr>al_large := xs\<rparr>)"
  by (simp add: pools_ok_def)

lemma pools_ok_cong:
  "pools_ok st \<Longrightarrow> al_slab st' = al_slab st \<Longrightarrow> al_medium st' = al_medium st \<Longrightarrow> al_large st' = al_large st \<Longrightarrow>
    pools_ok st'"
  by (simp only: pools_ok_def)

lemma pools_okD:
  "pools_ok st \<Longrightarrow> b \<in> set (al_slab st (c, s)) \<Longrightarrow> c \<le> 14 \<and> s < 64 \<and> bu_cap b = 2 ^ (6 + c)"
  "pools_ok st \<Longrightarrow> b \<in> set (al_medium st c) \<Longrightarrow> c \<le> 10 \<and> bu_cap b = 2 ^ (20 + c)"
  "pools_ok st \<Longrightarrow> b \<in> set (al_large st) \<Longrightarrow> 2 ^ 30 \<le> bu_cap b"
  unfolding pools_ok_def by blast+

lemma aligned_base:
  fixes raw :: int
  defines "a \<equiv> (64 - (raw AND 63)) AND 63"
  shows "64 dvd raw + a" "0 \<le> a" "a \<le> 63"
proof -
  have m: "x AND 63 = x mod 64" for x :: int
  proof -
    have "x AND mask 6 = x mod 2 ^ 6" by (simp only: take_bit_eq_mask [symmetric] take_bit_eq_mod)
    moreover have "(mask 6 :: int) = 63" "(2 :: int) ^ 6 = 64" by (simp_all add: mask_eq_exp_minus_1)
    ultimately show ?thesis by metis
  qed
  have "(raw + a) mod 64 = 0" unfolding a_def m by (simp add: mod_simps)
  then show "64 dvd raw + a" by (simp add: dvd_eq_mod_eq_0)
  show "0 \<le> a" unfolding a_def m by simp
  have "(64 - raw mod 64) mod 64 < 64" by (rule pos_mod_bound) simp
  then show "a \<le> 63" unfolding a_def m by linarith
qed

lemma separate_inside:
  "separate (base, k) r \<Longrightarrow> base \<le> base' \<Longrightarrow> base' + k' \<le> base + k \<Longrightarrow> separate (base', k') r"
  by (auto simp: separate_def)

lemma good_cap_slab: "c \<le> 14 \<Longrightarrow> good_cap (2 ^ (6 + c))"
  unfolding good_cap_def by (intro disjI1 exI [of _ c]) simp

lemma good_cap_medium: "c \<le> 10 \<Longrightarrow> good_cap (2 ^ (20 + c))"
  unfolding good_cap_def by (intro disjI1 exI [of _ "14 + c"]) (simp add: add.assoc [symmetric])

section \<open>Every tier grants a separate slice\<close>

lemma slot_of [simp]: "c \<le> 14 \<Longrightarrow> s < 64 \<Longrightarrow> (c, s) \<in> slots"
  by (simp add: slots_def)

lemma slab_shard_index_simps:
  "slab_shard_index st = (Suc (al_shard st) mod 64, st\<lparr>al_shard := Suc (al_shard st)\<rparr>)"
  by (simp add: slab_shard_index_def Let_def)

lemma grants_slab:
  assumes ok: "pools_ok st" and n: "0 < n" "n < 2 ^ 20"
    and mem: "system_memory st live n (Some raw)" and b: "slab_alloc st n raw = (Some b, st')"
  shows "grants st live n (slice_of b n) st'"
proof -
  obtain c where c: "slab_class n = Some c" "c \<le> 14" "n \<le> 2 ^ (6 + c)"
    using slab_class_spec [of n] n by auto
  define s where "s = Suc (al_shard st) mod 64"
  have s: "s < 64" by (simp add: s_def)
  show ?thesis
  proof (cases "al_slab st (c, s)")
    case Nil
    with b c(1) have b': "b = allocate_aligned raw (2 ^ (6 + c))"
      and st': "st' = st\<lparr>al_shard := Suc (al_shard st), al_allocs := al_allocs st + 1\<rparr>"
      by (auto simp: slab_alloc_def slab_shard_index_simps s_def)
    have "separate (region b) r" if "r \<in># owned st live" for r
    proof -
      have "separate (raw, system_request n) r" using mem that by (simp add: system_memory_def)
      moreover have "raw \<le> bu_base b" "bu_base b + bu_cap b \<le> raw + system_request n"
        using aligned_base [of raw] c(1) n(2) by (simp_all add: b' allocate_aligned_def system_request_def Let_def)
      ultimately show ?thesis unfolding region_def by (rule separate_inside)
    qed
    moreover have "64 dvd bu_base b" using aligned_base(1) [of raw] by (simp add: b' allocate_aligned_def Let_def)
    moreover have "bu_cap b = 2 ^ (6 + c)" by (simp add: b' allocate_aligned_def Let_def)
    ultimately show ?thesis using ok c good_cap_slab by (simp add: grants_def st' region_def)
  next
    case (Cons block rest)
    with b c(1) have b': "b = block"
      and st': "st' = st\<lparr>al_shard := Suc (al_shard st), al_slab := (al_slab st)((c, s) := rest), al_allocs := al_allocs st + 1\<rparr>"
      by (auto simp: slab_alloc_def slab_shard_index_simps s_def)
    have caps: "\<And>x. x \<in> set (block # rest) \<Longrightarrow> bu_cap x = 2 ^ (6 + c)"
      using ok Cons unfolding pools_ok_def by metis
    have "pools_ok (st\<lparr>al_slab := (al_slab st)((c, s) := rest)\<rparr>)"
      using caps c(2) s by (intro pools_ok_slab ok) simp
    then have "pools_ok st'" by (rule pools_ok_cong) (simp_all add: st')
    moreover have "parked st = add_mset (region b) (parked st')"
      using parked_pop_slab [of "(c, s)" st block rest] Cons c(2) s by (simp add: b' st' parked_def)
    ultimately show ?thesis using caps [of block] c good_cap_slab [OF c(2)] by (simp add: grants_def b')
  qed
qed

lemma grants_mmap:
  assumes "pools_ok st" and "mmap_alloc raw k = Ok b" and "system_memory st live n raw"
    and "2 ^ 20 \<le> n" and "system_request n = k" and "n \<le> k" and "good_cap k"
  shows "grants st live n (slice_of b n) st"
proof -
  obtain base where raw: "raw = Some base" and b: "b = \<lparr>bu_base = base, bu_len = k, bu_cap = k\<rparr>"
    using assms(2) by (auto simp: mmap_alloc_def split: option.splits)
  have "64 dvd (4096 :: int)" by simp
  moreover have "4096 dvd base" using assms(3,4) raw by (simp add: system_memory_def)
  ultimately have "64 dvd base" by (rule dvd_trans)
  with assms raw b show ?thesis by (simp add: grants_def system_memory_def region_def)
qed

lemma grants_medium:
  assumes ok: "pools_ok st" and n: "2 ^ 20 \<le> n" "n < 2 ^ 30"
    and mem: "system_memory st live n raw" and b: "mmap_medium st n raw = (Ok b, st')"
  shows "grants st live n (slice_of b n) st'"
proof -
  obtain c where c: "medium_class n = Some c" "c \<le> 10" "n \<le> 2 ^ (20 + c)"
    using medium_class_spec [of n] n by auto
  show ?thesis
  proof (cases "al_medium st c")
    case Nil
    with b c(1) have "mmap_alloc raw (2 ^ (20 + c)) = Ok b" "st' = st" by (auto simp: mmap_medium_def)
    then show ?thesis using grants_mmap [OF ok _ mem n(1)] n c good_cap_medium [OF c(2)] by (simp add: system_request_def)
  next
    case (Cons block rest)
    with b c(1) have b': "b = block" and st': "st' = st\<lparr>al_medium := (al_medium st)(c := rest)\<rparr>"
      by (auto simp: mmap_medium_def)
    have caps: "\<And>x. x \<in> set (block # rest) \<Longrightarrow> bu_cap x = 2 ^ (20 + c)"
      using ok Cons unfolding pools_ok_def by metis
    have "pools_ok st'" unfolding st' using caps c(2) by (intro pools_ok_medium ok) simp
    moreover have "parked st = add_mset (region b) (parked st')"
      using parked_pop_medium [of c st block rest] Cons c(2) by (simp add: b' st')
    ultimately show ?thesis using caps [of block] c good_cap_medium [OF c(2)] by (simp add: grants_def b')
  qed
qed

lemma grants_large:
  assumes ok: "pools_ok st" and n: "2 ^ 30 \<le> n"
    and mem: "system_memory st live n raw" and b: "mmap_large st n raw = (Ok b, st')"
  shows "grants st live n b st'"
proof -
  obtain k where k: "round_to_huge_page n = Ok k" using b by (auto simp: mmap_large_def split: sum.splits)
  have nk: "n \<le> k" using round_to_huge_page_spec [OF _ k] n by simp
  show ?thesis
  proof (cases "take_large n (al_large st)")
    case None
    with b k obtain b0 where b0: "mmap_alloc raw k = Ok b0" "b = slice_of b0 n" "st' = st"
      by (auto simp: mmap_large_def split: sum.splits) (metis map_sum.simps old.sum.exhaust sum.inject(2) sum.simps(4))
    then show ?thesis using grants_mmap [OF ok b0(1) mem] n nk k by (simp add: system_request_def good_cap_def)
  next
    case (Some p)
    then obtain blk rest where t: "take_large n (al_large st) = Some (blk, rest)" by (cases p) simp
    with b k have b': "b = slice_of blk n" and st': "st' = st\<lparr>al_large := rest\<rparr>" by (auto simp: mmap_large_def)
    note spec = take_large_spec [OF t]
    have sub: "set (blk # rest) = set (al_large st)" using spec by (metis mset.simps(2) mset_eq_setD)
    have caps: "\<And>x. x \<in> set (blk # rest) \<Longrightarrow> 2 ^ 30 \<le> bu_cap x" using ok sub unfolding pools_ok_def by blast
    have "pools_ok st'" unfolding st' using caps by (intro pools_ok_large ok) simp
    moreover have "parked st = add_mset (region b) (parked st')" using spec by (simp add: parked_def st' b')
    ultimately show ?thesis using caps [of blk] spec n by (simp add: grants_def b' good_cap_def)
  qed
qed

lemma grants_allocate:
  assumes "pools_ok st" and "system_memory st live n raw" and "allocate st n raw = (Ok (Some b), st')"
  shows "0 < n \<and> grants st live n b st'"
proof -
  have n: "0 < n" using assms(3) by (auto simp: allocate_def split: if_splits)
  consider "n < 2 ^ 20" | "2 ^ 20 \<le> n" "n < 2 ^ 30" | "2 ^ 30 \<le> n" by linarith
  then show ?thesis
  proof cases
    case 1
    then obtain r where raw: "raw = Some r" using assms(2) by (auto simp: system_memory_def)
    with 1 n assms(3) obtain b0 where "slab_alloc st n r = (Some b0, st')" "b = slice_of b0 n"
      by (auto simp: allocate_def split: prod.splits option.splits)
    with grants_slab [OF assms(1) n 1] assms(2) raw n show ?thesis by simp
  next
    case 2
    with n assms(3) obtain b0 where "mmap_medium st n raw = (Ok b0, st')" "b = slice_of b0 n"
      by (auto simp: allocate_def split: prod.splits sum.splits)
    with grants_medium [OF assms(1) 2 assms(2)] n show ?thesis by simp
  next
    case 3
    with n assms(3) have "mmap_large st n raw = (Ok b, st')"
      by (auto simp: allocate_def split: prod.splits sum.splits)
    with grants_large [OF assms(1) 3 assms(2)] n show ?thesis by simp
  qed
qed

section \<open>The invariant is kept\<close>

lemma parked_large: "parked (st\<lparr>al_large := b # al_large st\<rparr>) = add_mset (region b) (parked st)"
  by (simp add: parked_def)

lemma release_parks:
  assumes ok: "pools_ok st" and cap: "good_cap (bu_cap b)"
  shows "pools_ok (release st b) \<and> parked (release st b) = add_mset (region b) (parked st)"
proof -
  let ?full = "slice_of b (bu_cap b)"
  have pos: "0 < bu_cap b" using cap by (auto simp: good_cap_def)
  have full: "region ?full = region b" "bu_cap ?full = bu_cap b" by simp_all
  consider (slab) c where "c \<le> 13" "bu_cap b = 2 ^ (6 + c)" | (medium) c where "c \<le> 9" "bu_cap b = 2 ^ (20 + c)"
    | (large) "2 ^ 30 \<le> bu_cap b"
  proof -
    from cap consider c where "c \<le> 24" "bu_cap b = 2 ^ (6 + c)" | "2 ^ 30 \<le> bu_cap b" by (auto simp: good_cap_def)
    then show ?thesis
    proof cases
      case 1
      then consider "c \<le> 13" | "14 \<le> c" "c \<le> 23" | "c = 24" by linarith
      then show ?thesis
      proof cases
        case 2
        then have "20 + (c - 14) = 6 + c" "c - 14 \<le> 9" by simp_all
        with 1 show ?thesis using medium [of "c - 14"] by simp
      qed (use 1 slab large in auto)
    qed (rule large)
  qed
  then show ?thesis
  proof cases
    case slab
    have lt: "bu_cap b < 2 ^ 20" using slab power_strict_increasing [of "6 + c" 20 "2 :: int"] by simp
    define s where "s = Suc (al_shard st) mod 64"
    have s: "s < 64" by (simp add: s_def)
    have c: "slab_class (bu_cap b) = Some c" using slab slab_class_of_class [of c] by simp
    have r: "release st b = st\<lparr>al_shard := Suc (al_shard st), al_slab := (al_slab st)((c, s) := ?full # al_slab st (c, s)),
        al_frees := al_frees st + 1\<rparr>"
      using pos lt c by (simp add: release_def slab_free_def slab_shard_index_simps s_def)
    have "pools_ok (st\<lparr>al_slab := (al_slab st)((c, s) := ?full # al_slab st (c, s))\<rparr>)"
    proof (rule pools_ok_slab [OF ok])
      show "c \<le> 14 \<and> s < 64 \<and> bu_cap x = 2 ^ (6 + c)" if "x \<in> set (?full # al_slab st (c, s))" for x
        using that slab s pools_okD(1) [OF ok, of x c s] by (cases "x = ?full") auto
    qed
    then have "pools_ok (release st b)" by (rule pools_ok_cong) (simp_all add: r)
    moreover have "parked (release st b) = add_mset (region b) (parked st)"
      using parked_push_slab [of "(c, s)" st ?full] slab(1) s by (simp add: r parked_def)
    ultimately show ?thesis by simp
  next
    case medium
    have lt: "\<not> bu_cap b < 2 ^ 20" "bu_cap b < 2 ^ 30"
      using medium power_increasing [of 20 "20 + c" "2 :: int"] power_strict_increasing [of "20 + c" 30 "2 :: int"] by simp_all
    have c: "medium_class (bu_cap b) = Some c" using medium medium_class_of_class [of c] by simp
    have r: "release st b = st\<lparr>al_medium := (al_medium st)(c := ?full # al_medium st c)\<rparr>"
      using pos lt c by (simp add: release_def mmap_medium_release_def)
    have "pools_ok (release st b)" unfolding r
    proof (rule pools_ok_medium [OF ok])
      show "c \<le> 10 \<and> bu_cap x = 2 ^ (20 + c)" if "x \<in> set (?full # al_medium st c)" for x
        using that medium pools_okD(2) [OF ok, of x c] by (cases "x = ?full") auto
    qed
    then show ?thesis using medium parked_push_medium [of c st ?full] by (simp add: r)
  next
    case large
    then have r: "release st b = st\<lparr>al_large := ?full # al_large st\<rparr>"
      by (simp add: release_def mmap_large_release_def)
    have "pools_ok (release st b)" unfolding r
    proof (rule pools_ok_large [OF ok])
      show "2 ^ 30 \<le> bu_cap x" if "x \<in> set (?full # al_large st)" for x
        using that large pools_okD(3) [OF ok, of x] by (cases "x = ?full") auto
    qed
    then show ?thesis using parked_large [of ?full st] by (simp add: r)
  qed
qed

lemma alloc_failed_unchanged:
  assumes "allocate st n raw = (r, st')" and "\<forall>b. r \<noteq> Ok (Some b)" and "pools_ok st"
  shows "pools_ok st' \<and> parked st' = parked st"
proof -
  consider "n \<le> 0" | "0 < n" "n < 2 ^ 20" | "2 ^ 20 \<le> n" "n < 2 ^ 30" | "2 ^ 30 \<le> n" by linarith
  then show ?thesis
  proof cases
    case 2
    then obtain c where "slab_class n = Some c" using slab_class_spec [of n] by auto
    with 2 assms(1,2) show ?thesis
      by (auto simp: allocate_def slab_alloc_def slab_shard_index_simps split: list.splits option.splits)
  next
    case 3
    with assms show ?thesis
      by (auto simp: allocate_def mmap_medium_def mmap_alloc_def split: list.splits option.splits)
  next
    case 4
    with assms show ?thesis
      by (auto simp: allocate_def mmap_large_def mmap_alloc_def split: sum.splits option.splits)
  qed (use assms in \<open>auto simp: allocate_def\<close>)
qed

lemma alloc_inv_empty: "alloc_inv (empty_pools, [])"
  by (simp add: alloc_inv_def pools_ok_def empty_pools_def owned_def parked_def)

lemma alloc_inv_step:
  assumes "alloc_step s t" and "alloc_inv s"
  shows "alloc_inv t"
  using assms
proof (induction rule: alloc_step.induct)
  case (granted st n raw b st' live)
  then have ok: "pools_ok st" and live: "\<forall>b \<in> set live. live_ok b"
    and al: "\<forall>r \<in># owned st live. 64 dvd fst r" and ap: "apart (owned st live)" by (simp_all add: alloc_inv_def)
  have g: "0 < n" "grants st live n b st'" using grants_allocate [OF ok granted(2,1)] by simp_all
  from g(2) consider "owned st' (b # live) = owned st live"
    | "owned st' (b # live) = add_mset (region b) (owned st live)" "64 dvd bu_base b"
      "\<forall>r \<in># owned st live. separate (region b) r"
    unfolding grants_def owned_def by auto
  then have "(\<forall>r \<in># owned st' (b # live). 64 dvd fst r) \<and> apart (owned st' (b # live))"
    by cases (use al ap in \<open>auto simp: apart_add region_def\<close>)
  with g live show ?case by (auto simp: alloc_inv_def grants_def live_ok_def)
next
  case (refused st n raw r st' live)
  then show ?case using alloc_failed_unchanged [of st n raw r st'] by (simp add: alloc_inv_def owned_def)
next
  case (released b live st)
  then have "good_cap (bu_cap b)" "pools_ok st" by (auto simp: alloc_inv_def live_ok_def)
  note r = release_parks [OF this(2,1)]
  have "mset live = add_mset b (mset (remove1 b live))" using released(1) by simp
  then have "image_mset region (mset live) = add_mset (region b) (image_mset region (mset (remove1 b live)))"
    by (metis image_mset_add_mset)
  then have "owned (release st b) (remove1 b live) = owned st live"
    using r by (simp add: owned_def)
  moreover have "set (remove1 b live) \<subseteq> set live" by (rule set_remove1_subset)
  ultimately show ?case using released(2) r by (auto simp: alloc_inv_def)
qed

lemma alloc_inv_reachable: "alloc_reachable s \<Longrightarrow> alloc_inv s"
  unfolding alloc_reachable_def by (induction rule: rtranclp_induct) (auto intro: alloc_inv_empty alloc_inv_step)

section \<open>Properties\<close>

lemma apart_nth:
  assumes "apart (image_mset f (mset xs))" and "i < length xs" and "j < length xs" and "i \<noteq> j"
  shows "separate (f (xs ! i)) (f (xs ! j))"
  using assms
proof (induction xs arbitrary: i j)
  case (Cons x xs)
  then have h: "apart (image_mset f (mset xs))" "\<And>y. y \<in> set xs \<Longrightarrow> separate (f x) (f y)"
    by (auto simp: apart_add)
  show ?case
  proof (cases i)
    case 0
    then show ?thesis using Cons.prems h(2) [of "xs ! (j - 1)"] by (cases j) auto
  next
    case (Suc i')
    show ?thesis
    proof (cases j)
      case 0
      then show ?thesis using Cons.prems Suc h(2) [of "xs ! i'"] by (simp add: separate_sym)
    next
      case (Suc j')
      with \<open>i = Suc i'\<close> Cons.prems Cons.IH [OF h(1), of i' j'] show ?thesis by simp
    qed
  qed
qed simp

lemma apart_union: "apart (M + N) \<Longrightarrow> apart N \<and> (\<forall>r \<in># M. \<forall>q \<in># N. separate r q)"
  by (induction M) (auto simp: apart_add)

text \<open>
  C16. Memory safety of the tiered allocator. Whatever sequence of \<open>Allocate\<close> and \<open>Release\<close> calls
  has been executed, from empty pools, with a system that hands out memory nobody uses: any two
  slices in the hands of clients are disjoint, none overlaps a block parked in one of the pools, and
  every one starts at a multiple of 64 and fits in the block behind it.
\<close>

theorem allocator_safe:
  assumes "alloc_reachable (st, live)"
  shows "(\<forall>i < length live. \<forall>j < length live. i \<noteq> j \<longrightarrow> separate (region (live ! i)) (region (live ! j))) \<and>
    (\<forall>b \<in> set live. 64 dvd bu_base b \<and> 0 < bu_len b \<and> bu_len b \<le> bu_cap b \<and>
       (\<forall>r \<in># parked st. separate r (region b)))"
proof -
  have inv: "alloc_inv (st, live)" using alloc_inv_reachable [OF assms] .
  then have ap: "apart (image_mset region (mset live))" "\<And>r b. r \<in># parked st \<Longrightarrow> b \<in> set live \<Longrightarrow> separate r (region b)"
    using apart_union [of "parked st" "image_mset region (mset live)"] by (auto simp: alloc_inv_def owned_def)
  have "64 dvd bu_base b \<and> live_ok b" if "b \<in> set live" for b
  proof -
    have "region b \<in># owned st live" using that by (simp add: owned_def)
    then show ?thesis using inv that by (auto simp: alloc_inv_def region_def)
  qed
  then show ?thesis using apart_nth [OF ap(1)] ap(2) by (auto simp: live_ok_def)
qed

lemma slab_class_100: "slab_class 100 = Some 1"
  by (simp add: slab_class_def bits_len.simps)

theorem allocator_safe_witness:
  "\<exists>st b c. alloc_reachable (st, [c, b]) \<and> bu_cap b = 128 \<and> separate (region c) (region b)"
proof -
  let ?b = "\<lparr>bu_base = 1024, bu_len = 100, bu_cap = 128\<rparr>"
  let ?c = "\<lparr>bu_base = 5056, bu_len = 100, bu_cap = 128\<rparr>"
  let ?s1 = "empty_pools\<lparr>al_shard := 1, al_allocs := 1\<rparr>" and ?s2 = "empty_pools\<lparr>al_shard := 2, al_allocs := 2\<rparr>"
  have none: "parked ?s1 = {#}" "parked empty_pools = {#}" by (simp_all add: parked_def empty_pools_def)
  have "allocate empty_pools 100 (Some 1000) = (Ok (Some ?b), ?s1)"
    by (simp add: allocate_def slab_alloc_def slab_class_100 slab_shard_index_simps empty_pools_def
        allocate_aligned_def slice_of_def Let_def)
  then have "alloc_step (empty_pools, []) (?s1, [?b])"
    by (rule granted) (simp add: system_memory_def owned_def none)
  moreover have "allocate ?s1 100 (Some 5000) = (Ok (Some ?c), ?s2)"
    by (simp add: allocate_def slab_alloc_def slab_class_100 slab_shard_index_simps empty_pools_def
        allocate_aligned_def slice_of_def Let_def)
  then have "alloc_step (?s1, [?b]) (?s2, [?c, ?b])"
    by (rule granted) (simp add: system_memory_def owned_def none system_request_def slab_class_100 region_def separate_def)
  ultimately have r: "alloc_reachable (?s2, [?c, ?b])" unfolding alloc_reachable_def by auto
  from allocator_safe [OF r] have "separate (region ([?c, ?b] ! 0)) (region ([?c, ?b] ! 1))"
    by (metis One_nat_def length_Cons list.size(3) not_one_le_zero zero_less_Suc lessI le_refl)
  with r show ?thesis by (intro exI [of _ ?s2] exI [of _ ?b] exI [of _ ?c]) simp
qed

text \<open>
  The tier of a released slice is read from its capacity alone, and the two ends of the slab
  range disagree: a request of more than half a mebibyte is served from the slab class of exactly
  one mebibyte, and its release parks the block in the medium pool. The slab pools are unchanged,
  so that slab class is never refilled.
\<close>

theorem largest_slab_class_leaks:
  assumes "pools_ok st" and "2 ^ 19 < n" and "n < 2 ^ 20" and "allocate st n (Some raw) = (Ok (Some b), st')"
  shows "bu_cap b = 2 ^ 20 \<and> al_slab (release st' b) = al_slab st' \<and>
    al_medium (release st' b) = (al_medium st')(0 := slice_of b (2 ^ 20) # al_medium st' 0)"
proof -
  obtain c where c: "slab_class n = Some c" "c \<le> 14" "n \<le> 2 ^ (6 + c)" using slab_class_spec [of n] assms by auto
  have "c = 14"
  proof (rule ccontr)
    assume "c \<noteq> 14"
    then have "(2 :: int) ^ (6 + c) \<le> 2 ^ 19" using c(2) by (intro power_increasing) simp_all
    with c(3) assms(2) show False by simp
  qed
  have caps: "\<And>x s. x \<in> set (al_slab st (14, s)) \<Longrightarrow> bu_cap x = 2 ^ 20"
    using pools_okD(1) [OF assms(1)] by fastforce
  have cap: "bu_cap b = 2 ^ 20"
    using assms(2-4) c(1) \<open>c = 14\<close> caps [of _ "Suc (al_shard st) mod 64"]
    by (auto simp: allocate_def slab_alloc_def slab_shard_index_simps allocate_aligned_def Let_def split: list.splits)
  moreover have "medium_class (2 ^ 20) = Some 0" using medium_class_of_class [of 0] by simp
  ultimately show ?thesis by (simp add: release_def mmap_medium_release_def)
qed

theorem largest_slab_class_leaks_witness:
  "\<exists>b st'. allocate empty_pools 600000 (Some 64) = (Ok (Some b), st') \<and> al_medium (release st' b) 0 = [slice_of b (2 ^ 20)]"
proof -
  have "pools_ok empty_pools" by (simp add: pools_ok_def empty_pools_def)
  obtain c where "slab_class 600000 = Some c" using slab_class_spec [of 600000] by auto
  then obtain b st' where a: "allocate empty_pools 600000 (Some 64) = (Ok (Some b), st')" "al_medium st' = (\<lambda>_. [])"
    by (simp add: allocate_def slab_alloc_def slab_shard_index_simps empty_pools_def)
  show ?thesis
    using largest_slab_class_leaks [OF \<open>pools_ok empty_pools\<close> _ _ a(1)] a by (intro exI [of _ b] exI [of _ st']) simp
qed

end
