(* ===== verification/Fusion_Clusters.thy ===== *)
theory Fusion_Clusters
  imports Streams
begin

text \<open>
  Fusion clusters of a compiled topology, \<open>ir/fusion.go\<close>. The walk goes over the nodes from last
  to first and grows one expression tree per node that no earlier tree has taken. The recursion of
  \<open>buildClusterNode\<close> runs on fuel; one more than the number of nodes is enough, since every call
  marks a node visited. A nil dereference is \<open>None\<close>, like running out of fuel.
\<close>

section \<open>Expression trees\<close>

datatype fusion_type =
    FusionInput | FusionConstant
  | FusionAdd | FusionSub | FusionMul | FusionDiv
  | FusionNeg | FusionAbs | FusionSqrt
  | FusionExp | FusionLog
  | FusionReLU | FusionSigmoid | FusionTanh

definition fusion_type_string :: "fusion_type \<Rightarrow> string" where
  "fusion_type_string t = (case t of
     FusionInput \<Rightarrow> ''Input'' | FusionConstant \<Rightarrow> ''Constant''
   | FusionAdd \<Rightarrow> ''Add'' | FusionSub \<Rightarrow> ''Sub'' | FusionMul \<Rightarrow> ''Mul'' | FusionDiv \<Rightarrow> ''Div''
   | FusionNeg \<Rightarrow> ''Neg'' | FusionAbs \<Rightarrow> ''Abs'' | FusionSqrt \<Rightarrow> ''Sqrt''
   | FusionExp \<Rightarrow> ''Exp'' | FusionLog \<Rightarrow> ''Log''
   | FusionReLU \<Rightarrow> ''ReLU'' | FusionSigmoid \<Rightarrow> ''Sigmoid'' | FusionTanh \<Rightarrow> ''Tanh'')"

datatype cluster_node =
  ClusterNode (cn_type: fusion_type) (cn_value: "64 word") (cn_input: nat) (cn_children: "cluster_node list") (cn_dtype: dtype)

record cluster =
  cl_root :: cluster_node
  cl_inputs :: "int list"
  cl_output :: int
  cl_count :: string

definition fusible_ops :: "(string \<times> fusion_type) list" where
  "fusible_ops =
     [(''math.add'', FusionAdd), (''math.sub'', FusionSub), (''math.mul'', FusionMul), (''math.div'', FusionDiv),
      (''math.neg'', FusionNeg), (''math.abs'', FusionAbs), (''math.sqrt'', FusionSqrt),
      (''math.exp'', FusionExp), (''math.log'', FusionLog),
      (''activation.relu'', FusionReLU), (''activation.sigmoid'', FusionSigmoid), (''activation.tanh'', FusionTanh)]"

definition fusion_type_for_op :: "string \<Rightarrow> fusion_type option" where
  "fusion_type_for_op op = map_of fusible_ops op"

definition is_fusible_elementwise :: "string \<Rightarrow> bool" where
  "is_fusible_elementwise op \<longleftrightarrow> fusion_type_for_op op \<noteq> None"

section \<open>Growing a cluster\<close>

definition build_consumer_counts :: "ir_node option list \<Rightarrow> nat \<Rightarrow> nat" where
  "build_consumer_counts nodes a =
     count_list (concat (map (\<lambda>n. case n of None \<Rightarrow> [] | Some n \<Rightarrow> n_inputs n) nodes)) (Some a)"

record cluster_context =
  cc_heap :: port_heap
  cc_nodes :: "ir_node option list"
  cc_producers :: "nat \<rightharpoonup> nat"
  cc_counts :: "nat \<Rightarrow> nat"

record grow_state =
  gs_visited :: "nat list"
  gs_inputs :: "int list"

type_synonym 'r grow_step = "grow_state \<Rightarrow> ('r \<times> grow_state) option"

definition external_port :: "cluster_context \<Rightarrow> nat \<Rightarrow> grow_state \<Rightarrow> cluster_node \<times> grow_state" where
  "external_port c a st =
     (ClusterNode FusionInput 0 (length (gs_inputs st)) [] (pt_dtype (port_type (cc_heap c a))),
      st\<lparr>gs_inputs := gs_inputs st @ [id_of (cc_heap c) a]\<rparr>)"

text \<open>The producer to absorb at an input, if any.\<close>

definition absorbable :: "cluster_context \<Rightarrow> nat \<Rightarrow> grow_state \<Rightarrow> nat option" where
  "absorbable c a st = (case cc_producers c a of
     None \<Rightarrow> None
   | Some j \<Rightarrow>
       if j \<in> set (gs_visited st) then None
       else (case cc_nodes c ! j of
          None \<Rightarrow> None
        | Some n \<Rightarrow> if is_fusible_elementwise (n_op n) \<and> cc_counts c a = 1 then Some j else None))"

definition child_for_input ::
  "(nat \<Rightarrow> cluster_node option grow_step) \<Rightarrow> cluster_context \<Rightarrow> nat \<Rightarrow> cluster_node grow_step" where
  "child_for_input build c a st = (case absorbable c a st of
     None \<Rightarrow> Some (external_port c a st)
   | Some j \<Rightarrow> (case build j st of
        None \<Rightarrow> None
      | Some (Some t, st') \<Rightarrow> Some (t, st')
      | Some (None, st') \<Rightarrow> Some (external_port c a st')))"

fun cluster_children ::
  "(nat \<Rightarrow> cluster_node grow_step) \<Rightarrow> port_ref list \<Rightarrow> cluster_node list grow_step" where
  "cluster_children f [] st = Some ([], st)"
| "cluster_children f (None # ps) st = cluster_children f ps st"
| "cluster_children f (Some a # ps) st =
     Option.bind (f a st) (\<lambda>(t, st). Option.bind (cluster_children f ps st) (\<lambda>(ts, st). Some (t # ts, st)))"

definition output_dtype :: "port_heap \<Rightarrow> ir_node \<Rightarrow> dtype" where
  "output_dtype h n = (case n_outputs n of Some a # _ \<Rightarrow> pt_dtype (port_type (h a)) | _ \<Rightarrow> DInvalid)"

primrec build_cluster_node :: "nat \<Rightarrow> cluster_context \<Rightarrow> nat \<Rightarrow> cluster_node option grow_step" where
  "build_cluster_node 0 c j st = None"
| "build_cluster_node (Suc k) c j st = (case cc_nodes c ! j of
     None \<Rightarrow> Some (None, st)
   | Some n \<Rightarrow> (case fusion_type_for_op (n_op n) of
        None \<Rightarrow> Some (None, st)
      | Some ty \<Rightarrow>
          Option.bind (cluster_children (child_for_input (build_cluster_node k c) c) (n_inputs n)
              (st\<lparr>gs_visited := j # gs_visited st\<rparr>)) (\<lambda>(ts, st).
            Some (Some (ClusterNode ty 0 0 ts (output_dtype (cc_heap c) n)), st))))"

definition fusion_count_expr :: "port \<Rightarrow> string" where
  "fusion_count_expr p =
     (let ds = pt_shape (port_type p) in
      if ds = [] then []
      else if \<not> list_ex is_symbolic ds then []
      else join '' * '' (map dim_string ds))"

definition grow_cluster :: "cluster_context \<Rightarrow> nat \<Rightarrow> nat list \<Rightarrow> (cluster option \<times> nat list) option" where
  "grow_cluster c i visited = (case cc_nodes c ! i of
     None \<Rightarrow> None
   | Some seed \<Rightarrow> (case n_outputs seed of
        [] \<Rightarrow> Some (None, visited)
      | out # _ \<Rightarrow>
          Option.bind (build_cluster_node (Suc (length (cc_nodes c))) c i \<lparr>gs_visited = visited, gs_inputs = []\<rparr>)
            (\<lambda>(root, st). case root of
               None \<Rightarrow> Some (None, gs_visited st)
             | Some t \<Rightarrow> (case out of
                 None \<Rightarrow> None
               | Some a \<Rightarrow> Some (Some \<lparr>cl_root = t, cl_inputs = gs_inputs st, cl_output = id_of (cc_heap c) a,
                   cl_count = fusion_count_expr (cc_heap c a)\<rparr>, gs_visited st)))))"

section \<open>The pass\<close>

text \<open>\<open>clusters_below c i\<close> treats the nodes \<open>i - 1, \<dots>, 0\<close>; the result is already in forward order.\<close>

primrec clusters_below :: "cluster_context \<Rightarrow> nat \<Rightarrow> nat list \<Rightarrow> cluster list \<Rightarrow> cluster list option" where
  "clusters_below c 0 visited acc = Some acc"
| "clusters_below c (Suc i) visited acc =
     (if cc_nodes c ! i = None \<or> i \<in> set visited then clusters_below c i visited acc
      else if \<not> is_fusible_elementwise (n_op (the (cc_nodes c ! i))) then clusters_below c i visited acc
      else Option.bind (grow_cluster c i visited) (\<lambda>(cl, visited).
        clusters_below c i visited (case cl of None \<Rightarrow> acc | Some cl \<Rightarrow> cl # acc)))"

definition cluster_context_of :: "port_heap \<Rightarrow> topology \<Rightarrow> cluster_context" where
  "cluster_context_of h t = \<lparr>cc_heap = h, cc_nodes = t_nodes t, cc_producers = build_producer_index (t_nodes t),
     cc_counts = build_consumer_counts (t_nodes t)\<rparr>"

definition find_fusion_clusters :: "port_heap \<Rightarrow> topology option \<Rightarrow> cluster list option" where
  "find_fusion_clusters h topo = (case topo of
     None \<Rightarrow> Some []
   | Some t \<Rightarrow> clusters_below (cluster_context_of h t) (length (t_nodes t)) [] [])"

section \<open>Meaning of a cluster\<close>

text \<open>
  \<open>op\<close> gives every operation its meaning on a list of operands; \<open>xs\<close> are the values of the
  cluster's input ports.
\<close>

fun cluster_value :: "(fusion_type \<Rightarrow> 'v list \<Rightarrow> 'v) \<Rightarrow> 'v list \<Rightarrow> cluster_node \<Rightarrow> 'v" where
  "cluster_value op xs (ClusterNode ty v i ts d) =
     (if ty = FusionInput then xs ! i else op ty (map (cluster_value op xs) ts))"

fun cluster_ops :: "cluster_node \<Rightarrow> fusion_type list" where
  "cluster_ops (ClusterNode ty v i ts d) =
     (if ty = FusionInput then [] else ty # concat (map cluster_ops ts))"

definition present :: "port_ref list \<Rightarrow> nat list" where
  "present ps = map the (filter (\<lambda>p. p \<noteq> None) ps)"

lemma present_simps [simp]:
  "present [] = []" "present (None # ps) = present ps" "present (Some a # ps) = a # present ps"
  by (simp_all add: present_def)

text \<open>The fusible nodes, by index, and their operation.\<close>

definition fusible_at :: "ir_node option list \<Rightarrow> nat \<Rightarrow> ir_node \<Rightarrow> fusion_type \<Rightarrow> bool" where
  "fusible_at nodes j n ty \<longleftrightarrow> j < length nodes \<and> nodes ! j = Some n \<and> fusion_type_for_op (n_op n) = Some ty"

definition type_at :: "ir_node option list \<Rightarrow> nat \<Rightarrow> fusion_type" where
  "type_at nodes j = the (fusion_type_for_op (n_op (the (nodes ! j))))"

definition fusible_indices :: "ir_node option list \<Rightarrow> nat set" where
  "fusible_indices nodes = {j. \<exists>n ty. fusible_at nodes j n ty}"

text \<open>\<open>env\<close> gives every port a value that its producing operation computes.\<close>

definition ports_consistent ::
  "(fusion_type \<Rightarrow> 'v list \<Rightarrow> 'v) \<Rightarrow> ir_node option list \<Rightarrow> (nat \<Rightarrow> 'v) \<Rightarrow> bool" where
  "ports_consistent op nodes env \<longleftrightarrow> (\<forall>j n ty a. fusible_at nodes j n ty \<longrightarrow> n_outputs n = [Some a] \<longrightarrow>
     env a = op ty (map env (present (n_inputs n))))"

text \<open>Fusible nodes have one output.\<close>

definition single_outputs :: "ir_node option list \<Rightarrow> bool" where
  "single_outputs nodes \<longleftrightarrow> (\<forall>j n ty. fusible_at nodes j n ty \<longrightarrow> (\<exists>a. n_outputs n = [Some a]))"

definition context_good :: "cluster_context \<Rightarrow> bool" where
  "context_good c \<longleftrightarrow> single_outputs (cc_nodes c) \<and>
     (\<forall>a j. cc_producers c a = Some j \<longrightarrow> j < length (cc_nodes c)
        \<and> (\<exists>n. cc_nodes c ! j = Some n \<and> Some a \<in> set (n_outputs n)))"

definition grow_inv :: "cluster_context \<Rightarrow> nat list \<Rightarrow> bool" where
  "grow_inv c vs \<longleftrightarrow> distinct vs \<and> set vs \<subseteq> fusible_indices (cc_nodes c)"

text \<open>
  What a step of the builder does: it visits the new nodes \<open>N\<close>, records the ports \<open>ps\<close>, and its
  tree holds exactly the operations of \<open>N\<close> and denotes \<open>y\<close>, whatever inputs come later.
\<close>

definition grew ::
  "(fusion_type \<Rightarrow> 'v list \<Rightarrow> 'v) \<Rightarrow> cluster_context \<Rightarrow> (nat \<Rightarrow> 'v) \<Rightarrow> grow_state \<Rightarrow> grow_state
     \<Rightarrow> cluster_node list \<Rightarrow> 'v list \<Rightarrow> bool" where
  "grew op c env st st' ts ys \<longleftrightarrow> (\<exists>N ps.
     gs_visited st' = N @ gs_visited st \<and> gs_inputs st' = gs_inputs st @ map (id_of (cc_heap c)) ps \<and>
     grow_inv c (gs_visited st') \<and>
     mset (concat (map cluster_ops ts)) = image_mset (type_at (cc_nodes c)) (mset N) \<and>
     (\<forall>pre post. length pre = length (gs_inputs st) \<longrightarrow>
        map (cluster_value op (pre @ map env ps @ post)) ts = ys))"

lemma grewI:
  assumes "gs_visited st' = N @ gs_visited st" and "gs_inputs st' = gs_inputs st @ map (id_of (cc_heap c)) ps"
    and "grow_inv c (gs_visited st')" and "mset (concat (map cluster_ops ts)) = image_mset (type_at (cc_nodes c)) (mset N)"
    and "\<And>pre post. length pre = length (gs_inputs st) \<Longrightarrow> map (cluster_value op (pre @ map env ps @ post)) ts = ys"
  shows "grew op c env st st' ts ys"
  unfolding grew_def using assms by (intro exI [of _ N] exI [of _ ps]) simp

lemma grew_external:
  "grow_inv c (gs_visited st) \<Longrightarrow> external_port c a st = (t, st') \<Longrightarrow> grew op c env st st' [t] [env a]"
  by (rule grewI [where N = "[]" and ps = "[a]"]) (auto simp: external_port_def nth_append)

lemma grew_Nil: "grow_inv c (gs_visited st) \<Longrightarrow> grew op c env st st [] []"
  by (rule grewI [where N = "[]" and ps = "[]"]) auto

lemma grew_Cons:
  assumes "grew op c env st st1 [t] [y]" and "grew op c env st1 st2 ts ys"
  shows "grew op c env st st2 (t # ts) (y # ys)"
proof -
  from assms(1) obtain N ps where 1: "gs_visited st1 = N @ gs_visited st"
    "gs_inputs st1 = gs_inputs st @ map (id_of (cc_heap c)) ps"
    "mset (cluster_ops t) = image_mset (type_at (cc_nodes c)) (mset N)"
    "\<And>pre post. length pre = length (gs_inputs st) \<Longrightarrow> cluster_value op (pre @ map env ps @ post) t = y"
    by (auto simp: grew_def)
  from assms(2) obtain M qs where 2: "gs_visited st2 = M @ gs_visited st1"
    "gs_inputs st2 = gs_inputs st1 @ map (id_of (cc_heap c)) qs" "grow_inv c (gs_visited st2)"
    "mset (concat (map cluster_ops ts)) = image_mset (type_at (cc_nodes c)) (mset M)"
    "\<And>pre post. length pre = length (gs_inputs st1) \<Longrightarrow>
        map (cluster_value op (pre @ map env qs @ post)) ts = ys"
    by (auto simp: grew_def)
  show ?thesis
  proof (rule grewI [where N = "M @ N" and ps = "ps @ qs"])
    fix pre post :: "'a list"
    assume len: "length pre = length (gs_inputs st)"
    have "cluster_value op (pre @ map env (ps @ qs) @ post) t = y"
      using 1(4) [OF len, of "map env qs @ post"] by simp
    moreover have "map (cluster_value op (pre @ map env (ps @ qs) @ post)) ts = ys"
      using 2(5) [of "pre @ map env ps" post] len 1(2) by simp
    ultimately show "map (cluster_value op (pre @ map env (ps @ qs) @ post)) (t # ts) = y # ys" by simp
  qed (use 1 2 in \<open>simp_all add: add.commute\<close>)
qed

lemma fusible_not_input: "fusion_type_for_op s = Some ty \<Longrightarrow> ty \<noteq> FusionInput"
  by (auto simp: fusion_type_for_op_def fusible_ops_def split: if_splits)

lemma absorbable_Some:
  assumes "context_good c" and "absorbable c a st = Some j"
  shows "\<exists>n ty. fusible_at (cc_nodes c) j n ty \<and> n_outputs n = [Some a] \<and> j \<notin> set (gs_visited st)"
proof -
  from assms(2) have j: "cc_producers c a = Some j" "j \<notin> set (gs_visited st)"
    and n: "\<exists>n. cc_nodes c ! j = Some n \<and> is_fusible_elementwise (n_op n)"
    by (auto simp: absorbable_def split: option.splits if_splits)
  from assms(1) j(1) obtain m where m: "j < length (cc_nodes c)" "cc_nodes c ! j = Some m" "Some a \<in> set (n_outputs m)"
    unfolding context_good_def by blast
  with n obtain n ty where n: "fusible_at (cc_nodes c) j n ty" "Some a \<in> set (n_outputs n)"
    by (auto simp: is_fusible_elementwise_def fusible_at_def)
  with assms(1) obtain b where "n_outputs n = [Some b]" unfolding context_good_def single_outputs_def by blast
  with n j(2) show ?thesis by auto
qed

lemma child_spec:
  assumes "context_good c" and inv: "grow_inv c (gs_visited st)"
    and build: "\<And>j n ty. absorbable c a st = Some j \<Longrightarrow> fusible_at (cc_nodes c) j n ty \<Longrightarrow> n_outputs n = [Some a] \<Longrightarrow>
      j \<notin> set (gs_visited st) \<Longrightarrow> \<exists>t st'. f j st = Some (Some t, st') \<and> grew op c env st st' [t] [env a]"
  shows "\<exists>t st'. child_for_input f c a st = Some (t, st') \<and> grew op c env st st' [t] [env a]"
proof (cases "absorbable c a st")
  case None
  obtain t st' where "external_port c a st = (t, st')" by (cases "external_port c a st")
  with None grew_external [OF inv] show ?thesis by (auto simp: child_for_input_def)
next
  case (Some j)
  with absorbable_Some [OF assms(1)] build show ?thesis by (fastforce simp: child_for_input_def)
qed

lemma grew_inv: "grew op c env st st' ts ys \<Longrightarrow> grow_inv c (gs_visited st') \<and> set (gs_visited st) \<subseteq> set (gs_visited st')"
  by (auto simp: grew_def)

lemma children_spec:
  assumes "\<And>a st. grow_inv c (gs_visited st) \<Longrightarrow> V \<subseteq> set (gs_visited st) \<Longrightarrow>
      \<exists>t st'. f a st = Some (t, st') \<and> grew op c env st st' [t] [env a]"
    and "grow_inv c (gs_visited st)" and "V \<subseteq> set (gs_visited st)"
  shows "\<exists>ts st'. cluster_children f ps st = Some (ts, st') \<and> grew op c env st st' ts (map env (present ps))"
  using assms(2,3)
proof (induction ps arbitrary: st)
  case Nil
  then show ?case by (auto intro: grew_Nil)
next
  case (Cons p ps)
  show ?case
  proof (cases p)
    case None
    then show ?thesis using Cons by simp
  next
    case (Some a)
    from assms(1) [OF Cons.prems] obtain t st1 where 1: "f a st = Some (t, st1)" "grew op c env st st1 [t] [env a]" by blast
    from grew_inv [OF 1(2)] Cons.prems have "grow_inv c (gs_visited st1)" "V \<subseteq> set (gs_visited st1)" by auto
    from Cons.IH [OF this] obtain ts st2 where 2: "cluster_children f ps st1 = Some (ts, st2)"
      "grew op c env st1 st2 ts (map env (present ps))" by blast
    show ?thesis using 1 2 grew_Cons [OF 1(2) 2(2)] Some by simp
  qed
qed

lemma visited_bound:
  assumes "grow_inv c vs" shows "length vs \<le> length (cc_nodes c)"
proof -
  have "set vs \<subseteq> {..<length (cc_nodes c)}" using assms by (auto simp: grow_inv_def fusible_indices_def fusible_at_def)
  then have "card (set vs) \<le> length (cc_nodes c)" using card_mono [of "{..<length (cc_nodes c)}"] by simp
  then show ?thesis using assms by (simp add: grow_inv_def distinct_card)
qed

lemma fusible_at_unique: "fusible_at nodes j n ty \<Longrightarrow> fusible_at nodes j n' ty' \<Longrightarrow> n' = n \<and> ty' = ty"
  by (simp add: fusible_at_def)

lemma build_cluster_spec:
  assumes good: "context_good c" and cons: "ports_consistent op (cc_nodes c) env"
  shows "fusible_at (cc_nodes c) j n ty \<Longrightarrow> n_outputs n = [Some a] \<Longrightarrow> grow_inv c (gs_visited st) \<Longrightarrow>
    j \<notin> set (gs_visited st) \<Longrightarrow> length (cc_nodes c) < k + length (gs_visited st) \<Longrightarrow>
    \<exists>t st'. build_cluster_node k c j st = Some (Some t, st') \<and> grew op c env st st' [t] [env a]
      \<and> (\<exists>N. gs_visited st' = N @ j # gs_visited st)"
proof (induction k arbitrary: j n ty a st)
  case 0
  then show ?case using visited_bound [of c "gs_visited st"] by simp
next
  case (Suc k)
  let ?st = "st\<lparr>gs_visited := j # gs_visited st\<rparr>"
  have inv: "grow_inv c (gs_visited ?st)"
    using Suc.prems(1,3,4) by (auto simp: grow_inv_def fusible_indices_def)
  have "\<exists>t st'. child_for_input (build_cluster_node k c) c b s = Some (t, st') \<and> grew op c env s st' [t] [env b]"
    if s: "grow_inv c (gs_visited s)" "set (gs_visited ?st) \<subseteq> set (gs_visited s)" for b s
  proof (rule child_spec [OF good s(1)])
    fix j' n' ty'
    assume h: "fusible_at (cc_nodes c) j' n' ty'" "n_outputs n' = [Some b]" "j' \<notin> set (gs_visited s)"
    have "length (gs_visited ?st) \<le> length (gs_visited s)"
      using s inv by (metis card_mono distinct_card grow_inv_def List.finite_set)
    then have "length (cc_nodes c) < k + length (gs_visited s)" using Suc.prems(5) by simp
    from Suc.IH [OF h(1,2) s(1) h(3) this]
    show "\<exists>t st'. build_cluster_node k c j' s = Some (Some t, st') \<and> grew op c env s st' [t] [env b]" by blast
  qed
  from children_spec [OF this inv order_refl] obtain ts st' where
    ts: "cluster_children (child_for_input (build_cluster_node k c) c) (n_inputs n) ?st = Some (ts, st')"
    and g: "grew op c env ?st st' ts (map env (present (n_inputs n)))" by blast
  let ?t = "ClusterNode ty 0 0 ts (output_dtype (cc_heap c) n)"
  have ty: "ty \<noteq> FusionInput" using Suc.prems(1) fusible_not_input by (auto simp: fusible_at_def)
  have run: "build_cluster_node (Suc k) c j st = Some (Some ?t, st')"
    using Suc.prems(1) ts by (simp add: fusible_at_def)
  from g obtain N ps where g: "gs_visited st' = N @ j # gs_visited st"
    "gs_inputs st' = gs_inputs st @ map (id_of (cc_heap c)) ps" "grow_inv c (gs_visited st')"
    "mset (concat (map cluster_ops ts)) = image_mset (type_at (cc_nodes c)) (mset N)"
    "\<And>pre post. length pre = length (gs_inputs st) \<Longrightarrow>
        map (cluster_value op (pre @ map env ps @ post)) ts = map env (present (n_inputs n))"
    by (auto simp: grew_def)
  have "grew op c env st st' [?t] [env a]"
  proof (rule grewI [where N = "N @ [j]" and ps = ps])
    fix pre post :: "'a list"
    assume "length pre = length (gs_inputs st)"
    from g(5) [OF this, of post] show "map (cluster_value op (pre @ map env ps @ post)) [?t] = [env a]"
      using ty cons Suc.prems(1,2) by (simp add: ports_consistent_def)
  qed (use g ty Suc.prems(1) in \<open>simp_all add: type_at_def fusible_at_def\<close>)
  with run g(1) show ?case by blast
qed

section \<open>The walk\<close>

definition cluster_correct ::
  "(fusion_type \<Rightarrow> 'v list \<Rightarrow> 'v) \<Rightarrow> port_heap \<Rightarrow> ir_node option list \<Rightarrow> (nat \<Rightarrow> 'v) \<Rightarrow> nat \<Rightarrow> cluster \<Rightarrow> bool" where
  "cluster_correct op h nodes env i cl \<longleftrightarrow> (\<exists>n ty a ps. fusible_at nodes i n ty \<and> n_outputs n = [Some a] \<and>
     cl_output cl = id_of h a \<and> cl_inputs cl = map (id_of h) ps \<and>
     cluster_value op (map env ps) (cl_root cl) = env a)"

definition cluster_list_ops :: "cluster list \<Rightarrow> fusion_type multiset" where
  "cluster_list_ops cls = mset (concat (map (\<lambda>cl. cluster_ops (cl_root cl)) cls))"

definition walk_inv ::
  "(fusion_type \<Rightarrow> 'v list \<Rightarrow> 'v) \<Rightarrow> cluster_context \<Rightarrow> (nat \<Rightarrow> 'v) \<Rightarrow> nat \<Rightarrow> nat list \<Rightarrow> cluster list \<Rightarrow> nat list \<Rightarrow> bool" where
  "walk_inv op c env i vs cls is \<longleftrightarrow> grow_inv c vs \<and>
     (\<forall>j \<in> fusible_indices (cc_nodes c). i \<le> j \<longrightarrow> j \<in> set vs) \<and>
     cluster_list_ops cls = image_mset (type_at (cc_nodes c)) (mset vs) \<and>
     sorted_wrt (<) is \<and> (\<forall>j \<in> set is. i \<le> j) \<and>
     list_all2 (cluster_correct op (cc_heap c) (cc_nodes c) env) is cls"

lemma grow_cluster_spec:
  assumes good: "context_good c" and cons: "ports_consistent op (cc_nodes c) env"
    and inv: "walk_inv op c env (Suc i) vs cls is"
    and i: "fusible_at (cc_nodes c) i n ty" "i \<notin> set vs"
  shows "\<exists>cl vs'. grow_cluster c i vs = Some (Some cl, vs') \<and> walk_inv op c env i vs' (cl # cls) (i # is)"
proof -
  obtain a where a: "n_outputs n = [Some a]" using good i(1) unfolding context_good_def single_outputs_def by blast
  let ?st = "\<lparr>gs_visited = vs, gs_inputs = []\<rparr>"
  have "grow_inv c vs" using inv by (simp add: walk_inv_def)
  with build_cluster_spec [OF good cons i(1) a, of ?st "Suc (length (cc_nodes c))"] i(2)
  obtain t st' N0 where
    t: "build_cluster_node (Suc (length (cc_nodes c))) c i ?st = Some (Some t, st')"
    and g: "grew op c env ?st st' [t] [env a]" and N0: "gs_visited st' = N0 @ i # vs" by auto
  from g obtain N ps where N: "gs_visited st' = N @ vs" "gs_inputs st' = map (id_of (cc_heap c)) ps"
    "grow_inv c (gs_visited st')" "mset (cluster_ops t) = image_mset (type_at (cc_nodes c)) (mset N)"
    "cluster_value op (map env ps) t = env a"
    by (auto simp: grew_def dest: spec [where x = "[]"])
  let ?cl = "\<lparr>cl_root = t, cl_inputs = gs_inputs st', cl_output = id_of (cc_heap c) a,
    cl_count = fusion_count_expr (cc_heap c a)\<rparr>"
  have "grow_cluster c i vs = Some (Some ?cl, gs_visited st')"
    using i(1) a t by (simp add: grow_cluster_def fusible_at_def del: build_cluster_node.simps)
  moreover have "cluster_correct op (cc_heap c) (cc_nodes c) env i ?cl"
    unfolding cluster_correct_def using i(1) a N(2,5) by (intro exI [of _ n] exI [of _ ty] exI [of _ a] exI [of _ ps]) simp
  moreover have "\<forall>j \<in> fusible_indices (cc_nodes c). i \<le> j \<longrightarrow> j \<in> set (gs_visited st')"
  proof (intro ballI impI)
    fix j assume "j \<in> fusible_indices (cc_nodes c)" "i \<le> j"
    then show "j \<in> set (gs_visited st')" using inv N0 by (cases "j = i") (auto simp: walk_inv_def)
  qed
  ultimately show ?thesis using inv N(1,3,4)
    by (intro exI [of _ ?cl] exI [of _ "gs_visited st'"])
      (auto simp: walk_inv_def cluster_list_ops_def less_eq_Suc_le intro: Suc_leD)
qed

lemma clusters_below_spec:
  assumes good: "context_good c" and cons: "ports_consistent op (cc_nodes c) env"
  shows "walk_inv op c env i vs cls is \<Longrightarrow> i \<le> length (cc_nodes c) \<Longrightarrow>
    \<exists>cls' is' vs'. clusters_below c i vs cls = Some cls' \<and> walk_inv op c env 0 vs' cls' is'"
proof (induction i arbitrary: vs cls "is")
  case 0
  then show ?case by auto
next
  case (Suc i)
  show ?case
  proof (cases "\<exists>n ty. fusible_at (cc_nodes c) i n ty \<and> i \<notin> set vs")
    case True
    then obtain n ty where i: "fusible_at (cc_nodes c) i n ty" "i \<notin> set vs" by blast
    from grow_cluster_spec [OF good cons Suc.prems(1) i] obtain cl vs' where
      g: "grow_cluster c i vs = Some (Some cl, vs')" "walk_inv op c env i vs' (cl # cls) (i # is)" by blast
    have "clusters_below c (Suc i) vs cls = clusters_below c i vs' (cl # cls)"
      using i g(1) by (simp add: fusible_at_def is_fusible_elementwise_def)
    with Suc.IH [OF g(2)] Suc.prems(2) show ?thesis by simp
  next
    case False
    have skip: "clusters_below c (Suc i) vs cls = clusters_below c i vs cls"
      using False Suc.prems(2) by (auto simp: fusible_at_def is_fusible_elementwise_def)
    have "j \<in> set vs" if "j \<in> fusible_indices (cc_nodes c)" "i \<le> j" for j
      using that False Suc.prems(1) by (cases "j = i") (auto simp: walk_inv_def fusible_indices_def)
    with Suc.prems(1) have "walk_inv op c env i vs cls is" by (auto simp: walk_inv_def intro: Suc_leD)
    from Suc.IH [OF this] Suc.prems(2) show ?thesis unfolding skip by simp
  qed
qed

section \<open>The context of a topology\<close>

lemma index_outputs:
  "fold (\<lambda>p idx. case p of None \<Rightarrow> idx | Some a \<Rightarrow> if idx a = None then idx(a \<mapsto> i) else idx) ps idx a = Some j \<Longrightarrow>
    idx a = Some j \<or> j = i \<and> Some a \<in> set ps"
proof (induction ps arbitrary: idx)
  case (Cons p ps)
  let ?idx = "case p of None \<Rightarrow> idx | Some a \<Rightarrow> if idx a = None then idx(a \<mapsto> i) else idx"
  have "?idx a = Some j \<or> j = i \<and> Some a \<in> set ps" using Cons by simp
  then show ?case by (auto split: option.splits if_splits)
qed simp

lemma producer_index_from_spec:
  "producer_index_from i ns idx a = Some j \<Longrightarrow>
    idx a = Some j \<or> i \<le> j \<and> j < i + length ns \<and> (\<exists>n. ns ! (j - i) = Some n \<and> Some a \<in> set (n_outputs n))"
proof (induction i ns idx rule: producer_index_from.induct)
  case (2 i ns idx)
  then consider "idx a = Some j" | "Suc i \<le> j" "j < Suc i + length ns"
    "\<exists>n. ns ! (j - Suc i) = Some n \<and> Some a \<in> set (n_outputs n)" by auto
  then show ?case
  proof cases
    case 2
    then have "j - i = Suc (j - Suc i)" by simp
    with 2 show ?thesis by auto
  qed simp
next
  case (3 i n ns idx)
  let ?idx = "fold (\<lambda>p idx. case p of None \<Rightarrow> idx | Some a \<Rightarrow> if idx a = None then idx(a \<mapsto> i) else idx) (n_outputs n) idx"
  from 3 consider "?idx a = Some j" | "Suc i \<le> j" "j < Suc i + length ns"
    "\<exists>n. ns ! (j - Suc i) = Some n \<and> Some a \<in> set (n_outputs n)" by auto
  then show ?case
  proof cases
    case 1
    then show ?thesis using index_outputs [of i "n_outputs n" idx a j] by auto
  next
    case 2
    then have "j - i = Suc (j - Suc i)" by simp
    with 2 show ?thesis by auto
  qed
qed simp

lemma build_producer_index_spec:
  "build_producer_index ns a = Some j \<Longrightarrow> j < length ns \<and> (\<exists>n. ns ! j = Some n \<and> Some a \<in> set (n_outputs n))"
  using producer_index_from_spec [of 0 ns Map.empty a j] by (simp add: build_producer_index_def)

lemma context_good_of: "single_outputs (t_nodes t) \<Longrightarrow> context_good (cluster_context_of h t)"
  by (auto simp: context_good_def cluster_context_of_def dest: build_producer_index_spec)

definition fusible_types :: "ir_node option list \<Rightarrow> fusion_type list" where
  "fusible_types nodes = List.map_filter (\<lambda>n. Option.bind n (\<lambda>n. fusion_type_for_op (n_op n))) nodes"

lemma types_of_indices:
  "image_mset (type_at nodes) (mset_set (fusible_indices nodes)) = mset (fusible_types nodes)"
proof -
  let ?f = "\<lambda>n. Option.bind n (\<lambda>n. fusion_type_for_op (n_op n))"
  let ?P = "\<lambda>j. ?f (nodes ! j) \<noteq> None"
  have "fusible_indices nodes = set (filter ?P [0..<length nodes])"
    by (auto simp: fusible_indices_def fusible_at_def split: bind_splits)
  then have "mset_set (fusible_indices nodes) = mset (filter ?P [0..<length nodes])"
    by (simp add: mset_set_set)
  moreover have "map (type_at nodes) (filter ?P [0..<length nodes]) = map (\<lambda>j. the (?f (nodes ! j))) (filter ?P [0..<length nodes])"
    by (auto simp: type_at_def split: bind_splits)
  moreover have "fusible_types nodes = map (\<lambda>j. the (?f (nodes ! j))) (filter ?P [0..<length nodes])"
  proof -
    have "fusible_types nodes = List.map_filter ?f (map (nth nodes) [0..<length nodes])"
      by (simp add: fusible_types_def map_nth)
    then show ?thesis by (simp add: map_filter_def filter_map o_def)
  qed
  ultimately show ?thesis by (metis mset_map)
qed

section \<open>Property\<close>

text \<open>
  C21. \<open>FindFusionClusters\<close> always returns on a topology whose fusible nodes have one output each.
  Every fusible operation lands in exactly one cluster, exactly once; the clusters come in the order
  of their root nodes; and, for every assignment of values to ports that the operations of the
  topology agree with, evaluating a cluster on the values of its input ports yields the value of its
  output port.
\<close>

theorem find_fusion_clusters_correct:
  assumes "single_outputs (t_nodes t)"
  shows "\<exists>cls. find_fusion_clusters h (Some t) = Some cls \<and>
    cluster_list_ops cls = mset (fusible_types (t_nodes t)) \<and>
    (\<forall>op :: fusion_type \<Rightarrow> 'v list \<Rightarrow> 'v. \<forall>env. ports_consistent op (t_nodes t) env \<longrightarrow>
       (\<exists>is. sorted_wrt (<) is \<and> list_all2 (cluster_correct op h (t_nodes t) env) is cls))"
proof -
  let ?c = "cluster_context_of h t"
  have c: "cc_nodes ?c = t_nodes t" "cc_heap ?c = h" by (simp_all add: cluster_context_of_def)
  have run: "\<exists>cls is vs. find_fusion_clusters h (Some t) = Some cls \<and> walk_inv op ?c env 0 vs cls is"
    if "ports_consistent op (t_nodes t) env" for op :: "fusion_type \<Rightarrow> 'w list \<Rightarrow> 'w" and env
  proof -
    have "walk_inv op ?c env (length (t_nodes t)) [] [] []"
      by (auto simp: walk_inv_def grow_inv_def cluster_list_ops_def c fusible_indices_def fusible_at_def)
    from clusters_below_spec [OF context_good_of [OF assms, of h], of op env, OF _ this] that
    show ?thesis by (simp add: find_fusion_clusters_def c)
  qed
  have "ports_consistent (\<lambda>_ _. ()) (t_nodes t) (\<lambda>_. ())" by (simp add: ports_consistent_def)
  from run [OF this] obtain cls "is" vs where cls: "find_fusion_clusters h (Some t) = Some cls"
    "walk_inv (\<lambda>_ _. ()) ?c (\<lambda>_. ()) 0 vs cls is" by blast
  then have "distinct vs" "set vs = fusible_indices (t_nodes t)" by (auto simp: walk_inv_def grow_inv_def c)
  then have "mset vs = mset_set (fusible_indices (t_nodes t))" using mset_set_set by metis
  then have "cluster_list_ops cls = mset (fusible_types (t_nodes t))"
    using cls(2) by (simp add: walk_inv_def c types_of_indices)
  moreover have "\<exists>is. sorted_wrt (<) is \<and> list_all2 (cluster_correct op h (t_nodes t) env) is cls"
    if "ports_consistent op (t_nodes t) env" for op :: "fusion_type \<Rightarrow> 'v list \<Rightarrow> 'v" and env
    using run [OF that] cls(1) by (auto simp: walk_inv_def c)
  ultimately show ?thesis using cls(1) by blast
qed

definition gated_topology :: topology where
  "gated_topology = (let n = \<lparr>n_name = [], n_id = 0, n_op = ''math.add'', n_bind = [], n_inputs = [Some 0, Some 1],
      n_outputs = [Some 2], n_stream = 0, n_sync = []\<rparr> in
    \<lparr>t_nodes = [Some n, Some (n\<lparr>n_op := ''activation.relu'', n_inputs := [Some 2], n_outputs := [Some 3]\<rparr>),
       Some (n\<lparr>n_op := ''activation.gelu'', n_inputs := [Some 3], n_outputs := [Some 4]\<rparr>),
       Some (n\<lparr>n_op := ''math.mul'', n_inputs := [Some 3, Some 4], n_outputs := [Some 5]\<rparr>)],
     t_edges = [], t_workspace = \<lparr>ws_size = 0, ws_align = 0, ws_allocations = [], ws_bindings = Map.empty\<rparr>,
     t_input_ports = Map.empty, t_output_ports = Map.empty\<rparr>)"

definition gated_heap :: port_heap where
  "gated_heap a = \<lparr>port_id = int a, port_type = \<lparr>pt_dtype = DInvalid, pt_shape = [], pt_layout = LayoutUnspecified,
     pt_kind = [], pt_constraints = []\<rparr>, port_alloc = None\<rparr>"

theorem find_fusion_clusters_correct_witness:
  "\<exists>cls. find_fusion_clusters gated_heap (Some gated_topology) = Some cls \<and>
     map cl_inputs cls = [[0, 1], [3, 4]] \<and>
     cluster_list_ops cls = {#FusionAdd, FusionReLU, FusionMul#}"
proof -
  have "single_outputs (t_nodes gated_topology)"
    by (auto simp: single_outputs_def fusible_at_def gated_topology_def Let_def less_Suc_eq)
  from find_fusion_clusters_correct [OF this, where h = gated_heap] obtain cls where
    cls: "find_fusion_clusters gated_heap (Some gated_topology) = Some cls"
    "cluster_list_ops cls = mset (fusible_types (t_nodes gated_topology))" by blast
  moreover have "map_option (map cl_inputs) (find_fusion_clusters gated_heap (Some gated_topology)) = Some [[0, 1], [3, 4]]"
    by code_simp
  moreover have "fusible_types (t_nodes gated_topology) = [FusionAdd, FusionReLU, FusionMul]"
    by code_simp
  ultimately show ?thesis by simp
qed

end
