(* ===== verification/Host_Tensors.thy ===== *)
theory Host_Tensors
  imports Tensor_Alloc Packed_Vectors
begin

text \<open>
  Host tensors and arenas over the tiered allocator: \<open>tensor/host_tensor.go\<close>,
  \<open>tensor/host_backend.go\<close>, \<open>tensor/new.go\<close>, \<open>tensor/contiguous.go\<close>, \<open>tensor/arena.go\<close> and
  \<open>tensor/state.go\<close>. The world holds the allocator's pools, the bytes of memory, and the tensors
  and arenas created so far; a tensor or arena pointer is its index. A nil slice is a \<open>buffer\<close>
  without capacity. A Go panic is \<open>None\<close>. The 64-bit epoch counter does not wrap.
\<close>

section \<open>Lifecycle\<close>

datatype tensor_state = StateReady | StatePending | StateMutating | StateClosed

definition tensor_state_string :: "tensor_state \<Rightarrow> string" where
  "tensor_state_string s = (case s of StateReady \<Rightarrow> ''ready'' | StatePending \<Rightarrow> ''pending''
     | StateMutating \<Rightarrow> ''mutating'' | StateClosed \<Rightarrow> ''closed'')"

text \<open>The arena of a tensor: none, the sentinel of aliased tensors (never reset), or an arena.\<close>

datatype arena_ref = NoArena | WorkspaceSentinel | ArenaAt nat

record host_tensor =
  ht_shape :: tensor_shape
  ht_dtype :: dtype
  ht_bytes :: buffer
  ht_state :: tensor_state
  ht_closed :: bool
  ht_arena :: arena_ref
  ht_epoch :: nat
  ht_parent :: "nat option"

record arena =
  ar_storage :: buffer
  ar_offset :: int
  ar_epoch :: nat

record host_world =
  hw_alloc :: alloc_state
  hw_memory :: "int \<Rightarrow> 8 word"
  hw_tensors :: "host_tensor list"
  hw_arenas :: "arena list"

definition nil_buffer :: buffer where
  "nil_buffer = \<lparr>bu_base = 0, bu_len = 0, bu_cap = 0\<rparr>"

definition new_host_tensor :: "tensor_shape \<Rightarrow> dtype \<Rightarrow> buffer \<Rightarrow> host_tensor" where
  "new_host_tensor s d b = \<lparr>ht_shape = s, ht_dtype = d, ht_bytes = b, ht_state = StateReady,
     ht_closed = False, ht_arena = NoArena, ht_epoch = 0, ht_parent = None\<rparr>"

definition new_aliased_host_tensor :: "tensor_shape \<Rightarrow> dtype \<Rightarrow> buffer \<Rightarrow> host_tensor" where
  "new_aliased_host_tensor s d b = (new_host_tensor s d b)\<lparr>ht_arena := WorkspaceSentinel\<rparr>"

section \<open>Memory\<close>

definition read_bytes :: "(int \<Rightarrow> 8 word) \<Rightarrow> buffer \<Rightarrow> 8 word list" where
  "read_bytes m b = map (\<lambda>i. m (bu_base b + int i)) [0..<nat (bu_len b)]"

definition write_bytes :: "(int \<Rightarrow> 8 word) \<Rightarrow> buffer \<Rightarrow> 8 word list \<Rightarrow> (int \<Rightarrow> 8 word)" where
  "write_bytes m b bs = (\<lambda>a. if bu_base b \<le> a \<and> a < bu_base b + int (length bs) then bs ! nat (a - bu_base b) else m a)"

section \<open>Creation\<close>

definition add_tensor :: "host_tensor \<Rightarrow> host_world \<Rightarrow> host_world" where
  "add_tensor t w = w\<lparr>hw_tensors := hw_tensors w @ [t]\<rparr>"

text \<open>\<open>New\<close>; the result is the handle of the tensor.\<close>

definition tensor_new ::
  "host_world \<Rightarrow> tensor_shape \<Rightarrow> dtype \<Rightarrow> int option \<Rightarrow> (tensor_error, nat) res \<times> host_world" where
  "tensor_new w s d raw =
     (if \<not> ts_valid s then (Err ErrShapeInvalid, w)
      else case shape_bytes s d of
          Inl e \<Rightarrow> (Err e, w)
        | Inr n \<Rightarrow> (case allocate (hw_alloc w) n raw of
            (Inl e, st) \<Rightarrow> (Err e, w\<lparr>hw_alloc := st\<rparr>)
          | (Inr b, st) \<Rightarrow>
              (Ok (length (hw_tensors w)),
               add_tensor (new_host_tensor s d (case b of None \<Rightarrow> nil_buffer | Some b \<Rightarrow> b)) (w\<lparr>hw_alloc := st\<rparr>))))"

definition fill_tensor :: "nat \<Rightarrow> 8 word list \<Rightarrow> host_world \<Rightarrow> host_world" where
  "fill_tensor t bs w = w\<lparr>hw_memory := write_bytes (hw_memory w) (ht_bytes (hw_tensors w ! t)) bs\<rparr>"

definition new_zeroed ::
  "host_world \<Rightarrow> tensor_shape \<Rightarrow> dtype \<Rightarrow> int option \<Rightarrow> (tensor_error, nat) res \<times> host_world" where
  "new_zeroed w s d raw = (case tensor_new w s d raw of
     (Inl e, w) \<Rightarrow> (Err e, w)
   | (Inr t, w) \<Rightarrow> (Ok t, fill_tensor t (replicate (nat (bu_len (ht_bytes (hw_tensors w ! t)))) 0) w))"

definition upload ::
  "bool \<Rightarrow> host_world \<Rightarrow> tensor_shape \<Rightarrow> dtype \<Rightarrow> 8 word list \<Rightarrow> int option \<Rightarrow> (tensor_error, nat) res \<times> host_world" where
  "upload backlimitclosed w s d bs raw =
     (if backlimitclosed then (Err ErrBackendClosed, w)
      else if \<not> ts_valid s then (Err ErrShapeInvalid, w)
      else case shape_bytes s d of
          Inl e \<Rightarrow> (Err e, w)
        | Inr n \<Rightarrow>
            if n \<noteq> int (length bs) then (Err ErrShapeMismatch, w)
            else (case tensor_new w s d raw of
                (Inl e, w) \<Rightarrow> (Err e, w)
              | (Inr t, w) \<Rightarrow> (Ok t, fill_tensor t bs w)))"

definition download :: "bool \<Rightarrow> (tensor_error, dtype \<times> 8 word list) res \<Rightarrow> (tensor_error, dtype \<times> 8 word list) res" where
  "download backend_closed r = (if backend_closed then Err ErrBackendClosed else r)"

section \<open>Access\<close>

definition arena_epoch_of :: "host_world \<Rightarrow> arena_ref \<Rightarrow> nat" where
  "arena_epoch_of w r = (case r of ArenaAt a \<Rightarrow> ar_epoch (hw_arenas w ! a) | _ \<Rightarrow> 0)"

definition acquire_view :: "host_world \<Rightarrow> host_tensor \<Rightarrow> (tensor_error, unit) res" where
  "acquire_view w t =
     (if ht_state t = StateClosed then Err ErrTensorClosed
      else if ht_state t = StatePending then Err ErrTensorInTransit
      else if ht_arena t \<noteq> NoArena \<and> arena_epoch_of w (ht_arena t) \<noteq> ht_epoch t then Err ErrTensorClosed
      else Ok ())"

definition raw_bytes :: "host_world \<Rightarrow> nat \<Rightarrow> (tensor_error, dtype \<times> 8 word list) res" where
  "raw_bytes w t = (let h = hw_tensors w ! t in rbind (acquire_view w h) (\<lambda>_.
     Ok (ht_dtype h, read_bytes (hw_memory w) (ht_bytes h))))"

definition contiguous :: "host_world \<Rightarrow> nat \<Rightarrow> int option \<Rightarrow> (tensor_error, nat) res \<times> host_world" where
  "contiguous w t raw = (case raw_bytes w t of
     Inl e \<Rightarrow> (Err e, w)
   | Inr (d, bs) \<Rightarrow> upload False w (ht_shape (hw_tensors w ! t)) d bs raw)"

text \<open>\<open>nativeView\<close> at the element type of \<open>want\<close>: the elements' first address and their number.\<close>

definition native_view :: "host_world \<Rightarrow> host_tensor \<Rightarrow> dtype \<Rightarrow> (tensor_error, int \<times> int) res" where
  "native_view w h want = rbind (acquire_view w h) (\<lambda>_.
     if ht_dtype h \<noteq> want then Err ErrDTypeMismatch
     else if bu_len (ht_bytes h) = 0 then Ok (0, 0)
     else Ok (bu_base (ht_bytes h), bu_len (ht_bytes h) sdiv (case dtype_size want of Inr k \<Rightarrow> k | Inl _ \<Rightarrow> 0)))"

definition bool_native :: "host_world \<Rightarrow> host_tensor \<Rightarrow> (tensor_error, bit_vector) res" where
  "bool_native w h = rbind (acquire_view w h) (\<lambda>_.
     if ht_dtype h \<noteq> DBool then Err ErrDTypeMismatch
     else Ok \<lparr>bv_data = read_bytes (hw_memory w) (ht_bytes h), bv_length = ts_elements (ht_shape h)\<rparr>)"

text \<open>\<open>&host.bytes[0]\<close> panics on an empty tensor.\<close>

definition int4_native :: "host_world \<Rightarrow> host_tensor \<Rightarrow> (tensor_error, int4_vector) res option" where
  "int4_native w h = (case acquire_view w h of
     Inl e \<Rightarrow> Some (Err e)
   | Inr _ \<Rightarrow>
       if ht_dtype h \<noteq> Int4 then Some (Err ErrDTypeMismatch)
       else if bu_len (ht_bytes h) = 0 then None
       else Some (Ok \<lparr>iv_data = read_bytes (hw_memory w) (ht_bytes h), iv_length = ts_elements (ht_shape h)\<rparr>))"

definition dispatch_pointer :: "host_tensor \<Rightarrow> int option" where
  "dispatch_pointer h = (if bu_len (ht_bytes h) = 0 then None else Some (bu_base (ht_bytes h)))"

section \<open>Views\<close>

text \<open>\<open>b[lo:hi]\<close>, which panics outside the capacity.\<close>

definition go_slice :: "buffer \<Rightarrow> int \<Rightarrow> int \<Rightarrow> buffer option" where
  "go_slice b lo hi = (if 0 \<le> lo \<and> lo \<le> hi \<and> hi \<le> bu_cap b
     then Some \<lparr>bu_base = bu_base b + lo, bu_len = hi - lo, bu_cap = bu_cap b - lo\<rparr> else None)"

definition view_slice ::
  "host_world \<Rightarrow> nat \<Rightarrow> int \<Rightarrow> int \<Rightarrow> ((tensor_error, nat) res \<times> host_world) option" where
  "view_slice w t start n =
     (let h = hw_tensors w ! t in
      if start < 0 \<or> n < 0 \<or> wrap64 (start + n) > ts_elements (ht_shape h) then Some (Err ErrShapeInvalid, w)
      else case dtype_size (ht_dtype h) of
          Inl e \<Rightarrow> Some (Err (ErrDType e), w)
        | Inr width \<Rightarrow>
            if width = 0 then Some (Err ErrLayoutUnsupported, w)
            else
              let byte_start = wrap64 (start * width); byte_end = wrap64 (byte_start + wrap64 (n * width)) in
              if byte_end > bu_len (ht_bytes h) then Some (Err ErrShapeInvalid, w)
              else (case new_shape [n] of
                  Inl e \<Rightarrow> Some (Err e, w)
                | Inr s \<Rightarrow> (case go_slice (ht_bytes h) byte_start byte_end of
                    None \<Rightarrow> None
                  | Some b \<Rightarrow> Some (Ok (length (hw_tensors w)),
                      add_tensor ((new_host_tensor s (ht_dtype h) b)\<lparr>ht_parent := Some t\<rparr>) w))))"

definition view_reshape :: "host_world \<Rightarrow> nat \<Rightarrow> int list \<Rightarrow> (tensor_error, nat) res \<times> host_world" where
  "view_reshape w t dims =
     (let h = hw_tensors w ! t in
      case reshape_to (ht_shape h) dims of
        Inl e \<Rightarrow> (Err e, w)
      | Inr s \<Rightarrow> (Ok (length (hw_tensors w)),
          add_tensor ((new_host_tensor s (ht_dtype h) (ht_bytes h))\<lparr>ht_parent := Some t\<rparr>) w))"

section \<open>Closing\<close>

definition host_close :: "host_world \<Rightarrow> nat \<Rightarrow> host_world" where
  "host_close w t =
     (let h = hw_tensors w ! t in
      if ht_closed h then w
      else
        let w' = w\<lparr>hw_tensors := (hw_tensors w)[t := h\<lparr>ht_closed := True, ht_state := StateClosed, ht_bytes := nil_buffer\<rparr>]\<rparr> in
        if ht_arena h \<noteq> NoArena \<or> ht_parent h \<noteq> None then w'
        else if bu_len (ht_bytes h) > 0 then w'\<lparr>hw_alloc := release (hw_alloc w) (ht_bytes h)\<rparr>
        else w')"

section \<open>Arenas\<close>

definition new_arena :: "host_world \<Rightarrow> int \<Rightarrow> int option \<Rightarrow> (tensor_error, nat) res \<times> host_world" where
  "new_arena w capacity raw = (case allocate (hw_alloc w) capacity raw of
     (Inl e, st) \<Rightarrow> (Err e, w\<lparr>hw_alloc := st\<rparr>)
   | (Inr b, st) \<Rightarrow> (Ok (length (hw_arenas w)), w\<lparr>hw_alloc := st, hw_arenas := hw_arenas w @
       [\<lparr>ar_storage = (case b of None \<Rightarrow> nil_buffer | Some b \<Rightarrow> b), ar_offset = 0, ar_epoch = 0\<rparr>]\<rparr>))"

definition arena_available :: "arena \<Rightarrow> int" where
  "arena_available a = bu_len (ar_storage a) - ar_offset a"

text \<open>A nil result is \<open>Some (None, _)\<close>, a slice out of bounds is \<open>None\<close>.\<close>

definition allocate_bytes :: "arena \<Rightarrow> int \<Rightarrow> (buffer option \<times> arena) option" where
  "allocate_bytes a n =
     (if n \<le> 0 then Some (None, a)
      else
        let aligned = wrap64 (ar_offset a + 63) AND NOT 63; limit = wrap64 (aligned + n) in
        if limit > bu_len (ar_storage a) then Some (None, a)
        else (case go_slice (ar_storage a) aligned limit of
           None \<Rightarrow> None
         | Some b \<Rightarrow> Some (Some (b\<lparr>bu_cap := bu_len b\<rparr>), a\<lparr>ar_offset := limit\<rparr>)))"

definition arena_new ::
  "host_world \<Rightarrow> nat \<Rightarrow> tensor_shape \<Rightarrow> dtype \<Rightarrow> ((tensor_error, nat) res \<times> host_world) option" where
  "arena_new w a s d =
     (if is_packed d then Some (Err ErrDTypeUnsupported, w)
      else case shape_bytes s d of
          Inl e \<Rightarrow> Some (Err e, w)
        | Inr n \<Rightarrow> (case allocate_bytes (hw_arenas w ! a) n of
            None \<Rightarrow> None
          | Some (None, ar) \<Rightarrow> Some (Err ErrAllocatorExhausted, w\<lparr>hw_arenas := (hw_arenas w)[a := ar]\<rparr>)
          | Some (Some b, ar) \<Rightarrow> Some (Ok (length (hw_tensors w)),
              add_tensor ((new_host_tensor s d b)\<lparr>ht_arena := ArenaAt a, ht_epoch := ar_epoch ar\<rparr>)
                (w\<lparr>hw_arenas := (hw_arenas w)[a := ar]\<rparr>))))"

definition arena_reset :: "host_world \<Rightarrow> nat \<Rightarrow> host_world" where
  "arena_reset w a = (let ar = hw_arenas w ! a in
     w\<lparr>hw_arenas := (hw_arenas w)[a := ar\<lparr>ar_offset := 0, ar_epoch := ar_epoch ar + 1\<rparr>]\<rparr>)"

definition arena_close :: "host_world \<Rightarrow> nat \<Rightarrow> host_world" where
  "arena_close w a = (let ar = hw_arenas w ! a; storage = ar_storage ar;
       w' = w\<lparr>hw_arenas := (hw_arenas w)[a := ar\<lparr>ar_storage := nil_buffer, ar_offset := 0\<rparr>]\<rparr> in
     if bu_len storage > 0 then w'\<lparr>hw_alloc := release (hw_alloc w) storage\<rparr> else w')"

section \<open>Executions\<close>

text \<open>Tensors that own allocator memory, and all slices that clients of the allocator hold.\<close>

definition owner :: "host_tensor \<Rightarrow> bool" where
  "owner h \<longleftrightarrow> \<not> ht_closed h \<and> ht_arena h = NoArena \<and> ht_parent h = None \<and> bu_len (ht_bytes h) > 0"

definition owned_bytes :: "host_world \<Rightarrow> buffer list" where
  "owned_bytes w = map ht_bytes (filter owner (hw_tensors w))"

definition held :: "host_world \<Rightarrow> buffer list" where
  "held w = owned_bytes w @ filter (\<lambda>b. bu_len b > 0) (map ar_storage (hw_arenas w))"

text \<open>
  What the system may do to a block given back or advised away: its bytes become arbitrary, all
  others stay.
\<close>

definition scrubbed :: "buffer list \<Rightarrow> (int \<Rightarrow> 8 word) \<Rightarrow> host_world \<Rightarrow> host_world" where
  "scrubbed bs m w = w\<lparr>hw_memory := (\<lambda>a. if \<exists>b \<in> set bs. bu_base b \<le> a \<and> a < bu_base b + bu_cap b
     then m a else hw_memory w a)\<rparr>"

text \<open>
  The second component records what was stored in each tensor at its creation. Writes through
  native views are the clients' business and no part of these executions.
\<close>

type_synonym stored = "nat \<rightharpoonup> dtype \<times> 8 word list"

inductive host_step :: "host_world \<times> stored \<Rightarrow> host_world \<times> stored \<Rightarrow> bool" where
  uploaded: "upload c w s d bs raw = (Ok t, w') \<Longrightarrow> system_memory (hw_alloc w) (held w) (int (length bs)) raw \<Longrightarrow>
    host_step (w, g) (w', g(t \<mapsto> (d, bs)))"
| zeroed: "new_zeroed w s d raw = (Ok t, w') \<Longrightarrow> shape_bytes s d = Ok n \<Longrightarrow> system_memory (hw_alloc w) (held w) n raw \<Longrightarrow>
    host_step (w, g) (w', g(t \<mapsto> (d, replicate (nat n) 0)))"
| created: "tensor_new w s d raw = (Ok t, w') \<Longrightarrow> shape_bytes s d = Ok n \<Longrightarrow> system_memory (hw_alloc w) (held w) n raw \<Longrightarrow>
    host_step (w, g) (w', g)"
| failed: "upload c w s d bs raw = (Err e, w') \<or> new_zeroed w s d raw = (Err e, w') \<or> tensor_new w s d raw = (Err e, w') \<Longrightarrow>
    host_step (w, g) (w', g)"
| closed: "t < length (hw_tensors w) \<Longrightarrow> h = hw_tensors w ! t \<Longrightarrow>
    host_step (w, g) (scrubbed (if owner h then [ht_bytes h] else []) m (host_close w t), g)"
| sliced: "t < length (hw_tensors w) \<Longrightarrow> view_slice w t start n = Some (r, w') \<Longrightarrow> host_step (w, g) (w', g)"
| reshaped: "t < length (hw_tensors w) \<Longrightarrow> view_reshape w t dims = (r, w') \<Longrightarrow> host_step (w, g) (w', g)"
| arena_made: "new_arena w n raw = (r, w') \<Longrightarrow> system_memory (hw_alloc w) (held w) n raw \<Longrightarrow> host_step (w, g) (w', g)"
| arena_used: "a < length (hw_arenas w) \<Longrightarrow> arena_new w a s d = Some (r, w') \<Longrightarrow> host_step (w, g) (w', g)"
| arena_rewound: "a < length (hw_arenas w) \<Longrightarrow>
    host_step (w, g) (scrubbed [ar_storage (hw_arenas w ! a)] m (arena_reset w a), g)"
| arena_closed: "a < length (hw_arenas w) \<Longrightarrow>
    host_step (w, g) (scrubbed [ar_storage (hw_arenas w ! a)] m (arena_close w a), g)"

definition empty_world :: "(int \<Rightarrow> 8 word) \<Rightarrow> host_world" where
  "empty_world m = \<lparr>hw_alloc = empty_pools, hw_memory = m, hw_tensors = [], hw_arenas = []\<rparr>"

definition host_reachable :: "host_world \<times> stored \<Rightarrow> bool" where
  "host_reachable s \<longleftrightarrow> (\<exists>m. host_step\<^sup>*\<^sup>* (empty_world m, Map.empty) s)"

section \<open>Reading back\<close>

definition outside :: "buffer \<Rightarrow> buffer list \<Rightarrow> bool" where
  "outside b bs \<longleftrightarrow> (\<forall>c \<in> set bs. bu_cap c \<le> 0 \<or> separate (region b) (region c)) \<and> bu_len b \<le> bu_cap b"

lemma read_bytes_cong:
  "(\<And>a. bu_base b \<le> a \<Longrightarrow> a < bu_base b + bu_len b \<Longrightarrow> m a = m' a) \<Longrightarrow> read_bytes m b = read_bytes m' b"
  by (auto simp: read_bytes_def)

lemma read_scrubbed: "outside b bs \<Longrightarrow> read_bytes (hw_memory (scrubbed bs m w)) b = read_bytes (hw_memory w) b"
  by (rule read_bytes_cong) (fastforce simp: scrubbed_def outside_def separate_def region_def)

lemma read_written_other:
  "outside b [c] \<Longrightarrow> int (length bs) \<le> bu_cap c \<Longrightarrow> read_bytes (write_bytes m c bs) b = read_bytes m b"
  by (rule read_bytes_cong) (auto simp: write_bytes_def outside_def separate_def region_def)

lemma read_written: "bu_len b = int (length bs) \<Longrightarrow> read_bytes (write_bytes m b bs) b = bs"
  by (auto simp: read_bytes_def write_bytes_def intro: nth_equalityI)

lemma read_bytes_empty: "bu_len b = 0 \<Longrightarrow> read_bytes m b = []"
  by (simp add: read_bytes_def)

section \<open>Held slices\<close>

lemma alloc_inv_mset: "mset live = mset live' \<Longrightarrow> alloc_inv (st, live) = alloc_inv (st, live')"
  by (auto simp: alloc_inv_def owned_def dest: mset_eq_setD)

lemma mset_filter_update:
  assumes "i < length xs"
  shows "mset (filter P (xs[i := x])) + (if P (xs ! i) then {#xs ! i#} else {#})
    = mset (filter P xs) + (if P x then {#x#} else {#})"
proof -
  have "xs ! i \<in># mset xs" using assms by simp
  then obtain M where M: "mset xs = add_mset (xs ! i) M" by (metis mset_add)
  then have "mset (xs[i := x]) = add_mset x M" using assms by (simp add: mset_update)
  with M have "filter_mset P (mset (xs[i := x])) + (if P (xs ! i) then {#xs ! i#} else {#})
      = filter_mset P (mset xs) + (if P x then {#x#} else {#})" by simp
  then show ?thesis by (simp only: mset_filter)
qed

lemma alloc_granted:
  assumes inv: "alloc_inv (st, live)" and mem: "system_memory st live n raw" and al: "allocate st n raw = (Ok (Some b), st')"
  shows "alloc_inv (st', b # live) \<and> bu_len b = n \<and> 0 < n"
proof -
  have "pools_ok st" using inv by (simp add: alloc_inv_def)
  from grants_allocate [OF this mem al] have "0 < n" "bu_len b = n" by (auto simp: grants_def)
  with alloc_inv_step [OF granted [OF al mem] inv] show ?thesis by simp
qed

lemma alloc_refused:
  "alloc_inv (st, live) \<Longrightarrow> allocate st n raw = (r, st') \<Longrightarrow> \<forall>b. r \<noteq> Ok (Some b) \<Longrightarrow> alloc_inv (st', live)"
  using alloc_inv_step [OF refused] by blast

lemma alloc_released:
  assumes "alloc_inv (st, live)" and "mset live = add_mset b (mset live')"
  shows "alloc_inv (release st b, live')"
proof -
  have "b \<in> set live" using assms(2) by (metis set_mset_mset union_single_eq_member)
  from alloc_inv_step [OF released [OF this] assms(1)] have "alloc_inv (release st b, remove1 b live)" .
  moreover have "mset (remove1 b live) = mset live'" using assms(2) by simp
  ultimately show ?thesis using alloc_inv_mset by blast
qed

lemma alloc_inv_outside:
  assumes "alloc_inv (st, live)" and "mset live = add_mset b (mset live')" and "c \<in> set live'"
  shows "outside c [b]" "outside b [c]"
proof -
  have "image_mset region (mset live) = add_mset (region b) (image_mset region (mset live'))" using assms(2) by simp
  then have "apart (add_mset (region b) (image_mset region (mset live')))"
    using assms(1) apart_union by (metis alloc_inv_def fst_conv owned_def snd_conv)
  then have s: "separate (region b) (region c)" using assms(3) by (auto simp: apart_add)
  have "b \<in> set live" "c \<in> set live" using assms(2,3)
    by (metis set_mset_mset union_single_eq_member, metis insert_iff set_mset_add_mset_insert set_mset_mset)
  then have "live_ok b" "live_ok c" using assms(1) by (auto simp: alloc_inv_def)
  with s show "outside c [b]" "outside b [c]" by (auto simp: outside_def live_ok_def separate_sym)
qed

section \<open>The invariant\<close>

definition stored_ok :: "(int \<Rightarrow> 8 word) \<Rightarrow> host_tensor \<Rightarrow> dtype \<Rightarrow> 8 word list \<Rightarrow> bool" where
  "stored_ok m h d bs \<longleftrightarrow> ht_arena h = NoArena \<and> ht_parent h = None \<and> ht_dtype h = d \<and>
     (\<not> ht_closed h \<longrightarrow> ht_state h = StateReady \<and> bu_len (ht_bytes h) = int (length bs) \<and>
        read_bytes m (ht_bytes h) = bs)"

definition host_inv :: "host_world \<times> stored \<Rightarrow> bool" where
  "host_inv s \<longleftrightarrow> alloc_inv (hw_alloc (fst s), held (fst s)) \<and>
     (\<forall>ar \<in> set (hw_arenas (fst s)). bu_len (ar_storage ar) > 0 \<or> ar_storage ar = nil_buffer) \<and>
     (\<forall>t d bs. snd s t = Some (d, bs) \<longrightarrow> t < length (hw_tensors (fst s)) \<and>
        stored_ok (hw_memory (fst s)) (hw_tensors (fst s) ! t) d bs)"

lemma held_simps [simp]:
  "held (w\<lparr>hw_alloc := st\<rparr>) = held w" "held (w\<lparr>hw_memory := m\<rparr>) = held w" "held (scrubbed bs m w) = held w"
  "hw_alloc (scrubbed bs m w) = hw_alloc w" "hw_tensors (scrubbed bs m w) = hw_tensors w"
  "hw_arenas (scrubbed bs m w) = hw_arenas w"
  by (simp_all add: held_def owned_bytes_def scrubbed_def)

lemma held_add: "mset (held (add_tensor h w)) = (if owner h then {#ht_bytes h#} else {#}) + mset (held w)"
  by (simp add: held_def owned_bytes_def add_tensor_def)

lemma add_tensor_simps [simp]:
  "hw_alloc (add_tensor h w) = hw_alloc w" "hw_memory (add_tensor h w) = hw_memory w"
  "hw_arenas (add_tensor h w) = hw_arenas w" "hw_tensors (add_tensor h w) = hw_tensors w @ [h]"
  by (simp_all add: add_tensor_def)

lemma owner_held: "owner h \<Longrightarrow> h \<in> set (hw_tensors w) \<Longrightarrow> ht_bytes h \<in> set (owned_bytes w)"
  by (auto simp: owned_bytes_def)

lemma stored_kept:
  assumes "stored_ok (hw_memory w) h d bs" and "h \<in> set (hw_tensors w)"
    and "\<And>b. b \<in> set (owned_bytes w) \<Longrightarrow> read_bytes m' b = read_bytes (hw_memory w) b"
  shows "stored_ok m' h d bs"
proof (cases "owner h")
  case True
  with assms(3) [OF owner_held [OF True assms(2)]] assms(1) show ?thesis by (simp add: stored_ok_def)
next
  case False
  show ?thesis
  proof (cases "ht_closed h")
    case True
    with assms(1) show ?thesis by (simp add: stored_ok_def)
  next
    case still: False
    with False assms(1) have "bu_len (ht_bytes h) = 0" by (auto simp: stored_ok_def owner_def)
    with assms(1) show ?thesis by (simp add: stored_ok_def read_bytes_empty)
  qed
qed

lemma host_inv_stored:
  assumes "host_inv (w, g)" and "g t = Some (d, bs)"
  shows "t < length (hw_tensors w) \<and> stored_ok (hw_memory w) (hw_tensors w ! t) d bs"
proof -
  have "\<forall>t d bs. g t = Some (d, bs) \<longrightarrow> t < length (hw_tensors w) \<and> stored_ok (hw_memory w) (hw_tensors w ! t) d bs"
    using assms(1) unfolding host_inv_def fst_conv snd_conv by (elim conjE)
  from this [rule_format, OF assms(2)] show ?thesis .
qed

lemma stored_kept_all:
  assumes inv: "host_inv (w, g)" and held: "\<And>b. b \<in> set (owned_bytes w) \<Longrightarrow> read_bytes m' b = read_bytes (hw_memory w) b"
    and g: "g t = Some (d, bs)"
  shows "t < length (hw_tensors w)" "stored_ok m' (hw_tensors w ! t) d bs"
proof -
  note t = host_inv_stored [OF inv g]
  show "t < length (hw_tensors w)" by (rule conjunct1 [OF t])
  then have "hw_tensors w ! t \<in> set (hw_tensors w)" by (rule nth_mem)
  from stored_kept [OF conjunct2 [OF t] this held] show "stored_ok m' (hw_tensors w ! t) d bs" .
qed

text \<open>Adding a tensor that owns nothing keeps the invariant.\<close>

lemma inv_add_view:
  assumes "host_inv (w, g)" and "\<not> owner h"
  shows "host_inv (add_tensor h w, g)"
proof -
  have "mset (held (add_tensor h w)) = mset (held w)" using assms(2) by (simp add: held_add)
  then have "alloc_inv (hw_alloc w, held (add_tensor h w)) = alloc_inv (hw_alloc w, held w)" by (rule alloc_inv_mset)
  then show ?thesis using assms(1) by (fastforce simp: host_inv_def nth_append)
qed

lemma created_spec:
  assumes inv: "alloc_inv (hw_alloc w, held w)" and run: "tensor_new w s d raw = (Ok t, w')"
    and n: "shape_bytes s d = Ok n" and mem: "system_memory (hw_alloc w) (held w) n raw"
  shows "\<exists>b st. w' = add_tensor (new_host_tensor s d b) (w\<lparr>hw_alloc := st\<rparr>) \<and> t = length (hw_tensors w) \<and>
    alloc_inv (st, held w') \<and> bu_len b = (if 0 < n then n else 0) \<and>
    (\<forall>c \<in> set (held w). owner (new_host_tensor s d b) \<longrightarrow> outside c [b]) \<and>
    (0 < n \<longrightarrow> n \<le> bu_cap b)"
proof -
  from run n obtain r st where al: "allocate (hw_alloc w) n raw = (Ok r, st)"
    and w': "w' = add_tensor (new_host_tensor s d (case r of None \<Rightarrow> nil_buffer | Some b \<Rightarrow> b)) (w\<lparr>hw_alloc := st\<rparr>)"
    and t: "t = length (hw_tensors w)"
    by (auto simp: tensor_new_def split: if_splits prod.splits sum.splits)
  show ?thesis
  proof (cases r)
    case None
    have "n \<le> 0"
    proof (rule ccontr)
      assume "\<not> n \<le> 0"
      with al None show False by (auto simp: allocate_def split: if_splits prod.splits option.splits sum.splits)
    qed
    have no: "\<not> owner (new_host_tensor s d nil_buffer)" by (simp add: owner_def new_host_tensor_def nil_buffer_def)
    have "alloc_inv (st, held w)" using alloc_refused [OF inv al] None by simp
    moreover have "mset (held w') = mset (held w)" using w' None no by (simp add: held_add)
    ultimately have "alloc_inv (st, held w')" using alloc_inv_mset by blast
    then show ?thesis using w' t None no \<open>n \<le> 0\<close>
      by (intro exI [of _ nil_buffer] exI [of _ st]) (simp add: nil_buffer_def)
  next
    case (Some b)
    from alloc_granted [OF inv mem] al Some have g: "alloc_inv (st, b # held w)" "bu_len b = n" "0 < n" by auto
    have ow: "owner (new_host_tensor s d b)" using g by (simp add: owner_def new_host_tensor_def)
    have m: "mset (held w') = mset (b # held w)" using w' Some ow by (simp add: held_add new_host_tensor_def)
    have "\<forall>c \<in> set (held w). outside c [b]" using alloc_inv_outside(1) [OF g(1), of b "held w"] by simp
    moreover have "live_ok b" using g(1) by (simp add: alloc_inv_def)
    ultimately show ?thesis using w' t Some g alloc_inv_mset [OF m] 
      by (intro exI [of _ b] exI [of _ st]) (simp add: live_ok_def)
  qed
qed

lemma inv_created:
  assumes inv: "host_inv (w, g)" and run: "tensor_new w s d raw = (Ok t, w')" and n: "shape_bytes s d = Ok n"
    and mem: "system_memory (hw_alloc w) (held w) n raw"
  shows "host_inv (w', g)" and "int (length bs) = (if 0 < n then n else 0) \<Longrightarrow> host_inv (fill_tensor t bs w', g(t \<mapsto> (d, bs)))"
proof -
  from inv have a: "alloc_inv (hw_alloc w, held w)" by (simp add: host_inv_def)
  from created_spec [OF a run n mem] obtain b st where
    w': "w' = add_tensor (new_host_tensor s d b) (w\<lparr>hw_alloc := st\<rparr>)" and t: "t = length (hw_tensors w)"
    and al: "alloc_inv (st, held w')" and b: "bu_len b = (if 0 < n then n else 0)"
    and out: "\<forall>c \<in> set (held w). owner (new_host_tensor s d b) \<longrightarrow> outside c [b]" and cap: "0 < n \<longrightarrow> n \<le> bu_cap b" by blast
  show "host_inv (w', g)" using inv al w' by (fastforce simp: host_inv_def nth_append)
  assume bs: "int (length bs) = (if 0 < n then n else 0)"
  have tb: "ht_bytes (hw_tensors w' ! t) = b" using w' t by (simp add: new_host_tensor_def)
  have same: "read_bytes (write_bytes (hw_memory w) b bs) c = read_bytes (hw_memory w) c" if "c \<in> set (owned_bytes w)" for c
  proof (cases "0 < n")
    case True
    then have "owner (new_host_tensor s d b)" using b by (simp add: owner_def new_host_tensor_def)
    with out that True cap bs show ?thesis by (intro read_written_other) (auto simp: held_def)
  next
    case False
    with bs have "write_bytes (hw_memory w) b bs = hw_memory w" by (auto simp: write_bytes_def fun_eq_iff)
    then show ?thesis by simp
  qed
  have new: "stored_ok (write_bytes (hw_memory w) b bs) (new_host_tensor s d b) d bs"
    using b bs by (simp add: stored_ok_def new_host_tensor_def read_written)
  show "host_inv (fill_tensor t bs w', g(t \<mapsto> (d, bs)))"
    unfolding host_inv_def
  proof (intro conjI allI impI ballI)
    show "alloc_inv (hw_alloc (fst (fill_tensor t bs w', g(t \<mapsto> (d, bs)))), held (fst (fill_tensor t bs w', g(t \<mapsto> (d, bs)))))"
      using al w' by (simp add: fill_tensor_def)
    show "0 < bu_len (ar_storage ar) \<or> ar_storage ar = nil_buffer"
      if "ar \<in> set (hw_arenas (fst (fill_tensor t bs w', g(t \<mapsto> (d, bs)))))" for ar
      using inv that w' by (auto simp: fill_tensor_def host_inv_def)
    fix t' d' bs'
    assume g': "snd (fill_tensor t bs w', g(t \<mapsto> (d, bs))) t' = Some (d', bs')"
    have "t' < length (hw_tensors w') \<and> stored_ok (write_bytes (hw_memory w) b bs) (hw_tensors w' ! t') d' bs'"
    proof (cases "t' = t")
      case True
      with g' new w' t show ?thesis by simp
    next
      case False
      with g' have "g t' = Some (d', bs')" by simp
      from stored_kept_all [OF inv same this] w' show ?thesis by (simp add: nth_append)
    qed
    then show "t' < length (hw_tensors (fst (fill_tensor t bs w', g(t \<mapsto> (d, bs)))))"
      "stored_ok (hw_memory (fst (fill_tensor t bs w', g(t \<mapsto> (d, bs))))) (hw_tensors (fst (fill_tensor t bs w', g(t \<mapsto> (d, bs)))) ! t') d' bs'"
      using tb w' by (simp_all add: fill_tensor_def)
  qed
qed

section \<open>Every step keeps it\<close>

lemma inv_alloc_only:
  assumes "host_inv (w, g)" and "allocate (hw_alloc w) n raw = (r, st)" and "\<forall>b. r \<noteq> Ok (Some b)"
  shows "host_inv (w\<lparr>hw_alloc := st\<rparr>, g)"
  using assms alloc_refused [of "hw_alloc w" "held w" n raw r st] by (fastforce simp: host_inv_def)

lemma inv_failed_new: "host_inv (w, g) \<Longrightarrow> tensor_new w s d raw = (Err e, w') \<Longrightarrow> host_inv (w', g)"
  by (auto simp: tensor_new_def intro: inv_alloc_only split: if_splits sum.splits prod.splits)

lemma inv_failed:
  assumes "host_inv (w, g)"
    and "upload c w s d bs raw = (Err e, w') \<or> new_zeroed w s d raw = (Err e, w') \<or> tensor_new w s d raw = (Err e, w')"
  shows "host_inv (w', g)"
  using assms(2)
proof (elim disjE)
  assume "upload c w s d bs raw = (Err e, w')"
  then show ?thesis using assms(1)
    by (auto simp: upload_def dest: inv_failed_new split: if_splits sum.splits prod.splits)
next
  assume "new_zeroed w s d raw = (Err e, w')"
  then show ?thesis using assms(1)
    by (auto simp: new_zeroed_def dest: inv_failed_new split: sum.splits prod.splits)
next
  assume "tensor_new w s d raw = (Err e, w')"
  with assms(1) show ?thesis by (rule inv_failed_new)
qed

text \<open>Scrubbing memory that overlaps no owner.\<close>

lemma inv_scrubbed:
  assumes "host_inv (w, g)" and "\<And>b. b \<in> set (owned_bytes w) \<Longrightarrow> outside b bs"
  shows "host_inv (scrubbed bs m w, g)"
  unfolding host_inv_def
proof (intro conjI allI impI ballI)
  show "alloc_inv (hw_alloc (fst (scrubbed bs m w, g)), held (fst (scrubbed bs m w, g)))"
    using assms(1) by (simp add: host_inv_def)
  show "0 < bu_len (ar_storage ar) \<or> ar_storage ar = nil_buffer"
    if "ar \<in> set (hw_arenas (fst (scrubbed bs m w, g)))" for ar using assms(1) that by (auto simp: host_inv_def)
  fix t d cs
  assume "snd (scrubbed bs m w, g) t = Some (d, cs)"
  then have "g t = Some (d, cs)" by simp
  from stored_kept_all [OF assms(1) read_scrubbed [OF assms(2)] this]
  show "t < length (hw_tensors (fst (scrubbed bs m w, g)))"
    "stored_ok (hw_memory (fst (scrubbed bs m w, g))) (hw_tensors (fst (scrubbed bs m w, g)) ! t) d cs" by simp_all
qed

definition close_tensor :: "host_world \<Rightarrow> nat \<Rightarrow> host_world" where
  "close_tensor w t = w\<lparr>hw_tensors := (hw_tensors w)[t := (hw_tensors w ! t)\<lparr>ht_closed := True,
     ht_state := StateClosed, ht_bytes := nil_buffer\<rparr>]\<rparr>"

lemma host_close_cases:
  "host_close w t = (if ht_closed (hw_tensors w ! t) then w
     else if owner (hw_tensors w ! t) then (close_tensor w t)\<lparr>hw_alloc := release (hw_alloc w) (ht_bytes (hw_tensors w ! t))\<rparr>
     else close_tensor w t)"
  by (simp add: host_close_def close_tensor_def owner_def Let_def)

lemma not_owner_closed: "\<not> owner (h\<lparr>ht_closed := True, ht_state := StateClosed, ht_bytes := b\<rparr>)"
  by (simp add: owner_def)

lemma held_close:
  assumes "t < length (hw_tensors w)"
  shows "mset (held w) = (if owner (hw_tensors w ! t) then {#ht_bytes (hw_tensors w ! t)#} else {#}) + mset (held (close_tensor w t))"
proof -
  have "image_mset ht_bytes (mset (filter owner (hw_tensors w))) =
      image_mset ht_bytes (mset (filter owner (hw_tensors (close_tensor w t))) +
        (if owner (hw_tensors w ! t) then {#hw_tensors w ! t#} else {#}))"
    using mset_filter_update [OF assms, of owner "(hw_tensors w ! t)\<lparr>ht_closed := True, ht_state := StateClosed, ht_bytes := nil_buffer\<rparr>"]
    by (simp add: close_tensor_def not_owner_closed)
  then show ?thesis by (simp add: held_def owned_bytes_def close_tensor_def)
qed

lemma inv_close_tensor:
  assumes "host_inv (w, g)" and "alloc_inv (st, held (close_tensor w t))"
  shows "host_inv ((close_tensor w t)\<lparr>hw_alloc := st\<rparr>, g)"
  unfolding host_inv_def
proof (intro conjI allI impI ballI)
  let ?w = "(close_tensor w t)\<lparr>hw_alloc := st\<rparr>"
  show "alloc_inv (hw_alloc (fst (?w, g)), held (fst (?w, g)))" using assms(2) by simp
  show "0 < bu_len (ar_storage ar) \<or> ar_storage ar = nil_buffer" if "ar \<in> set (hw_arenas (fst (?w, g)))" for ar
    using assms(1) that by (auto simp: host_inv_def close_tensor_def)
  fix t' d bs
  assume "snd (?w, g) t' = Some (d, bs)"
  then have "g t' = Some (d, bs)" by simp
  note h = host_inv_stored [OF assms(1) this]
  then show "t' < length (hw_tensors (fst (?w, g)))" by (simp add: close_tensor_def)
  show "stored_ok (hw_memory (fst (?w, g))) (hw_tensors (fst (?w, g)) ! t') d bs"
    using h by (cases "t' = t") (auto simp: close_tensor_def stored_ok_def)
qed

lemma inv_closed:
  assumes inv: "host_inv (w, g)" and t: "t < length (hw_tensors w)"
  shows "host_inv (scrubbed (if owner (hw_tensors w ! t) then [ht_bytes (hw_tensors w ! t)] else []) m (host_close w t), g)"
proof (cases "owner (hw_tensors w ! t)")
  case False
  then have held: "mset (held (close_tensor w t)) = mset (held w)" using held_close [OF t] by simp
  have "alloc_inv (hw_alloc w, held (close_tensor w t))"
    using inv alloc_inv_mset [OF held] by (simp add: host_inv_def)
  then have "host_inv ((close_tensor w t)\<lparr>hw_alloc := hw_alloc w\<rparr>, g)" by (rule inv_close_tensor [OF inv])
  moreover have "(close_tensor w t)\<lparr>hw_alloc := hw_alloc w\<rparr> = close_tensor w t" by (simp add: close_tensor_def)
  ultimately have "host_inv (host_close w t, g)" using inv False by (simp add: host_close_cases)
  then show ?thesis using False by (simp add: scrubbed_def)
next
  case True
  let ?b = "ht_bytes (hw_tensors w ! t)"
  have al: "alloc_inv (hw_alloc w, held w)" using inv by (simp add: host_inv_def)
  have m: "mset (held w) = add_mset ?b (mset (held (close_tensor w t)))" using held_close [OF t] True by simp
  have "host_inv ((close_tensor w t)\<lparr>hw_alloc := release (hw_alloc w) ?b\<rparr>, g)"
    by (rule inv_close_tensor [OF inv alloc_released [OF al m]])
  then have "host_inv (host_close w t, g)" using True by (simp add: host_close_cases owner_def)
  moreover have "outside b [?b]" if "b \<in> set (owned_bytes (host_close w t))" for b
  proof (rule alloc_inv_outside(1) [OF al m])
    have "\<not> ht_closed (hw_tensors w ! t)" using True by (simp add: owner_def)
    then show "b \<in> set (held (close_tensor w t))" using that True
      by (simp add: held_def owned_bytes_def host_close_cases)
  qed
  ultimately have "host_inv (scrubbed [?b] m (host_close w t), g)" by (rule inv_scrubbed)
  with True show ?thesis by simp
qed

lemma view_slice_adds:
  assumes "view_slice w t start n = Some (r, w')"
  shows "w' = w \<or> (\<exists>h. w' = add_tensor h w \<and> ht_parent h = Some t)"
  using assms by (auto simp: view_slice_def Let_def split: if_splits sum.splits option.splits)

lemma view_reshape_adds:
  "view_reshape w t dims = (r, w') \<Longrightarrow> w' = w \<or> (\<exists>h. w' = add_tensor h w \<and> ht_parent h = Some t)"
  by (auto simp: view_reshape_def Let_def split: sum.splits)

lemma inv_view: "host_inv (w, g) \<Longrightarrow> w' = w \<or> (\<exists>h. w' = add_tensor h w \<and> ht_parent h = Some t) \<Longrightarrow> host_inv (w', g)"
  by (auto simp: owner_def intro: inv_add_view)

text \<open>Arenas: what they store, as part of what is held.\<close>

definition storages :: "host_world \<Rightarrow> buffer list" where
  "storages w = filter (\<lambda>b. bu_len b > 0) (map ar_storage (hw_arenas w))"

lemma held_split: "held w = owned_bytes w @ storages w"
  by (simp add: held_def storages_def)

lemma inv_arenas:
  assumes "host_inv (w, g)" and "alloc_inv (st, owned_bytes w @ storages (w\<lparr>hw_arenas := as\<rparr>))"
    and "\<And>ar. ar \<in> set as \<Longrightarrow> bu_len (ar_storage ar) > 0 \<or> ar_storage ar = nil_buffer"
  shows "host_inv (w\<lparr>hw_alloc := st, hw_arenas := as\<rparr>, g)"
  using assms by (fastforce simp: host_inv_def held_split storages_def owned_bytes_def)

lemma inv_arena_made:
  assumes inv: "host_inv (w, g)" and run: "new_arena w n raw = (r, w')"
    and mem: "system_memory (hw_alloc w) (held w) n raw"
  shows "host_inv (w', g)"
proof -
  have al: "alloc_inv (hw_alloc w, held w)" using inv by (simp add: host_inv_def)
  obtain q st where a: "allocate (hw_alloc w) n raw = (q, st)" by (cases "allocate (hw_alloc w) n raw")
  consider e where "q = Err e" | "q = Ok None" | b where "q = Ok (Some b)" by (metis not_Some_eq sum.exhaust)
  then show ?thesis
  proof cases
    case 1
    with a run inv_alloc_only [OF inv a] show ?thesis by (auto simp: new_arena_def)
  next
    case 2
    let ?as = "hw_arenas w @ [\<lparr>ar_storage = nil_buffer, ar_offset = 0, ar_epoch = 0\<rparr>]"
    have "alloc_inv (st, held w)" using alloc_refused [OF al a] 2 by simp
    then have "alloc_inv (st, owned_bytes w @ storages (w\<lparr>hw_arenas := ?as\<rparr>))"
      by (simp add: held_split storages_def nil_buffer_def)
    then have "host_inv (w\<lparr>hw_alloc := st, hw_arenas := ?as\<rparr>, g)"
      by (rule inv_arenas [OF inv]) (use inv in \<open>auto simp: host_inv_def\<close>)
    with 2 a run show ?thesis by (auto simp: new_arena_def)
  next
    case 3
    from alloc_granted [OF al mem] a 3 have b: "alloc_inv (st, b # held w)" "bu_len b = n" "0 < n" by auto
    let ?as = "hw_arenas w @ [\<lparr>ar_storage = b, ar_offset = 0, ar_epoch = 0\<rparr>]"
    have m: "mset (b # held w) = mset (owned_bytes w @ storages (w\<lparr>hw_arenas := ?as\<rparr>))"
      using b by (simp add: held_split storages_def)
    have "alloc_inv (st, owned_bytes w @ storages (w\<lparr>hw_arenas := ?as\<rparr>))" using b(1) alloc_inv_mset [OF m] by simp
    then have "host_inv (w\<lparr>hw_alloc := st, hw_arenas := ?as\<rparr>, g)"
      by (rule inv_arenas [OF inv]) (use inv b in \<open>auto simp: host_inv_def\<close>)
    with 3 a run show ?thesis by (auto simp: new_arena_def)
  qed
qed

text \<open>An arena operation that keeps the storage.\<close>

lemma inv_same_storage:
  assumes inv: "host_inv (w, g)" and a: "a < length (hw_arenas w)" and ar: "ar_storage ar = ar_storage (hw_arenas w ! a)"
  shows "host_inv (w\<lparr>hw_arenas := (hw_arenas w)[a := ar]\<rparr>, g)"
proof -
  let ?as = "(hw_arenas w)[a := ar]"
  have same: "map ar_storage ?as = map ar_storage (hw_arenas w)"
    using ar by (metis list_update_id map_update)
  then have "alloc_inv (hw_alloc w, owned_bytes w @ storages (w\<lparr>hw_arenas := ?as\<rparr>))"
    using inv by (simp add: host_inv_def held_split storages_def)
  moreover have "bu_len (ar_storage x) > 0 \<or> ar_storage x = nil_buffer" if "x \<in> set ?as" for x
  proof -
    have "ar_storage x \<in> set (map ar_storage (hw_arenas w))" using that same by (metis image_eqI list.set_map)
    then show ?thesis using inv by (auto simp: host_inv_def)
  qed
  ultimately have "host_inv (w\<lparr>hw_alloc := hw_alloc w, hw_arenas := ?as\<rparr>, g)" by (rule inv_arenas [OF inv])
  then show ?thesis by simp
qed

lemma allocate_bytes_storage: "allocate_bytes ar n = Some (r, ar') \<Longrightarrow> ar_storage ar' = ar_storage ar"
  by (auto simp: allocate_bytes_def Let_def split: if_splits option.splits)

lemma inv_arena_used:
  assumes inv: "host_inv (w, g)" and a: "a < length (hw_arenas w)" and run: "arena_new w a s d = Some (r, w')"
  shows "host_inv (w', g)"
proof -
  consider "w' = w" | ar n q where "allocate_bytes (hw_arenas w ! a) n = Some (q, ar)"
    "w' = w\<lparr>hw_arenas := (hw_arenas w)[a := ar]\<rparr> \<or> (\<exists>h. \<not> owner h \<and> w' = add_tensor h (w\<lparr>hw_arenas := (hw_arenas w)[a := ar]\<rparr>))"
  proof (cases "is_packed d \<or> (\<exists>e. shape_bytes s d = Err e)")
    case True
    then have "w' = w" using run by (auto simp: arena_new_def split: if_splits)
    then show ?thesis by (rule that(1))
  next
    case False
    then obtain n where n: "\<not> is_packed d" "shape_bytes s d = Ok n" by (cases "shape_bytes s d") auto
    with run obtain q ar where q: "allocate_bytes (hw_arenas w ! a) n = Some (q, ar)"
      by (cases "allocate_bytes (hw_arenas w ! a) n") (auto simp: arena_new_def)
    show ?thesis
    proof (rule that(2) [OF q], cases q)
      case None
      with run n q show "w' = w\<lparr>hw_arenas := (hw_arenas w)[a := ar]\<rparr> \<or> (\<exists>h. \<not> owner h \<and>
          w' = add_tensor h (w\<lparr>hw_arenas := (hw_arenas w)[a := ar]\<rparr>))" by (auto simp: arena_new_def)
    next
      case (Some b)
      let ?h = "(new_host_tensor s d b)\<lparr>ht_arena := ArenaAt a, ht_epoch := ar_epoch ar\<rparr>"
      have "\<not> owner ?h" by (simp add: owner_def)
      moreover have "w' = add_tensor ?h (w\<lparr>hw_arenas := (hw_arenas w)[a := ar]\<rparr>)"
        using run n q Some by (simp add: arena_new_def)
      ultimately show "w' = w\<lparr>hw_arenas := (hw_arenas w)[a := ar]\<rparr> \<or> (\<exists>h. \<not> owner h \<and>
          w' = add_tensor h (w\<lparr>hw_arenas := (hw_arenas w)[a := ar]\<rparr>))" by blast
    qed
  qed
  then show ?thesis
  proof cases
    case 1
    with inv show ?thesis by simp
  next
    case 2
    have "host_inv (w\<lparr>hw_arenas := (hw_arenas w)[a := ar]\<rparr>, g)"
      by (rule inv_same_storage [OF inv a allocate_bytes_storage [OF 2(1)]])
    with 2(2) inv_add_view show ?thesis by blast
  qed
qed

lemma storages_remove:
  assumes "a < length (hw_arenas w)" and "bu_len (ar_storage (hw_arenas w ! a)) > 0" and "bu_len (ar_storage ar) = 0"
  shows "mset (storages w) = add_mset (ar_storage (hw_arenas w ! a)) (mset (storages (w\<lparr>hw_arenas := (hw_arenas w)[a := ar]\<rparr>)))"
  using mset_filter_update [of a "map ar_storage (hw_arenas w)" "\<lambda>b. bu_len b > 0" "ar_storage ar"] assms
  by (simp add: storages_def map_update)

lemma storage_outside:
  assumes inv: "host_inv (w, g)" and a: "a < length (hw_arenas w)" and b: "b \<in> set (owned_bytes w)"
  shows "outside b [ar_storage (hw_arenas w ! a)]"
proof (cases "bu_len (ar_storage (hw_arenas w ! a)) > 0")
  case True
  let ?w = "w\<lparr>hw_arenas := (hw_arenas w)[a := (hw_arenas w ! a)\<lparr>ar_storage := nil_buffer\<rparr>]\<rparr>"
  have "mset (held w) = add_mset (ar_storage (hw_arenas w ! a)) (mset (owned_bytes w @ storages ?w))"
    using storages_remove [OF a True, of "(hw_arenas w ! a)\<lparr>ar_storage := nil_buffer\<rparr>"]
    by (simp add: held_split nil_buffer_def)
  moreover have "alloc_inv (hw_alloc w, held w)" using inv by (simp add: host_inv_def)
  ultimately show ?thesis using alloc_inv_outside(1) b by (metis Un_iff set_append)
next
  case False
  then have "ar_storage (hw_arenas w ! a) = nil_buffer" using inv a by (auto simp: host_inv_def)
  moreover have "live_ok b" using inv b by (auto simp: host_inv_def alloc_inv_def held_split)
  ultimately show ?thesis by (auto simp: outside_def live_ok_def nil_buffer_def)
qed

lemma owned_arenas [simp]: "owned_bytes (w\<lparr>hw_arenas := as\<rparr>) = owned_bytes w" "owned_bytes (w\<lparr>hw_alloc := st\<rparr>) = owned_bytes w"
  by (simp_all add: owned_bytes_def)

lemma inv_arena_rewound:
  assumes inv: "host_inv (w, g)" and a: "a < length (hw_arenas w)"
  shows "host_inv (scrubbed [ar_storage (hw_arenas w ! a)] m (arena_reset w a), g)"
proof (rule inv_scrubbed)
  show "host_inv (arena_reset w a, g)"
    unfolding arena_reset_def Let_def by (rule inv_same_storage [OF inv a]) simp
  show "outside b [ar_storage (hw_arenas w ! a)]" if "b \<in> set (owned_bytes (arena_reset w a))" for b
    using that by (intro storage_outside [OF inv a]) (simp add: arena_reset_def Let_def)
qed

lemma inv_arena_closed:
  assumes inv: "host_inv (w, g)" and a: "a < length (hw_arenas w)"
  shows "host_inv (scrubbed [ar_storage (hw_arenas w ! a)] m (arena_close w a), g)"
proof (rule inv_scrubbed)
  let ?ar = "hw_arenas w ! a"
  let ?new = "?ar\<lparr>ar_storage := nil_buffer, ar_offset := 0\<rparr>"
  let ?as = "(hw_arenas w)[a := ?new]"
  have al: "alloc_inv (hw_alloc w, held w)" using inv by (simp add: host_inv_def)
  have nil: "bu_len (ar_storage x) > 0 \<or> ar_storage x = nil_buffer" if "x \<in> set ?as" for x
    using that inv set_update_subset_insert [of "hw_arenas w" a ?new] by (auto simp: host_inv_def)
  show "host_inv (arena_close w a, g)"
  proof (cases "bu_len (ar_storage ?ar) > 0")
    case True
    have "mset (held w) = add_mset (ar_storage ?ar) (mset (owned_bytes w @ storages (w\<lparr>hw_arenas := ?as\<rparr>)))"
      using storages_remove [OF a True, of ?new] by (simp add: held_split nil_buffer_def)
    from alloc_released [OF al this] have "host_inv (w\<lparr>hw_alloc := release (hw_alloc w) (ar_storage ?ar), hw_arenas := ?as\<rparr>, g)"
      by (rule inv_arenas [OF inv]) (rule nil)
    moreover have "arena_close w a = w\<lparr>hw_alloc := release (hw_alloc w) (ar_storage ?ar), hw_arenas := ?as\<rparr>"
      using True by (simp add: arena_close_def Let_def)
    ultimately show ?thesis by simp
  next
    case False
    then have "ar_storage ?ar = nil_buffer" using inv a by (auto simp: host_inv_def)
    then have "host_inv (w\<lparr>hw_arenas := ?as\<rparr>, g)" by (intro inv_same_storage [OF inv a]) simp
    then show ?thesis using False by (simp add: arena_close_def Let_def)
  qed
  show "outside b [ar_storage ?ar]" if "b \<in> set (owned_bytes (arena_close w a))" for b
    using that by (intro storage_outside [OF inv a]) (simp add: arena_close_def Let_def split: if_splits)
qed

lemma upload_creates:
  assumes "upload c w s d bs raw = (Ok t, w')"
  shows "shape_bytes s d = Ok (int (length bs)) \<and> (\<exists>w1. tensor_new w s d raw = (Ok t, w1) \<and> w' = fill_tensor t bs w1)"
  using assms by (auto simp: upload_def split: if_splits sum.splits prod.splits)

lemma inv_zeroed:
  assumes inv: "host_inv (w, g)" and run: "new_zeroed w s d raw = (Ok t, w')" and n: "shape_bytes s d = Ok n"
    and mem: "system_memory (hw_alloc w) (held w) n raw"
  shows "host_inv (w', g(t \<mapsto> (d, replicate (nat n) 0)))"
proof -
  obtain w1 where w1: "tensor_new w s d raw = (Ok t, w1)"
    and w': "w' = fill_tensor t (replicate (nat (bu_len (ht_bytes (hw_tensors w1 ! t)))) 0) w1"
    using run by (auto simp: new_zeroed_def split: sum.splits prod.splits)
  have "alloc_inv (hw_alloc w, held w)" using inv by (simp add: host_inv_def)
  from created_spec [OF this w1 n mem] have "nat (bu_len (ht_bytes (hw_tensors w1 ! t))) = nat n"
    by (auto simp: new_host_tensor_def)
  with w' inv_created(2) [OF inv w1 n mem, of "replicate (nat n) 0"] show ?thesis by auto
qed

lemma host_inv_step: "host_step s s' \<Longrightarrow> host_inv s \<Longrightarrow> host_inv s'"
proof (induction rule: host_step.induct)
  case (uploaded c w s d bs raw t w' g)
  from upload_creates [OF uploaded(1)] obtain w1 where
    w1: "shape_bytes s d = Ok (int (length bs))" "tensor_new w s d raw = (Ok t, w1)" "w' = fill_tensor t bs w1" by blast
  from inv_created(2) [OF uploaded(3) w1(2,1) uploaded(2)] w1(3) show ?case by simp
next
  case (zeroed w s d raw t w' n g)
  then show ?case by (blast intro: inv_zeroed)
next
  case (created w s d raw t w' n g)
  then show ?case by (blast intro: inv_created(1))
next
  case (failed c w s d bs raw e w' g)
  from inv_failed [OF failed(2,1)] show ?case .
next
  case (closed t w h g m)
  then show ?case using inv_closed by blast
next
  case (sliced t w start n r w' g)
  from inv_view [OF sliced(3) view_slice_adds [OF sliced(2)]] show ?case .
next
  case (reshaped t w dims r w' g)
  from inv_view [OF reshaped(3) view_reshape_adds [OF reshaped(2)]] show ?case .
next
  case (arena_made w n raw r w' g)
  from inv_arena_made [OF arena_made(3,1,2)] show ?case .
next
  case (arena_used a w s d r w' g)
  from inv_arena_used [OF arena_used(3,1,2)] show ?case .
next
  case (arena_rewound a w g m)
  from inv_arena_rewound [OF arena_rewound(2,1)] show ?case .
next
  case (arena_closed a w g m)
  from inv_arena_closed [OF arena_closed(2,1)] show ?case .
qed

lemma host_inv_empty: "host_inv (empty_world m, Map.empty)"
  using alloc_inv_empty by (simp add: host_inv_def empty_world_def held_def owned_bytes_def)

lemma host_inv_reachable: "host_reachable s \<Longrightarrow> host_inv s"
proof -
  assume "host_reachable s"
  then obtain m where "host_step\<^sup>*\<^sup>* (empty_world m, Map.empty) s" by (auto simp: host_reachable_def)
  then show ?thesis by (induction rule: rtranclp_induct) (auto intro: host_inv_empty host_inv_step)
qed

section \<open>Properties\<close>

text \<open>
  C22. What was uploaded is what is read. However tensors and arenas are created, sliced, reshaped,
  rewound and closed in between, and whatever the system does to the memory given back to it:
  \<open>RawBytes\<close> of a tensor made by \<open>Upload\<close> (or \<open>NewZeroed\<close>) returns the dtype and the bytes it was
  made with until it is closed, and \<open>ErrTensorClosed\<close> is never returned for it before.
\<close>

theorem uploads_read_back:
  assumes "host_reachable (w, g)" and "g t = Some (d, bs)" and "\<not> ht_closed (hw_tensors w ! t)"
  shows "raw_bytes w t = Ok (d, bs)"
  using host_inv_stored [OF host_inv_reachable [OF assms(1)] assms(2)] assms(3)
  by (simp add: stored_ok_def raw_bytes_def acquire_view_def)

lemma slab_class_2: "slab_class 2 = Some 0"
  by (simp add: slab_class_def bits_len.simps)

theorem uploads_read_back_witness:
  "\<exists>w g. host_reachable (w, g) \<and> raw_bytes w 0 = Ok (Uint8, [7, 9])"
proof -
  let ?s = "\<lparr>ts_dims = [2], ts_elements = 2, ts_valid = True\<rparr>"
  let ?w0 = "empty_world (\<lambda>_. 0)"
  let ?b = "\<lparr>bu_base = 64, bu_len = 2, bu_cap = 64\<rparr>"
  let ?w1 = "fill_tensor 0 [7, 9] (add_tensor (new_host_tensor ?s Uint8 ?b)
     (?w0\<lparr>hw_alloc := empty_pools\<lparr>al_shard := 1, al_allocs := 1\<rparr>\<rparr>))"
  have bytes: "shape_bytes ?s Uint8 = Ok 2" by (simp add: shape_bytes_def bytes_for_def dtype_size_def wrap64_def)
  have "allocate empty_pools 2 (Some 64) = (Ok (Some ?b), empty_pools\<lparr>al_shard := 1, al_allocs := 1\<rparr>)"
    by (simp add: allocate_def slab_alloc_def slab_class_2 slab_shard_index_simps empty_pools_def
        allocate_aligned_def slice_of_def Let_def)
  then have "upload False ?w0 ?s Uint8 [7, 9] (Some 64) = (Ok 0, ?w1)"
    by (simp add: upload_def tensor_new_def bytes empty_world_def)
  moreover have "held ?w0 = []" by (simp add: held_def owned_bytes_def empty_world_def)
  then have "system_memory (hw_alloc ?w0) (held ?w0) (int (length [7, 9 :: 8 word])) (Some 64)"
    by (simp add: system_memory_def owned_def parked_def empty_world_def empty_pools_def)
  ultimately have "host_step (?w0, Map.empty) (?w1, [0 \<mapsto> (Uint8, [7, 9])])" by (rule uploaded)
  then have r: "host_reachable (?w1, [0 \<mapsto> (Uint8, [7, 9])])" unfolding host_reachable_def by blast
  have "raw_bytes ?w1 0 = Ok (Uint8, [7, 9])"
    by (rule uploads_read_back [OF r]) (simp_all add: fill_tensor_def empty_world_def new_host_tensor_def)
  with r show ?thesis by blast
qed

end
