(* ===== verification/Arena_Safety.thy ===== *)
theory Arena_Safety
  imports Host_Tensors
begin

text \<open>
  The bump arenas of \<open>tensor/arena.go\<close> over the executions of \<open>Host_Tensors\<close>: the tensors an
  arena hands out between two resets never share memory, and what acquiring a view promises about
  tensors from before a reset.
\<close>

section \<open>The bump pointer\<close>

lemma wrap64_over: "2 ^ 63 \<le> x \<Longrightarrow> x < 2 ^ 64 \<Longrightarrow> wrap64 x = x - 2 ^ 64"
proof -
  assume x: "2 ^ 63 \<le> x" "x < 2 ^ 64"
  have "(x + 2 ^ 63) mod 2 ^ 64 = (x + 2 ^ 63 - 2 ^ 64) mod 2 ^ 64" by (rule minus_mod_self2 [symmetric])
  also have "\<dots> = x + 2 ^ 63 - 2 ^ 64" using x by (intro mod_pos_pos_trivial) simp_all
  finally show ?thesis by (simp add: wrap64_def)
qed

lemma wrap64_sum:
  "0 \<le> a \<Longrightarrow> a < 2 ^ 63 \<Longrightarrow> 0 \<le> b \<Longrightarrow> b < 2 ^ 63 \<Longrightarrow> wrap64 (a + b) = a + b \<and> a + b < 2 ^ 63 \<or> wrap64 (a + b) < 0"
  using wrap64_pos [of "a + b"] wrap64_over [of "a + b"] by (cases "a + b < 2 ^ 63") simp_all

lemma allocate_bytes_Some:
  assumes "allocate_bytes ar n = Some (Some b, ar')" and "0 \<le> ar_offset ar" and "ar_offset ar < 2 ^ 63" and "n < 2 ^ 63"
  shows "\<exists>k. 64 dvd k \<and> ar_offset ar \<le> k \<and> b = \<lparr>bu_base = bu_base (ar_storage ar) + k, bu_len = n, bu_cap = n\<rparr> \<and>
    ar' = ar\<lparr>ar_offset := k + n\<rparr> \<and> 0 < n \<and> k + n \<le> bu_len (ar_storage ar) \<and> k + n < 2 ^ 63"
proof -
  define k where "k = wrap64 (ar_offset ar + 63) AND NOT 63"
  define l where "l = wrap64 (k + n)"
  note run = assms(1) [unfolded allocate_bytes_def Let_def, folded k_def, folded l_def]
  from run have n: "0 < n" and l: "l \<le> bu_len (ar_storage ar)" "0 \<le> k" "k \<le> l" "ar' = ar\<lparr>ar_offset := l\<rparr>"
    and b: "b = \<lparr>bu_base = bu_base (ar_storage ar) + k, bu_len = l - k, bu_cap = l - k\<rparr>"
    by (auto simp: go_slice_def split: if_splits option.splits)
  have k: "k = wrap64 (ar_offset ar + 63) div 64 * 64" unfolding k_def
    using and_not_low [of "wrap64 (ar_offset ar + 63)" 6] by simp
  then have "0 \<le> wrap64 (ar_offset ar + 63)" using l(2) by (simp add: zero_le_mult_iff pos_imp_zdiv_nonneg_iff)
  then have w: "wrap64 (ar_offset ar + 63) = ar_offset ar + 63" "ar_offset ar + 63 < 2 ^ 63"
    using wrap64_sum [of "ar_offset ar" 63] assms(2,3) by auto
  have "k = round_up (ar_offset ar) 64" unfolding k w(1) by (simp add: round_up_def)
  then have r: "64 dvd k" "ar_offset ar \<le> k" "k < ar_offset ar + 64"
    using round_up_ge [of 64 "ar_offset ar"] round_up_lt [of 64 "ar_offset ar"] by simp_all
  have "k < 2 ^ 63" using r(3) w(2) by simp
  then have "l = k + n" "k + n < 2 ^ 63" using wrap64_sum [of k n] l(2,3) n assms(4) unfolding l_def by auto
  with r n l b show ?thesis by (intro exI [of _ k]) simp
qed

lemma shape_bytes_bound: "\<not> is_packed d \<Longrightarrow> shape_bytes s d = Ok n \<Longrightarrow> n < 2 ^ 63"
  using in64_wrap64 by (auto simp: shape_bytes_def bytes_for_def is_packed_def in64_def split: if_splits)

section \<open>The invariant\<close>

definition handed_out :: "host_world \<Rightarrow> nat \<Rightarrow> host_tensor \<Rightarrow> bool" where
  "handed_out w a h \<longleftrightarrow> ht_arena h = ArenaAt a \<and> ht_epoch h = ar_epoch (hw_arenas w ! a) \<and> \<not> ht_closed h"

definition placed :: "arena \<Rightarrow> buffer \<Rightarrow> bool" where
  "placed ar b \<longleftrightarrow> 64 dvd bu_base b \<and> bu_len b = bu_cap b \<and> (bu_len (ar_storage ar) > 0 \<longrightarrow>
     bu_base (ar_storage ar) \<le> bu_base b \<and> bu_base b + bu_cap b \<le> bu_base (ar_storage ar) + ar_offset ar)"

definition arena_inv :: "host_world \<Rightarrow> bool" where
  "arena_inv w \<longleftrightarrow>
     (\<forall>a < length (hw_arenas w). 0 \<le> ar_offset (hw_arenas w ! a) \<and> ar_offset (hw_arenas w ! a) < 2 ^ 63) \<and>
     (\<forall>h \<in> set (hw_tensors w). (ht_closed h \<longrightarrow> ht_state h = StateClosed) \<and>
        (\<forall>a. ht_arena h = ArenaAt a \<longrightarrow> a < length (hw_arenas w) \<and> ht_epoch h \<le> ar_epoch (hw_arenas w ! a) \<and>
           (handed_out w a h \<longrightarrow> placed (hw_arenas w ! a) (ht_bytes h)))) \<and>
     (\<forall>a. sorted_wrt (\<lambda>h h'. separate (region (ht_bytes h)) (region (ht_bytes h'))) (filter (handed_out w a) (hw_tensors w)))"

lemma arena_inv_cong:
  assumes "arena_inv w" and "hw_tensors w' = hw_tensors w" and "hw_arenas w' = hw_arenas w"
  shows "arena_inv w'"
proof -
  have "handed_out w' = handed_out w" using assms(3) by (simp add: handed_out_def fun_eq_iff)
  with assms show ?thesis by (simp add: arena_inv_def)
qed

lemma arena_inv_scrubbed: "arena_inv w \<Longrightarrow> arena_inv (scrubbed bs m w)"
  by (erule arena_inv_cong) simp_all

text \<open>Tensors outside every arena.\<close>

lemma arena_inv_add:
  assumes "arena_inv w" and "\<forall>a. ht_arena h \<noteq> ArenaAt a" and "\<not> ht_closed h"
  shows "arena_inv (add_tensor h w)"
proof -
  have h: "handed_out (add_tensor h w) = handed_out w" by (simp add: handed_out_def fun_eq_iff)
  have "\<not> handed_out w a h" for a using assms(2) by (simp add: handed_out_def)
  then show ?thesis using assms unfolding arena_inv_def h by simp
qed

lemma arena_inv_close_tensor:
  assumes "arena_inv w" and t: "t < length (hw_tensors w)"
  shows "arena_inv (close_tensor w t)"
proof -
  let ?h = "(hw_tensors w ! t)\<lparr>ht_closed := True, ht_state := StateClosed, ht_bytes := nil_buffer\<rparr>"
  let ?sep = "\<lambda>h h'. separate (region (ht_bytes h)) (region (ht_bytes h'))"
  have h: "handed_out (close_tensor w t) = handed_out w" by (simp add: handed_out_def close_tensor_def fun_eq_iff)
  have no: "\<not> handed_out w a ?h" for a by (simp add: handed_out_def)
  have "sorted_wrt ?sep (filter (handed_out w a) ((hw_tensors w)[t := ?h]))" for a
  proof -
    let ?ts = "hw_tensors w"
    have "sorted_wrt ?sep (filter (handed_out w a) (take t ?ts @ ?ts ! t # drop (Suc t) ?ts))"
      using assms(1) id_take_nth_drop [OF t] by (simp add: arena_inv_def)
    then have "sorted_wrt ?sep (filter (handed_out w a) (take t ?ts @ drop (Suc t) ?ts))"
      by (auto simp: sorted_wrt_append split: if_splits)
    then show ?thesis using no by (simp add: upd_conv_take_nth_drop [OF t])
  qed
  moreover have "(ht_closed x \<longrightarrow> ht_state x = StateClosed) \<and> (\<forall>a. ht_arena x = ArenaAt a \<longrightarrow> a < length (hw_arenas w) \<and>
      ht_epoch x \<le> ar_epoch (hw_arenas w ! a) \<and> (handed_out w a x \<longrightarrow> placed (hw_arenas w ! a) (ht_bytes x)))"
    if "x \<in> set ((hw_tensors w)[t := ?h])" for x
  proof (cases "x = ?h")
    case True
    have "hw_tensors w ! t \<in> set (hw_tensors w)" using t by simp
    with assms(1) True no show ?thesis unfolding arena_inv_def by simp
  next
    case False
    with that have "x \<in> set (hw_tensors w)" using set_update_subset_insert [of "hw_tensors w" t ?h] by auto
    with assms(1) show ?thesis unfolding arena_inv_def by blast
  qed
  ultimately show ?thesis using assms(1) unfolding arena_inv_def h by (simp add: close_tensor_def)
qed

section \<open>Arena operations\<close>

text \<open>Changing one arena: what has to hold of the new arena and of the tensors it handed out.\<close>

lemma arena_inv_update:
  assumes inv: "arena_inv w" and a: "a < length (hw_arenas w)"
    and off: "0 \<le> ar_offset ar" "ar_offset ar < 2 ^ 63" and ep: "ar_epoch (hw_arenas w ! a) \<le> ar_epoch ar"
    and same: "\<And>b. ar_epoch ar = ar_epoch (hw_arenas w ! a) \<Longrightarrow> placed (hw_arenas w ! a) b \<Longrightarrow> placed ar b"
  shows "arena_inv (w\<lparr>hw_arenas := (hw_arenas w)[a := ar]\<rparr>)" (is "arena_inv ?w")
proof -
  let ?sep = "\<lambda>h h'. separate (region (ht_bytes h)) (region (ht_bytes h'))"
  have other: "handed_out ?w c = handed_out w c" if "c \<noteq> a" for c using that by (simp add: handed_out_def fun_eq_iff)
  have this_a: "handed_out ?w a h \<Longrightarrow> h \<in> set (hw_tensors w) \<Longrightarrow> ar_epoch ar = ar_epoch (hw_arenas w ! a) \<and> handed_out w a h" for h
    using inv a ep unfolding arena_inv_def handed_out_def by force
  have sorted: "sorted_wrt ?sep (filter (handed_out ?w c) (hw_tensors w))" for c
  proof (cases "c = a")
    case True
    show ?thesis
    proof (cases "ar_epoch ar = ar_epoch (hw_arenas w ! a)")
      case eq: True
      then have "handed_out ?w a = handed_out w a" using a by (simp add: handed_out_def fun_eq_iff)
      with inv True show ?thesis by (simp add: arena_inv_def)
    next
      case False
      then have "filter (handed_out ?w a) (hw_tensors w) = []" using this_a by (auto simp: filter_empty_conv)
      with True show ?thesis by simp
    qed
  next
    case False
    with inv other show ?thesis by (simp add: arena_inv_def)
  qed
  have tensors: "(ht_closed h \<longrightarrow> ht_state h = StateClosed) \<and> (\<forall>c. ht_arena h = ArenaAt c \<longrightarrow> c < length (hw_arenas w) \<and>
      ht_epoch h \<le> ar_epoch (hw_arenas ?w ! c) \<and> (handed_out ?w c h \<longrightarrow> placed (hw_arenas ?w ! c) (ht_bytes h)))"
    if h: "h \<in> set (hw_tensors w)" for h
  proof (intro conjI allI impI)
    show "ht_closed h \<Longrightarrow> ht_state h = StateClosed" using inv h by (simp add: arena_inv_def)
    fix c assume c: "ht_arena h = ArenaAt c"
    with inv h have old: "c < length (hw_arenas w)" "ht_epoch h \<le> ar_epoch (hw_arenas w ! c)"
      "handed_out w c h \<Longrightarrow> placed (hw_arenas w ! c) (ht_bytes h)" unfolding arena_inv_def by blast+
    show "c < length (hw_arenas w)" by (rule old(1))
    show "ht_epoch h \<le> ar_epoch (hw_arenas ?w ! c)" using old(1,2) ep by (cases "c = a") simp_all
    show "placed (hw_arenas ?w ! c) (ht_bytes h)" if "handed_out ?w c h"
      using that old a other [of c] this_a [OF _ h] same by (cases "c = a") auto
  qed
  show ?thesis unfolding arena_inv_def
  proof (intro conjI)
    show "\<forall>c < length (hw_arenas ?w). 0 \<le> ar_offset (hw_arenas ?w ! c) \<and> ar_offset (hw_arenas ?w ! c) < 2 ^ 63"
      using inv off a by (auto simp: arena_inv_def nth_list_update)
  qed (use tensors sorted in simp_all)
qed

lemma arena_inv_new_arena:
  assumes "arena_inv w"
  shows "arena_inv (w\<lparr>hw_alloc := st, hw_arenas := hw_arenas w @ [\<lparr>ar_storage = b, ar_offset = 0, ar_epoch = 0\<rparr>]\<rparr>)"
    (is "arena_inv ?w")
proof -
  have same: "handed_out ?w c h = handed_out w c h" if "h \<in> set (hw_tensors w)" "c < length (hw_arenas w)" for c h
    using that by (simp add: handed_out_def nth_append)
  have new: "\<not> handed_out ?w c h" if "h \<in> set (hw_tensors w)" "\<not> c < length (hw_arenas w)" for c h
    using that assms by (auto simp: handed_out_def arena_inv_def)
  have "filter (handed_out ?w c) (hw_tensors w) = (if c < length (hw_arenas w) then filter (handed_out w c) (hw_tensors w) else [])" for c
    using same new by (auto intro: filter_cong simp: filter_empty_conv)
  moreover have "(ht_closed h \<longrightarrow> ht_state h = StateClosed) \<and> (\<forall>c. ht_arena h = ArenaAt c \<longrightarrow> c < length (hw_arenas ?w) \<and>
      ht_epoch h \<le> ar_epoch (hw_arenas ?w ! c) \<and> (handed_out ?w c h \<longrightarrow> placed (hw_arenas ?w ! c) (ht_bytes h)))"
    if "h \<in> set (hw_tensors w)" for h
    using assms that same [OF that] unfolding arena_inv_def by (fastforce simp: nth_append)
  ultimately show ?thesis using assms unfolding arena_inv_def by (auto simp: nth_append)
qed

lemma arena_inv_used:
  assumes inv: "arena_inv w" and hinv: "host_inv (w, g)" and a: "a < length (hw_arenas w)"
    and run: "arena_new w a s d = Some (r, w')"
  shows "arena_inv w'"
proof (cases "is_packed d \<or> (\<exists>e. shape_bytes s d = Err e)")
  case True
  then have "w' = w" using run by (auto simp: arena_new_def split: if_splits)
  with inv show ?thesis by simp
next
  case False
  then obtain n where n: "\<not> is_packed d" "shape_bytes s d = Ok n" by (cases "shape_bytes s d") auto
  with run obtain q ar where q: "allocate_bytes (hw_arenas w ! a) n = Some (q, ar)"
    by (cases "allocate_bytes (hw_arenas w ! a) n") (auto simp: arena_new_def)
  show ?thesis
  proof (cases q)
    case None
    then have "ar = hw_arenas w ! a" using q by (auto simp: allocate_bytes_def Let_def split: if_splits option.splits)
    then have "w' = w" using run n q None by (simp add: arena_new_def)
    with inv show ?thesis by simp
  next
    case (Some b)
    let ?ar = "hw_arenas w ! a"
    have off: "0 \<le> ar_offset ?ar" "ar_offset ?ar < 2 ^ 63" using inv a by (simp_all add: arena_inv_def)
    from allocate_bytes_Some [OF q [unfolded Some] off shape_bytes_bound [OF n]] obtain k where
      k: "64 dvd k" "ar_offset ?ar \<le> k" "b = \<lparr>bu_base = bu_base (ar_storage ?ar) + k, bu_len = n, bu_cap = n\<rparr>"
      "ar = ?ar\<lparr>ar_offset := k + n\<rparr>" "0 < n" "k + n \<le> bu_len (ar_storage ?ar)" "k + n < 2 ^ 63" by blast
    have pos: "bu_len (ar_storage ?ar) > 0" using k(2,5,6) off(1) by simp
    let ?w = "w\<lparr>hw_arenas := (hw_arenas w)[a := ar]\<rparr>"
    let ?h = "(new_host_tensor s d b)\<lparr>ht_arena := ArenaAt a, ht_epoch := ar_epoch ar\<rparr>"
    have w': "w' = add_tensor ?h ?w" using run n q Some by (simp add: arena_new_def)
    have inv': "arena_inv ?w"
    proof (rule arena_inv_update [OF inv a])
      show "placed ar c" if "placed ?ar c" for c using that k(2,4,5) by (auto simp: placed_def)
    qed (use k off in auto)
    have "64 dvd bu_base (ar_storage ?ar)"
    proof -
      have "ar_storage ?ar \<in> set (held w)" using pos a by (auto simp: held_def)
      then have "region (ar_storage ?ar) \<in># owned (hw_alloc w) (held w)" by (simp add: owned_def)
      then show ?thesis using hinv by (auto simp: host_inv_def alloc_inv_def region_def)
    qed
    then have pl: "placed ar b" using k off(1) by (simp add: placed_def)
    have h: "handed_out w' = handed_out ?w" using w' by (simp add: handed_out_def fun_eq_iff)
    have mine: "handed_out ?w c ?h \<longleftrightarrow> c = a" for c using a by (auto simp: handed_out_def new_host_tensor_def)
    have sep: "separate (region (ht_bytes x)) (region b)" if "x \<in> set (hw_tensors w)" "handed_out ?w a x" for x
    proof -
      have "handed_out w a x" using that(2) a k(4) by (simp add: handed_out_def)
      with inv that(1) have "placed ?ar (ht_bytes x)" unfolding arena_inv_def handed_out_def by blast
      with pos k(2,3) show ?thesis by (simp add: placed_def separate_def region_def)
    qed
    show ?thesis
      unfolding arena_inv_def h
    proof (intro conjI)
      show "\<forall>c < length (hw_arenas w'). 0 \<le> ar_offset (hw_arenas w' ! c) \<and> ar_offset (hw_arenas w' ! c) < 2 ^ 63"
        using inv' unfolding arena_inv_def w' by simp
      show "\<forall>x \<in> set (hw_tensors w'). (ht_closed x \<longrightarrow> ht_state x = StateClosed) \<and> (\<forall>c. ht_arena x = ArenaAt c \<longrightarrow>
          c < length (hw_arenas w') \<and> ht_epoch x \<le> ar_epoch (hw_arenas w' ! c) \<and>
          (handed_out ?w c x \<longrightarrow> placed (hw_arenas w' ! c) (ht_bytes x)))"
        using inv' a pl unfolding arena_inv_def w' by (simp add: new_host_tensor_def)
      show "\<forall>c. sorted_wrt (\<lambda>h h'. separate (region (ht_bytes h)) (region (ht_bytes h'))) (filter (handed_out ?w c) (hw_tensors w'))"
      proof
      fix c
      have "sorted_wrt (\<lambda>h h'. separate (region (ht_bytes h)) (region (ht_bytes h'))) (filter (handed_out ?w c) (hw_tensors w))"
        using inv' by (simp add: arena_inv_def)
      then show "sorted_wrt (\<lambda>h h'. separate (region (ht_bytes h)) (region (ht_bytes h'))) (filter (handed_out ?w c) (hw_tensors w'))"
        using sep mine [of c] by (simp add: w' sorted_wrt_append new_host_tensor_def)
      qed
    qed
  qed
qed

section \<open>Every step keeps it\<close>

lemma tensor_new_adds:
  "tensor_new w s d raw = (Ok t, w') \<Longrightarrow> \<exists>b st. w' = add_tensor (new_host_tensor s d b) (w\<lparr>hw_alloc := st\<rparr>)"
  by (auto simp: tensor_new_def split: if_splits sum.splits prod.splits)

lemma arena_inv_tensor_new:
  assumes "arena_inv w" and "tensor_new w s d raw = (Ok t, w')"
  shows "arena_inv w'"
proof -
  from tensor_new_adds [OF assms(2)] obtain b st where "w' = add_tensor (new_host_tensor s d b) (w\<lparr>hw_alloc := st\<rparr>)" by blast
  moreover have "arena_inv (w\<lparr>hw_alloc := st\<rparr>)" by (rule arena_inv_cong [OF assms(1)]) simp_all
  ultimately show ?thesis by (simp add: arena_inv_add new_host_tensor_def)
qed

lemma arena_inv_fill: "arena_inv w \<Longrightarrow> arena_inv (fill_tensor t bs w)"
  by (erule arena_inv_cong) (simp_all add: fill_tensor_def)

lemma failed_tensor_new: "tensor_new w s d raw = (Err e, w') \<Longrightarrow> hw_tensors w' = hw_tensors w \<and> hw_arenas w' = hw_arenas w"
  by (auto simp: tensor_new_def split: if_splits sum.splits prod.splits)

lemma failed_same:
  assumes "upload c w s d bs raw = (Err e, w') \<or> new_zeroed w s d raw = (Err e, w') \<or> tensor_new w s d raw = (Err e, w')"
  shows "hw_tensors w' = hw_tensors w \<and> hw_arenas w' = hw_arenas w"
  using assms by (auto simp: upload_def new_zeroed_def dest: failed_tensor_new split: if_splits sum.splits prod.splits)

lemma arena_inv_view:
  assumes "arena_inv w" and "w' = w \<or> (\<exists>s d b t. w' = add_tensor ((new_host_tensor s d b)\<lparr>ht_parent := Some t\<rparr>) w)"
  shows "arena_inv w'"
  using assms by (auto simp: new_host_tensor_def intro: arena_inv_add)

lemma view_slice_view:
  "view_slice w t start n = Some (r, w') \<Longrightarrow> w' = w \<or> (\<exists>s d b t. w' = add_tensor ((new_host_tensor s d b)\<lparr>ht_parent := Some t\<rparr>) w)"
  by (auto simp: view_slice_def Let_def split: if_splits sum.splits option.splits)

lemma view_reshape_view:
  "view_reshape w t dims = (r, w') \<Longrightarrow> w' = w \<or> (\<exists>s d b t. w' = add_tensor ((new_host_tensor s d b)\<lparr>ht_parent := Some t\<rparr>) w)"
  by (auto simp: view_reshape_def Let_def split: sum.splits)

lemma arena_inv_host_close:
  assumes "arena_inv w" and "t < length (hw_tensors w)"
  shows "arena_inv (host_close w t)"
  using assms arena_inv_close_tensor [OF assms]
  by (auto simp: host_close_cases intro: arena_inv_cong [of "close_tensor w t"])

lemma arena_inv_reset:
  assumes "arena_inv w" and "a < length (hw_arenas w)"
  shows "arena_inv (arena_reset w a)"
  unfolding arena_reset_def Let_def by (rule arena_inv_update [OF assms]) simp_all

lemma arena_inv_arena_close:
  assumes "arena_inv w" and "a < length (hw_arenas w)"
  shows "arena_inv (arena_close w a)"
proof -
  let ?w = "w\<lparr>hw_arenas := (hw_arenas w)[a := (hw_arenas w ! a)\<lparr>ar_storage := nil_buffer, ar_offset := 0\<rparr>]\<rparr>"
  have "arena_inv ?w" by (rule arena_inv_update [OF assms]) (simp_all add: placed_def nil_buffer_def)
  then show ?thesis by (rule arena_inv_cong) (simp_all add: arena_close_def Let_def)
qed

lemma arena_inv_made:
  assumes "arena_inv w" and "new_arena w n raw = (r, w')"
  shows "arena_inv w'"
proof -
  obtain q st where a: "allocate (hw_alloc w) n raw = (q, st)" by (cases "allocate (hw_alloc w) n raw")
  show ?thesis
  proof (cases q)
    case (Inl e)
    with a assms(2) have "w' = w\<lparr>hw_alloc := st\<rparr>" by (simp add: new_arena_def)
    with assms(1) show ?thesis by (auto intro: arena_inv_cong)
  next
    case (Inr b)
    with a assms arena_inv_new_arena [OF assms(1)] show ?thesis by (auto simp: new_arena_def)
  qed
qed

lemma arena_inv_step: "host_step s s' \<Longrightarrow> host_inv s \<and> arena_inv (fst s) \<Longrightarrow> arena_inv (fst s')"
proof (induction rule: host_step.induct)
  case (uploaded c w s d bs raw t w' g)
  from upload_creates [OF uploaded(1)] obtain w1 where "tensor_new w s d raw = (Ok t, w1)" "w' = fill_tensor t bs w1" by blast
  with uploaded(3) show ?case using arena_inv_fill arena_inv_tensor_new by simp blast
next
  case (zeroed w s d raw t w' n g)
  then show ?case
    by (auto simp: new_zeroed_def split: sum.splits prod.splits intro: arena_inv_fill arena_inv_tensor_new)
next
  case (created w s d raw t w' n g)
  then show ?case using arena_inv_tensor_new by auto
next
  case (failed c w s d bs raw e w' g)
  with failed_same [OF failed(1)] show ?case by (auto intro: arena_inv_cong)
next
  case (closed t w h g m)
  then show ?case by (simp add: arena_inv_scrubbed arena_inv_host_close)
next
  case (sliced t w start n r w' g)
  from arena_inv_view [OF _ view_slice_view [OF sliced(2)]] sliced(3) show ?case by simp
next
  case (reshaped t w dims r w' g)
  from arena_inv_view [OF _ view_reshape_view [OF reshaped(2)]] reshaped(3) show ?case by simp
next
  case (arena_made w n raw r w' g)
  then show ?case using arena_inv_made by auto
next
  case (arena_used a w s d r w' g)
  then show ?case using arena_inv_used by auto
next
  case (arena_rewound a w g m)
  then show ?case by (simp add: arena_inv_scrubbed arena_inv_reset)
next
  case (arena_closed a w g m)
  then show ?case by (simp add: arena_inv_scrubbed arena_inv_arena_close)
qed

lemma arena_inv_reachable: "host_reachable s \<Longrightarrow> arena_inv (fst s)"
proof -
  assume "host_reachable s"
  then obtain m where m: "host_step\<^sup>*\<^sup>* (empty_world m, Map.empty) s" by (auto simp: host_reachable_def)
  have "host_inv s \<and> arena_inv (fst s)" using m
  proof (induction rule: rtranclp_induct)
    case base
    show ?case using host_inv_empty by (simp add: arena_inv_def empty_world_def)
  next
    case (step y z)
    then show ?case using host_inv_step arena_inv_step by blast
  qed
  then show ?thesis by simp
qed

section \<open>Properties\<close>

lemma sorted_wrt_filter_nth:
  assumes "sorted_wrt P (filter Q xs)" and "i < j" and "j < length xs" and "Q (xs ! i)" and "Q (xs ! j)"
  shows "P (xs ! i) (xs ! j)"
  using assms
proof (induction xs arbitrary: i j)
  case (Cons x xs)
  show ?case
  proof (cases i)
    case 0
    have "xs ! (j - 1) \<in> set (filter Q xs)" using Cons.prems 0 by (cases j) auto
    with Cons.prems 0 show ?thesis by (cases j) auto
  next
    case (Suc i')
    with Cons.prems Cons.IH [of i' "j - 1"] show ?thesis by (cases j) (auto split: if_splits)
  qed
qed simp

text \<open>
  C17. Arena tensors do not overlap. In every reachable state, two different tensors of one arena
  whose views can both be acquired occupy disjoint, 64-byte aligned memory; a tensor from before the
  arena's last \<open>Reset\<close> is refused with \<open>ErrTensorClosed\<close>.
\<close>

theorem arena_tensors_disjoint:
  assumes "host_reachable (w, g)" and "i < length (hw_tensors w)" and "ht_arena (hw_tensors w ! i) = ArenaAt a"
  shows "(acquire_view w (hw_tensors w ! i) = Ok () \<longrightarrow> 64 dvd bu_base (ht_bytes (hw_tensors w ! i)) \<and>
      (\<forall>j < length (hw_tensors w). j \<noteq> i \<longrightarrow> ht_arena (hw_tensors w ! j) = ArenaAt a \<longrightarrow>
         acquire_view w (hw_tensors w ! j) = Ok () \<longrightarrow>
         separate (region (ht_bytes (hw_tensors w ! i))) (region (ht_bytes (hw_tensors w ! j))))) \<and>
    (ht_state (hw_tensors w ! i) \<noteq> StatePending \<longrightarrow> ht_epoch (hw_tensors w ! i) < ar_epoch (hw_arenas w ! a) \<longrightarrow>
      acquire_view w (hw_tensors w ! i) = Err ErrTensorClosed)"
proof -
  let ?ts = "hw_tensors w"
  have inv: "arena_inv w" using arena_inv_reachable [OF assms(1)] by simp
  have out: "handed_out w a (?ts ! k)" if "k < length ?ts" "ht_arena (?ts ! k) = ArenaAt a" "acquire_view w (?ts ! k) = Ok ()" for k
  proof -
    have "ht_closed (?ts ! k) \<Longrightarrow> ht_state (?ts ! k) = StateClosed" using inv that(1) by (simp add: arena_inv_def)
    with that show ?thesis by (auto simp: handed_out_def acquire_view_def arena_epoch_of_def split: if_splits)
  qed
  have "acquire_view w (?ts ! i) = Ok () \<longrightarrow> 64 dvd bu_base (ht_bytes (?ts ! i)) \<and>
      (\<forall>j < length ?ts. j \<noteq> i \<longrightarrow> ht_arena (?ts ! j) = ArenaAt a \<longrightarrow> acquire_view w (?ts ! j) = Ok () \<longrightarrow>
         separate (region (ht_bytes (?ts ! i))) (region (ht_bytes (?ts ! j))))"
  proof (intro conjI allI impI)
    assume i: "acquire_view w (?ts ! i) = Ok ()"
    note hi = out [OF assms(2,3) i]
    then show "64 dvd bu_base (ht_bytes (?ts ! i))"
      using inv assms(2,3) unfolding arena_inv_def placed_def by (meson nth_mem)
    fix j assume j: "j < length ?ts" "j \<noteq> i" "ht_arena (?ts ! j) = ArenaAt a" "acquire_view w (?ts ! j) = Ok ()"
    note hj = out [OF j(1,3,4)]
    have s: "sorted_wrt (\<lambda>h h'. separate (region (ht_bytes h)) (region (ht_bytes h'))) (filter (handed_out w a) ?ts)"
      using inv by (simp add: arena_inv_def)
    show "separate (region (ht_bytes (?ts ! i))) (region (ht_bytes (?ts ! j)))"
    proof (cases "i < j")
      case True
      from sorted_wrt_filter_nth [OF s True j(1) hi hj] show ?thesis .
    next
      case False
      with j(2) have "j < i" by simp
      from sorted_wrt_filter_nth [OF s this assms(2) hj hi] show ?thesis by (simp add: separate_sym)
    qed
  qed
  moreover have "ht_state (?ts ! i) \<noteq> StatePending \<longrightarrow> ht_epoch (?ts ! i) < ar_epoch (hw_arenas w ! a) \<longrightarrow>
      acquire_view w (?ts ! i) = Err ErrTensorClosed"
    using assms(3) by (simp add: acquire_view_def arena_epoch_of_def)
  ultimately show ?thesis by blast
qed

text \<open>An execution: an arena, a tensor in it, a slice of the tensor, a reset, and another tensor.\<close>

definition pair_shape :: tensor_shape where
  "pair_shape = \<lparr>ts_dims = [2], ts_elements = 2, ts_valid = True\<rparr>"

definition first_arena :: arena where
  "first_arena = \<lparr>ar_storage = \<lparr>bu_base = 64, bu_len = 1000, bu_cap = 1024\<rparr>, ar_offset = 0, ar_epoch = 0\<rparr>"

definition pair_bytes :: buffer where
  "pair_bytes = \<lparr>bu_base = 64, bu_len = 2, bu_cap = 2\<rparr>"

definition pair_tensor :: "nat \<Rightarrow> host_tensor" where
  "pair_tensor e = (new_host_tensor pair_shape Uint8 pair_bytes)\<lparr>ht_arena := ArenaAt 0, ht_epoch := e\<rparr>"

definition pair_slice :: host_tensor where
  "pair_slice = (new_host_tensor pair_shape Uint8 pair_bytes)\<lparr>ht_parent := Some 0\<rparr>"

definition arena_world :: "nat \<Rightarrow> int \<Rightarrow> host_tensor list \<Rightarrow> host_world" where
  "arena_world e off ts = \<lparr>hw_alloc = empty_pools\<lparr>al_shard := 1, al_allocs := 1\<rparr>, hw_memory = (\<lambda>_. 0), hw_tensors = ts,
     hw_arenas = [first_arena\<lparr>ar_offset := off, ar_epoch := e\<rparr>]\<rparr>"

lemma arena_world_start: "host_step (empty_world (\<lambda>_. 0), Map.empty) (arena_world 0 0 [], Map.empty)"
proof (rule arena_made)
  have "slab_class 1000 = Some 4" by (simp add: slab_class_def bits_len.simps)
  then show "new_arena (empty_world (\<lambda>_. 0)) 1000 (Some 64) = (Ok 0, arena_world 0 0 [])"
    by (simp add: new_arena_def empty_world_def allocate_def slab_alloc_def slab_shard_index_simps empty_pools_def
        allocate_aligned_def slice_of_def arena_world_def first_arena_def Let_def)
  show "system_memory (hw_alloc (empty_world (\<lambda>_. 0))) (held (empty_world (\<lambda>_. 0))) 1000 (Some 64)"
    by (simp add: system_memory_def owned_def parked_def held_def owned_bytes_def empty_world_def empty_pools_def)
qed

lemma arena_world_new:
  "host_step (arena_world e 0 ts, g) (arena_world e 2 (ts @ [pair_tensor e]), g)"
proof (rule arena_used [where a = 0])
  have "shape_bytes pair_shape Uint8 = Ok 2"
    by (simp add: pair_shape_def shape_bytes_def bytes_for_def dtype_size_def wrap64_def)
  then show "arena_new (arena_world e 0 ts) 0 pair_shape Uint8 = Some (Ok (length ts), arena_world e 2 (ts @ [pair_tensor e]))"
    by (simp add: arena_new_def is_packed_def allocate_bytes_def arena_world_def first_arena_def wrap64_def go_slice_def
        add_tensor_def pair_tensor_def pair_bytes_def Let_def)
qed (simp add: arena_world_def)

lemma arena_world_slice:
  "host_step (arena_world 0 2 [pair_tensor 0], g) (arena_world 0 2 [pair_tensor 0, pair_slice], g)"
proof (rule sliced [where t = 0 and start = 0 and n = 2])
  have "new_shape [2] = Ok pair_shape" by (simp add: new_shape_def pair_shape_def signed_divide_int_def max_int64_def wrap64_def)
  then show "view_slice (arena_world 0 2 [pair_tensor 0]) 0 0 2 = Some (Ok 1, arena_world 0 2 [pair_tensor 0, pair_slice])"
    by (simp add: view_slice_def arena_world_def pair_tensor_def new_host_tensor_def pair_shape_def dtype_size_def
        wrap64_def pair_bytes_def go_slice_def add_tensor_def pair_slice_def Let_def)
qed (simp add: arena_world_def)

lemma arena_world_reset:
  "host_step (arena_world 0 2 ts, g) (arena_world 1 0 ts, g)"
proof -
  have "host_step (arena_world 0 2 ts, g)
      (scrubbed [ar_storage (hw_arenas (arena_world 0 2 ts) ! 0)] (\<lambda>_. 0) (arena_reset (arena_world 0 2 ts) 0), g)"
    by (rule arena_rewound) (simp add: arena_world_def)
  moreover have "scrubbed [ar_storage (hw_arenas (arena_world 0 2 ts) ! 0)] (\<lambda>_. 0) (arena_reset (arena_world 0 2 ts) 0)
      = arena_world 1 0 ts"
    by (auto simp: scrubbed_def arena_reset_def arena_world_def Let_def fun_eq_iff)
  ultimately show ?thesis by simp
qed

lemma reuse_reachable:
  "host_reachable (arena_world 1 2 [pair_tensor 0, pair_slice, pair_tensor 1], Map.empty)"
proof -
  have "host_step\<^sup>*\<^sup>* (empty_world (\<lambda>_. 0), Map.empty) (arena_world 0 2 [pair_tensor 0, pair_slice], Map.empty)"
    using arena_world_start arena_world_new [of 0 "[]" Map.empty, simplified] arena_world_slice [of Map.empty]
    by (meson converse_rtranclp_into_rtranclp r_into_rtranclp)
  moreover have "host_step (arena_world 0 2 [pair_tensor 0, pair_slice], Map.empty)
      (arena_world 1 0 [pair_tensor 0, pair_slice], Map.empty)" by (rule arena_world_reset)
  moreover have "host_step (arena_world 1 0 [pair_tensor 0, pair_slice], Map.empty)
      (arena_world 1 2 [pair_tensor 0, pair_slice, pair_tensor 1], Map.empty)"
    using arena_world_new [of 1 "[pair_tensor 0, pair_slice]"] by simp
  ultimately have "host_step\<^sup>*\<^sup>* (empty_world (\<lambda>_. 0), Map.empty)
      (arena_world 1 2 [pair_tensor 0, pair_slice, pair_tensor 1], Map.empty)"
    by (rule rtranclp.rtrancl_into_rtrancl [OF rtranclp.rtrancl_into_rtrancl])
  then show ?thesis unfolding host_reachable_def by blast
qed

theorem arena_tensors_disjoint_witness:
  "host_reachable (arena_world 1 2 [pair_tensor 0, pair_slice, pair_tensor 1], Map.empty) \<and>
   acquire_view (arena_world 1 2 [pair_tensor 0, pair_slice, pair_tensor 1]) (pair_tensor 0) = Err ErrTensorClosed \<and>
   64 dvd bu_base (ht_bytes (pair_tensor 1))"
proof -
  let ?w = "arena_world 1 2 [pair_tensor 0, pair_slice, pair_tensor 1]"
  have t: "hw_tensors ?w = [pair_tensor 0, pair_slice, pair_tensor 1]" by (simp add: arena_world_def)
  have "acquire_view ?w (hw_tensors ?w ! 2) = Ok ()"
    by (simp add: arena_world_def acquire_view_def arena_epoch_of_def pair_tensor_def new_host_tensor_def)
  moreover have "ht_arena (hw_tensors ?w ! 2) = ArenaAt 0" "2 < length (hw_tensors ?w)"
    by (simp_all add: arena_world_def pair_tensor_def)
  ultimately have "64 dvd bu_base (ht_bytes (hw_tensors ?w ! 2))"
    using arena_tensors_disjoint [OF reuse_reachable, of 2 0] by blast
  moreover have "ht_arena (hw_tensors ?w ! 0) = ArenaAt 0" "0 < length (hw_tensors ?w)"
    "ht_state (hw_tensors ?w ! 0) \<noteq> StatePending" "ht_epoch (hw_tensors ?w ! 0) < ar_epoch (hw_arenas ?w ! 0)"
    by (simp_all add: arena_world_def pair_tensor_def new_host_tensor_def)
  then have "acquire_view ?w (hw_tensors ?w ! 0) = Err ErrTensorClosed"
    using arena_tensors_disjoint [OF reuse_reachable, of 0 0] by blast
  ultimately show ?thesis using reuse_reachable unfolding t by simp
qed

text \<open>
  The epoch check does not cover views of views: a \<open>Slice\<close> of an arena tensor carries neither
  the arena nor its epoch. After a \<open>Reset\<close> the tensor itself is refused, but its slice is still
  accepted, although the arena has handed the same bytes to a new tensor.
\<close>

theorem slices_survive_reset:
  "\<exists>w g. host_reachable (w, g) \<and> length (hw_tensors w) = 3 \<and> ht_parent (hw_tensors w ! 1) = Some 0 \<and>
     acquire_view w (hw_tensors w ! 0) = Err ErrTensorClosed \<and> acquire_view w (hw_tensors w ! 1) = Ok () \<and>
     acquire_view w (hw_tensors w ! 2) = Ok () \<and>
     region (ht_bytes (hw_tensors w ! 1)) = region (ht_bytes (hw_tensors w ! 2))"
  using reuse_reachable
  by (intro exI [of _ "arena_world 1 2 [pair_tensor 0, pair_slice, pair_tensor 1]"] exI [of _ Map.empty])
    (simp add: arena_world_def acquire_view_def pair_tensor_def pair_slice_def new_host_tensor_def arena_epoch_of_def)

end
