(* ===== verification/Execution_Plan.thy ===== *)
theory Execution_Plan
  imports Graph_Order
begin

text \<open>
  From a compute graph to a parallel schedule: \<open>BuildDAGFromGraph\<close> of \<open>compiler/graph_dag.go\<close> puts
  the graph into dependency order and rebuilds it as a scheduling DAG, \<open>NewExecutionPlan\<close> of
  \<open>runtime/plan.go\<close> layers the DAG and drops the input nodes. A DAG node is paired with its
  operation type. The \<open>producers\<close> map of the code holds exactly the nodes of the DAG so far, under
  their ids. \<open>NormalizeGraph\<close> reorders the graph in place, so it is returned with the DAG.
\<close>

datatype dag_op = OpInput | OpMatmul

type_synonym op_node = "dag_node \<times> dag_op"

datatype plan_error =
    PlanGraphRequired | BuildOrder order_error
  | DuplicateInput string | DuplicateDagNode string | UnknownDagInput string string
  | BuildDag dag_error
  | PlanNameRequired | PlanComputeRequired | PlanVerify dag_error | PlanLayering dag_error

section \<open>The scheduling DAG\<close>

definition dag_op_for_graph_node :: "'v graph_node \<Rightarrow> dag_op" where
  "dag_op_for_graph_node n = (let op = to_lower (trim_space (gn_op n)) in
     if op = ''input'' \<or> op = ''io.input'' then OpInput else OpMatmul)"

definition new_dag_node :: "string \<Rightarrow> dag_node" where
  "new_dag_node s = \<lparr>dn_id = s, dn_inputs = []\<rparr>"

definition dag_ids :: "op_node list \<Rightarrow> string list" where
  "dag_ids d = map (\<lambda>p. dn_id (fst p)) d"

definition add_boundary_input :: "string \<Rightarrow> op_node list \<Rightarrow> (plan_error, op_node list) res" where
  "add_boundary_input i d =
     (if i = [] then Ok d
      else if i \<in> set (dag_ids d) then Err (DuplicateInput i)
      else Ok (d @ [(new_dag_node i, OpInput)]))"

fun connect_inputs :: "string list \<Rightarrow> op_node list \<Rightarrow> dag_node \<Rightarrow> (plan_error, dag_node) res" where
  "connect_inputs [] d x = Ok x"
| "connect_inputs (i # is) d x =
     (if i = [] then connect_inputs is d x
      else if i \<notin> set (dag_ids d) then Err (UnknownDagInput (dn_id x) i)
      else rbind (map_err BuildDag (add_input (Some x) (Some i))) (connect_inputs is d))"

definition add_graph_node_to_dag :: "'v graph_node \<Rightarrow> op_node list \<Rightarrow> (plan_error, op_node list) res" where
  "add_graph_node_to_dag n d =
     (if gn_id n \<in> set (dag_ids d) then Err (DuplicateDagNode (gn_id n))
      else rbind (connect_inputs (gn_inputs n) d (new_dag_node (gn_id n))) (\<lambda>x.
        Ok (d @ [(x, dag_op_for_graph_node n)])))"

definition build_dag_from_graph ::
  "'v ast_graph option \<Rightarrow> (plan_error, op_node list \<times> 'v ast_graph) res" where
  "build_dag_from_graph go = (case go of
     None \<Rightarrow> Err PlanGraphRequired
   | Some g \<Rightarrow>
       rbind (map_err BuildOrder (normalize_graph (Some g))) (\<lambda>g.
       rbind (fold_res add_boundary_input (g_inputs g) []) (\<lambda>d.
       rbind (fold_res add_graph_node_to_dag (g_nodes g) d) (\<lambda>d.
       rbind (map_err BuildDag (verify_graph (Some (map fst d)))) (\<lambda>_. Ok (d, g))))))"

section \<open>The execution plan\<close>

record execution_plan =
  ep_graph :: string
  ep_layers :: "string list list"

definition op_type_of :: "op_node list \<Rightarrow> string \<Rightarrow> dag_op option" where
  "op_type_of d s = map_of (map (\<lambda>(n, op). (dn_id n, op)) d) s"

definition new_execution_plan ::
  "string \<Rightarrow> op_node list option \<Rightarrow> (plan_error, execution_plan) res" where
  "new_execution_plan name compute =
     (if name = [] then Err PlanNameRequired
      else case compute of
          None \<Rightarrow> Err PlanComputeRequired
        | Some d \<Rightarrow>
            rbind (map_err PlanVerify (verify_graph (Some (map fst d)))) (\<lambda>_.
            rbind (map_err PlanLayering (topology_layers (map fst d))) (\<lambda>ls.
            Ok \<lparr>ep_graph = name,
               ep_layers = filter (\<lambda>l. l \<noteq> []) (map (filter (\<lambda>s. op_type_of d s \<noteq> Some OpInput)) ls)\<rparr>)))"

section \<open>DAGs in order\<close>

fun ordered_after :: "string set \<Rightarrow> dag_node list \<Rightarrow> bool" where
  "ordered_after known [] \<longleftrightarrow> True"
| "ordered_after known (n # ns) \<longleftrightarrow> dn_id n \<noteq> [] \<and> dn_id n \<notin> known \<and>
     (\<forall>i \<in> set (dn_inputs n). \<exists>s. i = Some s \<and> s \<noteq> [] \<and> s \<in> known) \<and> ordered_after (insert (dn_id n) known) ns"

abbreviation dag_ordered :: "dag_node list \<Rightarrow> bool" where
  "dag_ordered ns \<equiv> ordered_after {} ns"

lemma ordered_after_append:
  "ordered_after known (us @ vs) \<longleftrightarrow> ordered_after known us \<and> ordered_after (known \<union> dn_id ` set us) vs"
  by (induction us arbitrary: known) (auto simp: insert_is_Un [symmetric] Un_assoc [symmetric])

lemma ordered_after_ids:
  "ordered_after known ns \<Longrightarrow> distinct (map dn_id ns) \<and> [] \<notin> dn_id ` set ns \<and> dn_id ` set ns \<inter> known = {}"
  by (induction ns arbitrary: known) auto

lemma index_nodes_complete:
  "distinct (map dn_id g) \<Longrightarrow> dn_id ` set g \<inter> set seen = {} \<Longrightarrow> [] \<notin> dn_id ` set g \<Longrightarrow> index_nodes seen g = Ok ()"
  by (induction seen g rule: index_nodes.induct) auto

lemma index_inputs_complete:
  "\<forall>i \<in> set is. \<exists>s. i = Some s \<and> s \<noteq> [] \<and> s \<in> known \<Longrightarrow> \<exists>us. index_inputs known n is = Ok us"
  by (induction known n "is" rule: index_inputs.induct) auto

lemma index_users_complete:
  "\<forall>n \<in> set g. \<forall>i \<in> set (dn_inputs n). \<exists>s. i = Some s \<and> s \<noteq> [] \<and> s \<in> known \<Longrightarrow> \<exists>us. index_users known g = Ok us"
proof (induction known g rule: index_users.induct)
  case (2 known n ns)
  then obtain us where us: "index_inputs known n (dn_inputs n) = Ok us"
    using index_inputs_complete [of "dn_inputs n" known n] by auto
  with 2 show ?case by auto
qed simp

lemma dag_ordered_inputs:
  assumes "dag_ordered ns" and "n \<in> set ns" and "i \<in> set (dn_inputs n)"
  shows "\<exists>s. i = Some s \<and> s \<noteq> [] \<and> s \<in> dn_id ` set ns"
proof -
  from assms(2) obtain us vs where split: "ns = us @ n # vs" by (metis split_list)
  with assms(1,3) show ?thesis by (auto simp: ordered_after_append)
qed

lemma dag_ordered_verifies:
  assumes "dag_ordered ns"
  shows "verify_graph (Some ns) = Ok ()"
proof -
  have "index_nodes [] ns = Ok ()" using ordered_after_ids [OF assms] by (intro index_nodes_complete) auto
  moreover obtain us where "index_users (dn_id ` set ns) ns = Ok us"
    using index_users_complete [of ns "dn_id ` set ns"] dag_ordered_inputs [OF assms] by blast
  ultimately show ?thesis by (simp add: verify_graph_def graph_index_def)
qed

text \<open>In an ordered DAG no set of nodes waits for itself, so the layering cannot get stuck.\<close>

lemma dag_ordered_not_stuck:
  assumes "dag_ordered ns" and "S \<subseteq> dn_id ` set ns" and "S \<noteq> {}"
  shows "\<exists>s \<in> S. \<forall>d \<in> S. \<not> depends ns s d"
proof -
  from assms(2,3) have "\<exists>n \<in> set ns. dn_id n \<in> S" by auto
  from split_list_first_prop [OF this] obtain us n vs where
    split: "ns = us @ n # vs" "dn_id n \<in> S" "\<forall>u \<in> set us. dn_id u \<notin> S" by blast
  have "\<not> depends ns (dn_id n) d" if "d \<in> S" for d
  proof
    assume "depends ns (dn_id n) d"
    then obtain m where m: "m \<in> set ns" "dn_id m = dn_id n" "Some d \<in> set (dn_inputs m)" by (auto simp: depends_def)
    have "inj_on dn_id (set ns)" using ordered_after_ids [OF assms(1)] by (simp add: distinct_map)
    moreover have "n \<in> set ns" using split(1) by simp
    ultimately have "m = n" using m(1,2) by (rule_tac inj_onD)
    with m(3) assms(1) split(1) have "d \<in> dn_id ` set us" by (auto simp: ordered_after_append)
    with split(3) that show False by auto
  qed
  with split(2) show ?thesis by blast
qed

lemma dag_ordered_layers:
  assumes "dag_ordered ns"
  shows "\<exists>ls. topology_layers ns = Ok ls"
proof (cases "topology_layers ns")
  case (Inl e)
  have "(\<exists>e. topology_layers ns = Err e) \<longleftrightarrow>
      (\<exists>S. S \<noteq> {} \<and> S \<subseteq> dn_id ` set ns \<and> (\<forall>s \<in> S. \<exists>d \<in> S. depends ns s d))"
    by (rule mp [OF conjunct2 [OF topology_layers_spec [of ns]] dag_ordered_verifies [OF assms]])
  then have "\<exists>S. S \<noteq> {} \<and> S \<subseteq> dn_id ` set ns \<and> (\<forall>s \<in> S. \<exists>d \<in> S. depends ns s d)"
    by (rule iffD1) (rule exI, rule Inl)
  then obtain S where "S \<noteq> {}" "S \<subseteq> dn_id ` set ns" "\<forall>s \<in> S. \<exists>d \<in> S. depends ns s d" by (elim exE conjE)
  from bspec [OF this(3)] dag_ordered_not_stuck [OF assms this(2,1)] have False by blast
  then show ?thesis ..
qed simp

section \<open>What BuildDAGFromGraph builds\<close>

definition named :: "string list \<Rightarrow> string list" where
  "named is = filter (\<lambda>i. i \<noteq> []) is"

definition dag_input :: "string \<Rightarrow> op_node" where
  "dag_input i = (new_dag_node i, OpInput)"

definition to_dag :: "'v graph_node \<Rightarrow> op_node" where
  "to_dag n = (\<lparr>dn_id = gn_id n, dn_inputs = map Some (named (gn_inputs n))\<rparr>, dag_op_for_graph_node n)"

lemma dag_ids_simps [simp]:
  "dag_ids [] = []" "dag_ids (d @ e) = dag_ids d @ dag_ids e" "dag_ids (x # d) = dn_id (fst x) # dag_ids d"
  "dag_ids (map dag_input is) = is" "dag_ids (map to_dag ns) = node_ids ns"
  by (simp_all add: dag_ids_def dag_input_def to_dag_def new_dag_node_def o_def)

lemma boundary_inputs_spec:
  "(\<exists>d'. fold_res add_boundary_input is d = Ok d') \<longleftrightarrow> distinct (named is) \<and> set (named is) \<inter> set (dag_ids d) = {}"
  "fold_res add_boundary_input is d = Ok d' \<Longrightarrow> d' = d @ map dag_input (named is)"
proof (induction "is" arbitrary: d d')
  case (Cons i "is")
  { case 1 show ?case
      using Cons.IH(1) [of "d @ [dag_input i]"] Cons.IH(1) [of d]
      by (auto simp: add_boundary_input_def named_def dag_input_def new_dag_node_def) }
  { case 2 then show ?case
      using Cons.IH(2) [of "d @ [dag_input i]" d'] Cons.IH(2) [of d d']
      by (auto simp: add_boundary_input_def named_def dag_input_def split: if_splits) }
qed (simp_all add: named_def)

lemma connect_inputs_Ok:
  "connect_inputs is d x = Ok y \<longleftrightarrow> (\<forall>i \<in> set (named is). i \<in> set (dag_ids d)) \<and>
     y = x\<lparr>dn_inputs := dn_inputs x @ map Some (named is)\<rparr>"
  by (induction "is" d x rule: connect_inputs.induct) (auto simp: named_def add_input_def)

text \<open>The conditions under which the nodes \<open>ns\<close> can be added after the ids \<open>known\<close>.\<close>

fun connectable :: "string set \<Rightarrow> 'v graph_node list \<Rightarrow> bool" where
  "connectable known [] \<longleftrightarrow> True"
| "connectable known (n # ns) \<longleftrightarrow> gn_id n \<notin> known \<and> set (named (gn_inputs n)) \<subseteq> known \<and>
     connectable (insert (gn_id n) known) ns"

lemma add_graph_node_Ok:
  "add_graph_node_to_dag n d = Ok d' \<longleftrightarrow> gn_id n \<notin> set (dag_ids d) \<and> set (named (gn_inputs n)) \<subseteq> set (dag_ids d) \<and>
     d' = d @ [to_dag n]"
  by (auto simp: add_graph_node_to_dag_def connect_inputs_Ok to_dag_def new_dag_node_def)

lemma add_graph_nodes_Ok:
  "fold_res add_graph_node_to_dag ns d = Ok d' \<longleftrightarrow> connectable (set (dag_ids d)) ns \<and> d' = d @ map to_dag ns"
proof (induction ns arbitrary: d)
  case (Cons n ns)
  have "set (dag_ids (d @ [to_dag n])) = insert (gn_id n) (set (dag_ids d))" by (auto simp: to_dag_def)
  then show ?case using Cons.IH [of "d @ [to_dag n]"] by (auto simp: add_graph_node_Ok)
qed auto

lemma connectable_ordered:
  "connectable known ns \<Longrightarrow> [] \<notin> gn_id ` set ns \<Longrightarrow> ordered_after known (map (\<lambda>n. fst (to_dag n)) ns)"
  by (induction known ns rule: connectable.induct) (auto simp: to_dag_def named_def)

lemma inputs_ordered: "distinct is \<Longrightarrow> [] \<notin> set is \<Longrightarrow> set is \<inter> known = {} \<Longrightarrow> ordered_after known (map (\<lambda>i. fst (dag_input i)) is)"
  by (induction "is" arbitrary: known) (auto simp: dag_input_def new_dag_node_def)

text \<open>The graphs that can be scheduled.\<close>

definition schedulable :: "'v ast_graph \<Rightarrow> bool" where
  "schedulable g \<longleftrightarrow> graph_valid g \<and>
     \<not> (\<exists>S. S \<subseteq> gn_id ` set (g_nodes g) \<and> cyclic_set (graph_deps (boundary_input_set g) (g_nodes g)) S) \<and>
     distinct (named (g_inputs g)) \<and> set (named (g_inputs g)) \<inter> gn_id ` set (g_nodes g) = {}"

lemma boundary_named: "boundary_input_set g = set (named (g_inputs g))"
  by (simp add: boundary_input_set_def named_def)

lemma normalize_graph_facts:
  assumes "normalize_graph (Some g) = Ok g'"
  shows "mset (g_nodes g') = mset (g_nodes g)" "g_inputs g' = g_inputs g" "distinct (node_ids (g_nodes g'))"
    "[] \<notin> gn_id ` set (g_nodes g')"
    "g_nodes g' = us @ n # vs \<Longrightarrow> i \<in> set (named (gn_inputs n)) \<Longrightarrow> i \<in> set (named (g_inputs g)) \<union> gn_id ` set us"
proof -
  have h: "mset (g_nodes g') = mset (g_nodes g) \<and> g' = g\<lparr>g_nodes := g_nodes g'\<rparr>
      \<and> distinct (node_ids (g_nodes g')) \<and> [] \<notin> gn_id ` set (g_nodes g')
      \<and> (\<forall>us n vs. g_nodes g' = us @ n # vs \<longrightarrow> (\<forall>i \<in> set (gn_inputs n).
            i = [] \<or> i \<in> boundary_input_set g \<or> i \<in> gn_id ` set us))"
    using mp [OF spec [OF conjunct1 [OF normalize_graph_spec [of g]], of g'] assms] .
  then have "g_inputs g' = g_inputs (g\<lparr>g_nodes := g_nodes g'\<rparr>)" by metis
  then show "g_inputs g' = g_inputs g" by simp
  from h show "mset (g_nodes g') = mset (g_nodes g)" "distinct (node_ids (g_nodes g'))" "[] \<notin> gn_id ` set (g_nodes g')"
    by simp_all
  have "\<forall>us n vs. g_nodes g' = us @ n # vs \<longrightarrow> (\<forall>i \<in> set (gn_inputs n).
      i = [] \<or> i \<in> set (named (g_inputs g)) \<or> i \<in> gn_id ` set us)"
    using h unfolding boundary_named by (elim conjE)
  then show "g_nodes g' = us @ n # vs \<Longrightarrow> i \<in> set (named (gn_inputs n)) \<Longrightarrow> i \<in> set (named (g_inputs g)) \<union> gn_id ` set us"
    unfolding named_def set_filter by blast
qed

lemma normalize_graph_Ok_iff:
  "(\<exists>g'. normalize_graph (Some g) = Ok g') \<longleftrightarrow> graph_valid g \<and>
     \<not> (\<exists>S. S \<subseteq> gn_id ` set (g_nodes g) \<and> cyclic_set (graph_deps (boundary_input_set g) (g_nodes g)) S)"
proof (cases "graph_valid g")
  case True
  note h = mp [OF conjunct2 [OF normalize_graph_spec [of g]] True]
  show ?thesis
  proof (cases "normalize_graph (Some g)")
    case (Inl e)
    with conjunct2 [OF h] have "normalize_graph (Some g) = Err GraphCycle" by simp
    with conjunct1 [OF h] True show ?thesis by simp
  next
    case (Inr g')
    with conjunct1 [OF h] True show ?thesis by simp
  qed
next
  case False
  then show ?thesis by (auto simp: graph_valid_def normalize_graph_def)
qed

lemma ordered_connectable:
  "distinct (node_ids (us @ ns)) \<Longrightarrow> known \<inter> gn_id ` set (us @ ns) = {} \<Longrightarrow>
    (\<And>vs n ws i. ns = vs @ n # ws \<Longrightarrow> i \<in> set (named (gn_inputs n)) \<Longrightarrow> i \<in> known \<union> gn_id ` set (us @ vs)) \<Longrightarrow>
    connectable (known \<union> gn_id ` set us) ns"
proof (induction ns arbitrary: us)
  case (Cons n ns)
  have "connectable (known \<union> gn_id ` set (us @ [n])) ns"
  proof (rule Cons.IH)
    fix vs m ws i assume "ns = vs @ m # ws" "i \<in> set (named (gn_inputs m))"
    with Cons.prems(3) [of "n # vs" m ws i] show "i \<in> known \<union> gn_id ` set ((us @ [n]) @ vs)" by auto
  qed (use Cons.prems(1,2) in auto)
  moreover have "set (named (gn_inputs n)) \<subseteq> known \<union> gn_id ` set us"
    using Cons.prems(3) [of "[]" n ns] by auto
  ultimately show ?case using Cons.prems(1,2) by auto
qed simp

lemma connectable_fresh: "connectable known ns \<Longrightarrow> known \<inter> gn_id ` set ns = {}"
  by (induction known ns rule: connectable.induct) auto

lemma build_dag_spec:
  "(\<exists>r. build_dag_from_graph (Some g) = Ok r) \<longleftrightarrow> schedulable g"
  "build_dag_from_graph (Some g) = Ok (d, g') \<Longrightarrow> dag_ordered (map fst d) \<and> normalize_graph (Some g) = Ok g' \<and>
     d = map dag_input (named (g_inputs g)) @ map to_dag (g_nodes g')"
proof -
  have run: "dag_ordered (map fst (map dag_input (named (g_inputs g)) @ map to_dag (g_nodes g')))"
    if "normalize_graph (Some g) = Ok g'" "distinct (named (g_inputs g))" "connectable (set (named (g_inputs g))) (g_nodes g')" for g'
  proof -
    have "ordered_after {} (map (\<lambda>i. fst (dag_input i)) (named (g_inputs g)))"
      using that(2) by (intro inputs_ordered) (simp_all add: named_def)
    moreover have "ordered_after (set (named (g_inputs g))) (map (\<lambda>n. fst (to_dag n)) (g_nodes g'))"
      using connectable_ordered [OF that(3)] normalize_graph_facts(4) [OF that(1)] by simp
    moreover have "dn_id ` set (map (\<lambda>i. fst (dag_input i)) (named (g_inputs g))) = set (named (g_inputs g))"
      by (simp add: dag_input_def new_dag_node_def image_image)
    ultimately show ?thesis by (simp add: ordered_after_append o_def)
  qed
  show 2: "build_dag_from_graph (Some g) = Ok (d, g') \<Longrightarrow> dag_ordered (map fst d) \<and> normalize_graph (Some g) = Ok g' \<and>
     d = map dag_input (named (g_inputs g)) @ map to_dag (g_nodes g')"
  proof -
    assume "build_dag_from_graph (Some g) = Ok (d, g')"
    then obtain d0 where g': "normalize_graph (Some g) = Ok g'" and d0: "fold_res add_boundary_input (g_inputs g') [] = Ok d0"
      and d: "fold_res add_graph_node_to_dag (g_nodes g') d0 = Ok d"
      by (auto simp: build_dag_from_graph_def)
    have "g_inputs g' = g_inputs g" by (rule normalize_graph_facts(2) [OF g'])
    with d0 boundary_inputs_spec(2) [OF d0] boundary_inputs_spec(1) [of "g_inputs g'" "[]"]
    have d0': "d0 = map dag_input (named (g_inputs g))" "distinct (named (g_inputs g))" by auto
    with d have "connectable (set (named (g_inputs g))) (g_nodes g')" "d = d0 @ map to_dag (g_nodes g')"
      by (simp_all add: add_graph_nodes_Ok)
    with run [OF g' d0'(2)] g' d0' show ?thesis by simp
  qed
  show "(\<exists>r. build_dag_from_graph (Some g) = Ok r) \<longleftrightarrow> schedulable g"
  proof
    assume "\<exists>r. build_dag_from_graph (Some g) = Ok r"
    then obtain d g' where b: "build_dag_from_graph (Some g) = Ok (d, g')" by auto
    then obtain d0 where g': "normalize_graph (Some g) = Ok g'" and d0: "fold_res add_boundary_input (g_inputs g') [] = Ok d0"
      and d: "fold_res add_graph_node_to_dag (g_nodes g') d0 = Ok d"
      by (auto simp: build_dag_from_graph_def)
    note f = normalize_graph_facts [OF g']
    have dist: "distinct (named (g_inputs g))" using d0 boundary_inputs_spec(1) [of "g_inputs g'" "[]"] f(2) by auto
    have "connectable (set (named (g_inputs g))) (g_nodes g')"
      using d boundary_inputs_spec(2) [OF d0] f(2) by (simp add: add_graph_nodes_Ok)
    from connectable_fresh [OF this] have "set (named (g_inputs g)) \<inter> gn_id ` set (g_nodes g) = {}"
      using f(1) by (metis mset_eq_setD)
    with dist g' normalize_graph_Ok_iff [of g] show "schedulable g" by (auto simp: schedulable_def)
  next
    assume s: "schedulable g"
    then have "\<exists>g'. normalize_graph (Some g) = Ok g'" using normalize_graph_Ok_iff [of g] by (simp add: schedulable_def)
    then obtain g' where g': "normalize_graph (Some g) = Ok g'" ..
    note f = normalize_graph_facts [OF g']
    have dist: "distinct (named (g_inputs g))" using s by (simp add: schedulable_def)
    have "gn_id ` set (g_nodes g') = gn_id ` set (g_nodes g)" using f(1) by (metis mset_eq_setD)
    with s f(3,5) have con: "connectable (set (named (g_inputs g))) (g_nodes g')"
      using ordered_connectable [of "[]" "g_nodes g'" "set (named (g_inputs g))"] by (auto simp: schedulable_def)
    obtain d0 where d0: "fold_res add_boundary_input (g_inputs g') [] = Ok d0"
      using boundary_inputs_spec(1) [of "g_inputs g'" "[]"] dist f(2) by auto
    have d0': "d0 = map dag_input (named (g_inputs g))" using boundary_inputs_spec(2) [OF d0] f(2) by simp
    have "verify_graph (Some (map fst (d0 @ map to_dag (g_nodes g')))) = Ok ()"
      using dag_ordered_verifies [OF run [OF g' dist con]] d0' by simp
    moreover have "fold_res add_graph_node_to_dag (g_nodes g') d0 = Ok (d0 @ map to_dag (g_nodes g'))"
      using con d0' by (simp add: add_graph_nodes_Ok)
    ultimately show "\<exists>r. build_dag_from_graph (Some g) = Ok r" using g' d0 by (simp add: build_dag_from_graph_def)
  qed
qed

section \<open>What the plan promises\<close>

definition plan_respects :: "'v ast_graph \<Rightarrow> string list list \<Rightarrow> bool" where
  "plan_respects g ls \<longleftrightarrow> distinct (concat ls) \<and> [] \<notin> set ls \<and>
     set (concat ls) = gn_id ` {n \<in> set (g_nodes g). dag_op_for_graph_node n \<noteq> OpInput} \<and>
     (\<forall>us l vs. ls = us @ l # vs \<longrightarrow> (\<forall>n \<in> set (g_nodes g). gn_id n \<in> set l \<longrightarrow>
        (\<forall>i \<in> set (gn_inputs n). i \<in> set (concat ls) \<longrightarrow> i \<in> set (concat us))))"

lemma filter_map_split:
  "filter Q (map f xs) = us @ y # vs \<Longrightarrow> \<exists>as a bs. xs = as @ a # bs \<and> us = filter Q (map f as) \<and> y = f a"
proof (induction xs arbitrary: us)
  case (Cons x xs)
  show ?case
  proof (cases "Q (f x)")
    case True
    show ?thesis
    proof (cases us)
      case Nil
      with Cons.prems True show ?thesis by (intro exI [of _ "[]"] exI [of _ x] exI [of _ xs]) simp
    next
      case (Cons u us')
      with Cons.prems True Cons.IH [of us'] obtain as a bs where "xs = as @ a # bs" "us' = filter Q (map f as)" "y = f a"
        by auto
      with True Cons Cons.prems show ?thesis by (intro exI [of _ "x # as"] exI [of _ a] exI [of _ bs]) simp
    qed
  next
    case False
    with Cons.prems Cons.IH [of us] obtain as a bs where "xs = as @ a # bs" "us = filter Q (map f as)" "y = f a" by auto
    with False show ?thesis by (intro exI [of _ "x # as"] exI [of _ a] exI [of _ bs]) simp
  qed
qed simp

lemma concat_filter_nonempty: "concat (filter (\<lambda>l. l \<noteq> []) ls) = concat ls"
  by (induction ls) auto

lemma concat_map_filter: "concat (map (filter P) ls) = filter P (concat ls)"
  by (simp add: filter_concat)

lemma layers_before:
  assumes "topology_layers g = Ok ls" and "ls = as @ a # bs" and "s \<in> set a" and "depends g s d"
  shows "d \<in> set (concat as)"
proof -
  have "\<forall>k < length ls. ls ! k \<noteq> [] \<and> (\<forall>s. s \<in> set (ls ! k) \<longleftrightarrow> s \<in> dn_id ` set g \<and> s \<notin> set (concat (take k ls))
        \<and> (\<forall>d. depends g s d \<longrightarrow> d \<in> set (concat (take k ls))))"
    using mp [OF spec [OF conjunct1 [OF topology_layers_spec [of g]], of ls] assms(1)] by (elim conjE)
  from spec [OF this, of "length as"] assms(2-4) show ?thesis by simp
qed

lemma layers_all:
  assumes "topology_layers g = Ok ls"
  shows "distinct (concat ls)" "set (concat ls) = dn_id ` set g"
  using mp [OF spec [OF conjunct1 [OF topology_layers_spec [of g]], of ls] assms] by simp_all

lemma op_type_of_built:
  assumes "distinct (dag_ids d)" and "(x, op) \<in> set d"
  shows "op_type_of d (dn_id x) = Some op"
proof -
  have "map fst (map (\<lambda>(n, op). (dn_id n, op)) d) = dag_ids d" by (simp add: dag_ids_def split_def o_def)
  moreover have "(dn_id x, op) \<in> set (map (\<lambda>(n, op). (dn_id n, op)) d)" using assms(2) by force
  ultimately show ?thesis unfolding op_type_of_def using assms(1) by (metis map_of_is_SomeI)
qed

lemma plan_of_built_dag:
  assumes b: "build_dag_from_graph (Some g) = Ok (d, g')" and "name \<noteq> []"
  shows "\<exists>ls. new_execution_plan name (Some d) = Ok \<lparr>ep_graph = name, ep_layers = ls\<rparr> \<and> plan_respects g ls"
proof -
  let ?ns = "map fst d" and ?P = "\<lambda>s. op_type_of d s \<noteq> Some OpInput"
  note built = build_dag_spec(2) [OF b]
  note ord = conjunct1 [OF built] and g' = conjunct1 [OF conjunct2 [OF built]] and d = conjunct2 [OF conjunct2 [OF built]]
  from dag_ordered_layers [OF ord] obtain ls0 where ls0: "topology_layers ?ns = Ok ls0" ..
  define ls where "ls = filter (\<lambda>l. l \<noteq> []) (map (filter ?P) ls0)"
  have run: "new_execution_plan name (Some d) = Ok \<lparr>ep_graph = name, ep_layers = ls\<rparr>"
    using assms(2) dag_ordered_verifies [OF ord] ls0 by (simp add: new_execution_plan_def ls_def)
  have ids: "dag_ids d = map dn_id ?ns" by (simp add: dag_ids_def)
  have dist: "distinct (dag_ids d)" unfolding ids using ordered_after_ids [OF ord] by simp
  have sub: "set (g_nodes g') = set (g_nodes g)" using normalize_graph_facts(1) [OF g'] by (metis mset_eq_setD)
  have op_in: "op_type_of d i = Some OpInput" if "i \<in> set (named (g_inputs g))" for i
  proof -
    have "(new_dag_node i, OpInput) \<in> set d" using that d by (auto simp: dag_input_def)
    from op_type_of_built [OF dist this] show ?thesis by (simp add: new_dag_node_def)
  qed
  have op_node: "op_type_of d (gn_id n) = Some (dag_op_for_graph_node n)" if "n \<in> set (g_nodes g)" for n
  proof -
    have "to_dag n \<in> set d" using that d sub by auto
    then have "(fst (to_dag n), dag_op_for_graph_node n) \<in> set d" by (simp add: to_dag_def)
    from op_type_of_built [OF dist this] show ?thesis by (simp add: to_dag_def)
  qed
  have cat: "concat ls = filter ?P (concat ls0)"
    by (simp only: ls_def concat_filter_nonempty concat_map_filter)
  have "dn_id ` set ?ns = set (named (g_inputs g)) \<union> gn_id ` set (g_nodes g)"
    using sub d by (auto simp: dag_input_def to_dag_def new_dag_node_def image_image image_Un)
  then have all: "set (concat ls0) = set (named (g_inputs g)) \<union> gn_id ` set (g_nodes g)"
    using layers_all(2) [OF ls0] by simp
  have set_ls: "set (concat ls) = gn_id ` {n \<in> set (g_nodes g). dag_op_for_graph_node n \<noteq> OpInput}"
  proof
    show "set (concat ls) \<subseteq> gn_id ` {n \<in> set (g_nodes g). dag_op_for_graph_node n \<noteq> OpInput}"
    proof
      fix s assume "s \<in> set (concat ls)"
      then have "s \<in> set (concat ls0)" "?P s" unfolding cat by simp_all
      with all op_in obtain n where "n \<in> set (g_nodes g)" "s = gn_id n" by auto
      with \<open>?P s\<close> op_node [of n] show "s \<in> gn_id ` {n \<in> set (g_nodes g). dag_op_for_graph_node n \<noteq> OpInput}" by simp
    qed
    show "gn_id ` {n \<in> set (g_nodes g). dag_op_for_graph_node n \<noteq> OpInput} \<subseteq> set (concat ls)"
    proof
      fix s assume "s \<in> gn_id ` {n \<in> set (g_nodes g). dag_op_for_graph_node n \<noteq> OpInput}"
      then obtain n where "n \<in> set (g_nodes g)" "dag_op_for_graph_node n \<noteq> OpInput" "s = gn_id n" by auto
      with op_node [of n] all show "s \<in> set (concat ls)" unfolding cat by simp
    qed
  qed
  have "plan_respects g ls"
    unfolding plan_respects_def
  proof (intro conjI allI impI ballI)
    show "distinct (concat ls)" unfolding cat using layers_all(1) [OF ls0] by simp
    show "[] \<notin> set ls" by (simp add: ls_def)
    show "set (concat ls) = gn_id ` {n \<in> set (g_nodes g). dag_op_for_graph_node n \<noteq> OpInput}" by (rule set_ls)
    fix us l vs n i
    assume split: "ls = us @ l # vs" and n: "n \<in> set (g_nodes g)" "gn_id n \<in> set l"
      and i: "i \<in> set (gn_inputs n)" "i \<in> set (concat ls)"
    from filter_map_split [OF split [unfolded ls_def]] obtain as a bs where
      s: "ls0 = as @ a # bs" "us = filter (\<lambda>l. l \<noteq> []) (map (filter ?P) as)" "l = filter ?P a" by blast
    have "i \<noteq> []" using i(2) set_ls normalize_graph_facts(4) [OF g'] sub by auto
    then have "i \<in> set (named (gn_inputs n))" using i(1) by (simp add: named_def)
    then have "depends ?ns (gn_id n) i"
      unfolding depends_def using n(1) d sub by (intro bexI [of _ "fst (to_dag n)"]) (auto simp: to_dag_def)
    moreover have "gn_id n \<in> set a" using n(2) s(3) by simp
    ultimately have "i \<in> set (concat as)" using layers_before [OF ls0 s(1)] by blast
    moreover have "?P i" using i(2) unfolding cat by simp
    ultimately show "i \<in> set (concat us)" unfolding s(2) concat_filter_nonempty concat_map_filter by simp
  qed
  with run show ?thesis by blast
qed

text \<open>
  C23. From graph to schedule. \<open>BuildDAGFromGraph\<close> succeeds exactly on the graphs that pass the
  integrity checks, have no dependency cycle, and name no boundary input twice or like a node. And
  then \<open>NewExecutionPlan\<close> succeeds on its result under every name: the plan runs every node other
  than an input exactly once, has no empty layer, and runs the producers of a node's inputs in
  earlier layers than the node.
\<close>

theorem graph_to_plan:
  "((\<exists>r. build_dag_from_graph (Some g) = Ok r) \<longleftrightarrow> schedulable g) \<and>
   (\<forall>d g' name. build_dag_from_graph (Some g) = Ok (d, g') \<longrightarrow> name \<noteq> [] \<longrightarrow>
      (\<exists>ls. new_execution_plan name (Some d) = Ok \<lparr>ep_graph = name, ep_layers = ls\<rparr> \<and> plan_respects g ls))"
  using build_dag_spec(1) [of g] plan_of_built_dag by blast

definition small_node :: "string \<Rightarrow> string \<Rightarrow> string list \<Rightarrow> int graph_node" where
  "small_node s op is = \<lparr>gn_id = s, gn_op = op, gn_inputs = is, gn_attrs = Map.empty, gn_meta = Map.empty,
     gn_input_types = [], gn_output_type = \<lparr>pt_dtype = DInvalid, pt_shape = [], pt_layout = LayoutUnspecified,
       pt_kind = [], pt_constraints = []\<rparr>,
     gn_value = zero_value_type, gn_weights = None\<rparr>"

definition small_graph :: "int ast_graph" where
  "small_graph = \<lparr>g_nodes = [small_node ''y'' ''math.add'' [''a'', ''b''], small_node ''a'' ''math.neg'' [''x''],
       small_node ''b'' ''math.exp'' [''x''], small_node ''mask'' '' IO.Input '' []],
     g_inputs = [''x''], g_outputs = [(''out'', ''y'')], g_dtype = Float32, g_bindings = Map.empty\<rparr>"

theorem graph_to_plan_witness:
  "\<exists>d g' ls. build_dag_from_graph (Some small_graph) = Ok (d, g') \<and>
     new_execution_plan ''main'' (Some d) = Ok \<lparr>ep_graph = ''main'', ep_layers = ls\<rparr> \<and>
     plan_respects small_graph ls \<and> schedulable small_graph"
proof -
  have "(case build_dag_from_graph (Some small_graph) of Inl _ \<Rightarrow> False | Inr _ \<Rightarrow> True)" by code_simp
  then obtain d g' where "build_dag_from_graph (Some small_graph) = Ok (d, g')"
    by (cases "build_dag_from_graph (Some small_graph)") auto
  with graph_to_plan [of small_graph] show ?thesis by fastforce
qed

end
