(* ===== verification/Go_Text.thy ===== *)
theory Go_Text
  imports Go_Prelude
begin

text \<open>
  Decimal integers in text: \<open>strconv.ParseInt (s, 10, 64)\<close>, which on the supported targets is also
  \<open>strconv.Atoi\<close>. An optional sign, one digit or more, and a value in the range of \<open>int64\<close>; anything
  else is an error. \<open>show_int\<close> of the prelude is \<open>strconv.Itoa\<close>.
\<close>

definition digit_value :: "char \<Rightarrow> int option" where
  "digit_value c = (let n = of_char c :: nat in
     if 48 \<le> n \<and> n \<le> 57 then Some (int n - 48) else None)"

fun digits_value :: "int \<Rightarrow> string \<Rightarrow> int option" where
  "digits_value acc [] = Some acc"
| "digits_value acc (c # cs) = (case digit_value c of
     None \<Rightarrow> None | Some d \<Rightarrow> digits_value (acc * 10 + d) cs)"

definition parse_unsigned :: "string \<Rightarrow> int option" where
  "parse_unsigned s = (if s = [] then None else digits_value 0 s)"

definition check_int64 :: "int \<Rightarrow> int option" where
  "check_int64 i = (if in64 i then Some i else None)"

definition parse_int64 :: "string \<Rightarrow> int option" where
  "parse_int64 s = (case s of
     [] \<Rightarrow> None
   | c # cs \<Rightarrow>
       if c = CHR ''-'' then Option.bind (parse_unsigned cs) (\<lambda>i. check_int64 (- i))
       else if c = CHR ''+'' then Option.bind (parse_unsigned cs) check_int64
       else Option.bind (parse_unsigned s) check_int64)"

section \<open>Reading back a rendered integer\<close>

lemma digits_value_append:
  "digits_value acc (s @ t) = Option.bind (digits_value acc s) (\<lambda>a. digits_value a t)"
  by (induction s arbitrary: acc) (auto split: option.splits)

lemma digit_value_digit_char: "d < 10 \<Longrightarrow> digit_value (digit_char d) = Some (int d)"
  by (simp add: digit_value_def digit_char_def)

lemma digits_value_show_nat: "digits_value 0 (show_nat n) = Some (int n)"
proof (induction n rule: show_nat.induct)
  case (1 n)
  show ?case
  proof (cases "n < 10")
    case True
    then show ?thesis by (simp add: show_nat.simps [of n] digit_value_digit_char)
  next
    case False
    then have "digits_value 0 (show_nat n) = digits_value (int (n div 10)) [digit_char (n mod 10)]"
      using "1.IH" by (simp add: show_nat.simps [of n] digits_value_append)
    also have "\<dots> = Some (int (n div 10) * 10 + int (n mod 10))"
      by (simp add: digit_value_digit_char)
    also have "int (n div 10) * 10 + int (n mod 10) = int n"
      by (metis div_mult_mod_eq of_nat_add of_nat_mult of_nat_numeral)
    finally show ?thesis .
  qed
qed

lemma parse_int64_show_int: "in64 i \<Longrightarrow> parse_int64 (show_int i) = Some i"
proof (cases "i < 0")
  case True
  assume "in64 i"
  with True show ?thesis
    by (simp add: show_int_def parse_int64_def parse_unsigned_def show_nat_nonempty
        digits_value_show_nat check_int64_def)
next
  case False
  assume r: "in64 i"
  obtain c cs where s: "show_nat (nat i) = c # cs" using show_nat_nonempty [of "nat i"] by (cases "show_nat (nat i)") auto
  have "c \<in> set ''0123456789''" using show_nat_digits [of "nat i"] s by auto
  then have "c \<noteq> CHR ''-''" "c \<noteq> CHR ''+''" by auto
  with False r s show ?thesis using digits_value_show_nat [of "nat i"]
    by (simp add: show_int_def parse_int64_def parse_unsigned_def check_int64_def)
qed

lemma digits_not_space: "list_all (\<lambda>c. \<not> is_space c) ''-0123456789''"
  by code_simp

lemma show_int_not_space: "c \<in> set (show_int i) \<Longrightarrow> \<not> is_space c"
  by (rule bspec [OF digits_not_space [unfolded list_all_iff] show_int_digits])

lemma trim_space_id: "\<forall>c \<in> set s. \<not> is_space c \<Longrightarrow> trim_space s = s"
  by (simp add: trim_space_def dropWhile_eq_self_iff) (metis dropWhile_eq_self_iff hd_in_set rev_rev_ident set_rev)

end
