(* ===== verification/Typer_Derivers.thy ===== *)
theory Typer_Derivers
  imports Ast_Graph Go_Text
begin

text \<open>
  The output derivers of the typer (\<open>typer/deriver_core.go\<close>, \<open>deriver_shape.go\<close>,
  \<open>deriver_adaptor.go\<close>, \<open>deriver_convolution.go\<close> with \<open>deriver_helpers.go\<close>): from a node, the types
  bound to its inputs and the symbol map, the type of its output. Only the norm derivers write to the
  symbol map, so only they return one. \<open>tr\<close> is Go's conversion of a float to \<open>int64\<close>, the one operation
  on scalars that the derivers need. A map with no entry stands for a nil attribute map too.
\<close>

abbreviation (input) SemanticHiddenState :: semantic_kind where "SemanticHiddenState \<equiv> ''HiddenState''"
abbreviation (input) SemanticEmbedding :: semantic_kind where "SemanticEmbedding \<equiv> ''Embedding''"
abbreviation (input) SemanticTokenIndex :: semantic_kind where "SemanticTokenIndex \<equiv> ''TokenIndex''"

datatype deriver_error =
    SymbolUnbound string | SymbolRebound string int int
  | NoInputs string | WrongInputCount string | RankTooLow string | WrongRank string
  | MissingConfig string string | RankDiffers string | DimDiffers string nat
  | ModulationTooNarrow int int | NotEvenWidth int | HeadsDoNotDivide int int
  | AxisOfScalar | AxisOutOfRange int nat | SliceOutOfRange int int nat int
  | UnsupportedShapeValue | EmptyDimension | ElementCounts int int
  | NonPositiveKernel string | NonPositiveStride string | NonPositiveDilation string
  | NonPositiveOutput string | InOperand string deriver_error

section \<open>Helpers\<close>

definition dimension_int :: "dimension \<Rightarrow> symbol_map \<Rightarrow> (deriver_error, int) res" where
  "dimension_int d b =
     (if \<not> is_symbolic d then Ok (dstatic d)
      else case b (dsym d) of None \<Rightarrow> Err (SymbolUnbound (dsym d)) | Some v \<Rightarrow> Ok v)"

definition bind_norm_symbol :: "symbol_map \<Rightarrow> string \<Rightarrow> int \<Rightarrow> (deriver_error, symbol_map) res" where
  "bind_norm_symbol b s v =
     (if s = [] \<or> v = 0 then Ok b
      else case b s of
          Some existing \<Rightarrow> if existing \<noteq> v then Err (SymbolRebound s existing v) else Ok (b(s \<mapsto> v))
        | None \<Rightarrow> Ok (b(s \<mapsto> v)))"

definition bound_weight_dim :: "'v graph_node \<Rightarrow> int \<Rightarrow> int" where
  "bound_weight_dim n i = (case gn_weights n of
     None \<Rightarrow> 0
   | Some w \<Rightarrow> if i < 0 \<or> i \<ge> int (length (bw_shape w)) then 0 else bw_shape w ! nat i)"

definition bound_weight_dtype :: "'v graph_node \<Rightarrow> dtype" where
  "bound_weight_dtype n = (case gn_weights n of
     None \<Rightarrow> Float32 | Some w \<Rightarrow> if bw_dtype w = DInvalid then Float32 else bw_dtype w)"

definition node_activation_dtype :: "'v graph_node \<Rightarrow> dtype" where
  "node_activation_dtype n = (if is_float (vt_dtype (gn_value n)) then vt_dtype (gn_value n) else Float32)"

definition config_int64 :: "('v \<Rightarrow> int) \<Rightarrow> 'v graph_node \<Rightarrow> string \<Rightarrow> int" where
  "config_int64 tr n key = (case gn_attrs n key of
     Some (AInt i) \<Rightarrow> i | Some (AInt32 i) \<Rightarrow> i | Some (AInt64 i) \<Rightarrow> i
   | Some (AUint i) \<Rightarrow> wrap64 i | Some (AUint32 i) \<Rightarrow> i | Some (AUint64 i) \<Rightarrow> wrap64 i
   | Some (AFloat32 v) \<Rightarrow> tr v | Some (AFloat64 v) \<Rightarrow> tr v
   | _ \<Rightarrow> 0)"

definition dimensions_match :: "dimension \<Rightarrow> dimension \<Rightarrow> symbol_map \<Rightarrow> bool" where
  "dimensions_match l r b = (case (dimension_int l b, dimension_int r b) of
     (Inr x, Inr y) \<Rightarrow> x = y | _ \<Rightarrow> l = r)"

definition canonical_axis :: "int \<Rightarrow> nat \<Rightarrow> (deriver_error, nat) res" where
  "canonical_axis axis rank =
     (if rank = 0 then Err AxisOfScalar
      else let a = (if axis < 0 then axis + int rank else axis) in
        if a < 0 \<or> a \<ge> int rank then Err (AxisOutOfRange a rank) else Ok (nat a))"

definition concat_axis_dimension :: "dimension \<Rightarrow> dimension \<Rightarrow> symbol_map \<Rightarrow> (deriver_error, int) res" where
  "concat_axis_dimension l r b =
     rbind (dimension_int l b) (\<lambda>x. rbind (dimension_int r b) (\<lambda>y. Ok (wrap64 (x + y))))"

definition first_input :: "string \<Rightarrow> port_type list \<Rightarrow> (deriver_error, port_type) res" where
  "first_input op ins = (case ins of [] \<Rightarrow> Err (WrongInputCount op) | t # _ \<Rightarrow> Ok t)"

section \<open>Core operations\<close>

definition derive_same_as_first_input ::
  "semantic_kind \<Rightarrow> 'v graph_node \<Rightarrow> port_type list \<Rightarrow> symbol_map \<Rightarrow> (deriver_error, port_type) res" where
  "derive_same_as_first_input kind n ins b = (case ins of
     [] \<Rightarrow> Err (NoInputs (gn_op n))
   | t # _ \<Rightarrow> Ok (if kind \<noteq> SemanticGeneric then t\<lparr>pt_kind := kind\<rparr> else t))"

definition derive_embedding_output ::
  "('v \<Rightarrow> int) \<Rightarrow> 'v graph_node \<Rightarrow> port_type list \<Rightarrow> symbol_map \<Rightarrow> (deriver_error, port_type) res" where
  "derive_embedding_output tr n ins b =
     rbind (first_input ''embedding.token'' ins) (\<lambda>t.
     let h = config_int64 tr n ''d_model'';
         h = (if h = 0 then config_int64 tr n ''hidden_size'' else h);
         h = (if h = 0 then bound_weight_dim n 1 else h);
         h = (if h = 0 then lookup0 b ''D'' else h);
         hidden = (if h \<noteq> 0 then new_static_dimension h else new_symbolic_dimension ''D'')
     in Ok \<lparr>pt_dtype = bound_weight_dtype n, pt_shape = pt_shape t @ [hidden],
            pt_layout = LayoutContiguous, pt_kind = SemanticHiddenState, pt_constraints = []\<rparr>)"

definition derive_timestep_embedding_output ::
  "('v \<Rightarrow> int) \<Rightarrow> 'v graph_node \<Rightarrow> port_type list \<Rightarrow> symbol_map \<Rightarrow> (deriver_error, port_type) res" where
  "derive_timestep_embedding_output tr n ins b =
     rbind (first_input ''embedding.timestep'' ins) (\<lambda>t.
     let dim = config_int64 tr n ''dim'' in
     if dim \<le> 0 then Err (MissingConfig (gn_id n) ''dim'')
     else Ok \<lparr>pt_dtype = node_activation_dtype n, pt_shape = pt_shape t @ [new_static_dimension dim],
              pt_layout = LayoutContiguous, pt_kind = SemanticHiddenState, pt_constraints = []\<rparr>)"

definition bind_norm_symbols :: "dimension list \<Rightarrow> symbol_map \<Rightarrow> (deriver_error, symbol_map) res" where
  "bind_norm_symbols ds b =
     rbind (case dimension_int (last ds) b of Inl _ \<Rightarrow> Ok b | Inr v \<Rightarrow> bind_norm_symbol b ''D'' v) (\<lambda>b.
     if length ds \<noteq> 2 then Ok b
     else case dimension_int (hd ds) b of Inl _ \<Rightarrow> Ok b | Inr v \<Rightarrow> bind_norm_symbol b ''N'' v)"

definition derive_norm_output ::
  "'v graph_node \<Rightarrow> port_type list \<Rightarrow> symbol_map \<Rightarrow> (deriver_error, port_type \<times> symbol_map) res" where
  "derive_norm_output n ins b =
     rbind (derive_same_as_first_input SemanticHiddenState n ins b) (\<lambda>t.
     if pt_shape t = [] then Err (RankTooLow (gn_op n))
     else rbind (bind_norm_symbols (pt_shape t) b) (\<lambda>b. Ok (t, b)))"

fun match_dimensions ::
  "string \<Rightarrow> nat \<Rightarrow> dimension list \<Rightarrow> dimension list \<Rightarrow> symbol_map \<Rightarrow> (deriver_error, unit) res" where
  "match_dimensions op i (l # ls) (r # rs) b =
     (if dimensions_match l r b then match_dimensions op (Suc i) ls rs b else Err (DimDiffers op i))"
| "match_dimensions op i _ _ b = Ok ()"

definition validate_gated_residual_modulation ::
  "('v \<Rightarrow> int) \<Rightarrow> 'v graph_node \<Rightarrow> port_type \<Rightarrow> port_type \<Rightarrow> symbol_map \<Rightarrow> (deriver_error, unit) res" where
  "validate_gated_residual_modulation tr n residual modulation b =
     (if pt_shape residual = [] then Err (RankTooLow ''math.gated_residual residual'')
      else if pt_shape modulation = [] then Err (RankTooLow ''math.gated_residual modulation'')
      else rbind (map_err (InOperand ''last dim'') (dimension_int (last (pt_shape residual)) b)) (\<lambda>width.
        rbind (map_err (InOperand ''modulation cols'') (dimension_int (last (pt_shape modulation)) b)) (\<lambda>cols.
        let required = wrap64 (wrap64 (wrap64 (config_int64 tr n ''set'' * 3) + 3) * width) in
        if cols < required then Err (ModulationTooNarrow cols required) else Ok ())))"

definition derive_gated_residual_output ::
  "('v \<Rightarrow> int) \<Rightarrow> 'v graph_node \<Rightarrow> port_type list \<Rightarrow> symbol_map \<Rightarrow> (deriver_error, port_type) res" where
  "derive_gated_residual_output tr n ins b = (case ins of
     [residual, branch, modulation] \<Rightarrow>
       if length (pt_shape residual) \<noteq> length (pt_shape branch) then Err (RankDiffers ''math.gated_residual'')
       else rbind (match_dimensions ''math.gated_residual'' 0 (pt_shape residual) (pt_shape branch) b) (\<lambda>_.
         rbind (validate_gated_residual_modulation tr n residual modulation b) (\<lambda>_.
         Ok (residual\<lparr>pt_kind := SemanticHiddenState\<rparr>)))
   | _ \<Rightarrow> Err (WrongInputCount ''math.gated_residual''))"

definition derive_linear_output ::
  "('v \<Rightarrow> int) \<Rightarrow> 'v graph_node \<Rightarrow> port_type list \<Rightarrow> symbol_map \<Rightarrow> (deriver_error, port_type) res" where
  "derive_linear_output tr n ins b =
     rbind (first_input ''projection.linear'' ins) (\<lambda>t.
     if pt_shape t = [] then Err (RankTooLow ''projection.linear'')
     else let out = config_int64 tr n ''out_features'' in
       if out = 0 then Err (MissingConfig (gn_id n) ''out_features'')
       else Ok \<lparr>pt_dtype = node_activation_dtype n, pt_shape = butlast (pt_shape t) @ [new_static_dimension out],
                pt_layout = LayoutContiguous, pt_kind = SemanticHiddenState, pt_constraints = []\<rparr>)"

definition derive_page_gather_output ::
  "'v graph_node \<Rightarrow> port_type list \<Rightarrow> symbol_map \<Rightarrow> (deriver_error, port_type) res" where
  "derive_page_gather_output n ins b =
     rbind (first_input ''state.page_gather'' ins) (\<lambda>t.
     let ds = pt_shape t in
     if length ds < 2 then Err (RankTooLow ''state.page_gather'')
     else Ok \<lparr>pt_dtype = (if pt_dtype t = DInvalid then node_activation_dtype n else pt_dtype t),
              pt_shape = new_symbolic_dimension ''KV'' # drop (length ds - 2) ds,
              pt_layout = LayoutContiguous, pt_kind = SemanticHiddenState, pt_constraints = []\<rparr>)"

definition derive_matmul_output ::
  "'v graph_node \<Rightarrow> port_type list \<Rightarrow> symbol_map \<Rightarrow> (deriver_error, port_type) res" where
  "derive_matmul_output n ins b = (case ins of
     l # r # _ \<Rightarrow>
       if length (pt_shape l) < 2 \<or> length (pt_shape r) < 2 then Err (RankTooLow ''math.matmul'')
       else Ok \<lparr>pt_dtype = pt_dtype l,
                pt_shape = [pt_shape l ! (length (pt_shape l) - 2), last (pt_shape r)],
                pt_layout = LayoutContiguous, pt_kind = SemanticGeneric, pt_constraints = []\<rparr>
   | _ \<Rightarrow> Err (WrongInputCount ''math.matmul''))"

section \<open>Shape operations\<close>

definition derive_swiglu_output ::
  "'v graph_node \<Rightarrow> port_type list \<Rightarrow> symbol_map \<Rightarrow> (deriver_error, port_type) res" where
  "derive_swiglu_output n ins b =
     (if length ins = 2 then derive_same_as_first_input SemanticHiddenState n ins b
      else if length ins \<noteq> 1 then Err (WrongInputCount ''activation.swiglu'')
      else let t = hd ins; ds = pt_shape t in
        if ds = [] then Err (RankTooLow ''activation.swiglu'')
        else rbind (map_err (InOperand ''last dim'') (dimension_int (last ds) b)) (\<lambda>v.
          if v smod 2 \<noteq> 0 then Err (NotEvenWidth v)
          else Ok (t\<lparr>pt_shape := butlast ds @ [new_static_dimension (v sdiv 2)], pt_kind := SemanticHiddenState\<rparr>)))"

definition derive_view_as_heads_output ::
  "('v \<Rightarrow> int) \<Rightarrow> 'v graph_node \<Rightarrow> port_type list \<Rightarrow> symbol_map \<Rightarrow> (deriver_error, port_type) res" where
  "derive_view_as_heads_output tr n ins b =
     rbind (first_input ''shape.view_as_heads'' ins) (\<lambda>t.
     let heads = config_int64 tr n ''num_heads''; ds = pt_shape t in
     if heads \<le> 0 then Err (MissingConfig (gn_id n) ''num_heads'')
     else if ds = [] then Err (RankTooLow ''shape.view_as_heads'')
     else rbind (map_err (InOperand ''last dim'') (dimension_int (last ds) b)) (\<lambda>v.
       if v smod heads \<noteq> 0 then Err (HeadsDoNotDivide v heads)
       else Ok (t\<lparr>pt_shape := butlast ds @ [new_static_dimension heads, new_static_dimension (v sdiv heads)]\<rparr>)))"

definition derive_merge_heads_output ::
  "'v graph_node \<Rightarrow> port_type list \<Rightarrow> symbol_map \<Rightarrow> (deriver_error, port_type) res" where
  "derive_merge_heads_output n ins b =
     rbind (first_input ''shape.merge_heads'' ins) (\<lambda>t.
     let ds = pt_shape t in
     if length ds < 2 then Err (RankTooLow ''shape.merge_heads'')
     else rbind (map_err (InOperand ''num_heads'') (dimension_int (ds ! (length ds - 2)) b)) (\<lambda>heads.
       rbind (map_err (InOperand ''head_dim'') (dimension_int (last ds) b)) (\<lambda>dim.
       Ok (t\<lparr>pt_shape := take (length ds - 2) ds @ [new_static_dimension (wrap64 (heads * dim))]\<rparr>))))"

text \<open>The loop of \<open>deriveConcatOutput\<close> over the dimensions, from index \<open>i\<close> on.\<close>

fun concat_dimensions ::
  "nat \<Rightarrow> nat \<Rightarrow> dimension list \<Rightarrow> dimension list \<Rightarrow> symbol_map \<Rightarrow> (deriver_error, dimension list) res" where
  "concat_dimensions axis i (l # ls) (r # rs) b =
     rbind (if i = axis then
              rbind (map_err (InOperand ''axis'') (concat_axis_dimension l r b)) (\<lambda>v. Ok (new_static_dimension v))
            else if dimensions_match l r b then Ok l else Err (DimDiffers ''shape.concat'' i)) (\<lambda>d.
     rbind (concat_dimensions axis (Suc i) ls rs b) (\<lambda>ds. Ok (d # ds)))"
| "concat_dimensions axis i _ _ b = Ok []"

definition derive_concat_output ::
  "('v \<Rightarrow> int) \<Rightarrow> 'v graph_node \<Rightarrow> port_type list \<Rightarrow> symbol_map \<Rightarrow> (deriver_error, port_type) res" where
  "derive_concat_output tr n ins b = (case ins of
     [l, r] \<Rightarrow>
       if length (pt_shape l) \<noteq> length (pt_shape r) then Err (RankDiffers ''shape.concat'')
       else rbind (map_err (InOperand ''dim'') (canonical_axis (config_int64 tr n ''dim'') (length (pt_shape l)))) (\<lambda>axis.
         rbind (concat_dimensions axis 0 (pt_shape l) (pt_shape r) b) (\<lambda>ds. Ok (l\<lparr>pt_shape := ds\<rparr>)))
   | _ \<Rightarrow> Err (WrongInputCount ''shape.concat''))"

definition derive_slice_output ::
  "('v \<Rightarrow> int) \<Rightarrow> 'v graph_node \<Rightarrow> port_type list \<Rightarrow> symbol_map \<Rightarrow> (deriver_error, port_type) res" where
  "derive_slice_output tr n ins b =
     rbind (first_input ''shape.slice'' ins) (\<lambda>t.
     let ds = pt_shape t in
     rbind (map_err (InOperand ''dim'') (canonical_axis (config_int64 tr n ''dim'') (length ds))) (\<lambda>axis.
     rbind (map_err (InOperand ''dim'') (dimension_int (ds ! axis) b)) (\<lambda>n_at.
     let start = config_int64 tr n ''start''; e = config_int64 tr n ''end''; e = (if e = 0 then n_at else e) in
     if start < 0 \<or> e < start \<or> e > n_at then Err (SliceOutOfRange start e axis n_at)
     else Ok (t\<lparr>pt_shape := ds[axis := new_static_dimension (wrap64 (e - start))]\<rparr>))))"

definition derive_upsample_nearest2d_output ::
  "('v \<Rightarrow> int) \<Rightarrow> 'v graph_node \<Rightarrow> port_type list \<Rightarrow> symbol_map \<Rightarrow> (deriver_error, port_type) res" where
  "derive_upsample_nearest2d_output tr n ins b =
     rbind (first_input ''shape.upsample_nearest2d'' ins) (\<lambda>t.
     let ds = pt_shape t; h = config_int64 tr n ''scale_h''; w = config_int64 tr n ''scale_w'' in
     if length ds \<noteq> 4 then Err (WrongRank ''shape.upsample_nearest2d'')
     else if h \<le> 0 \<or> w \<le> 0 then Err (MissingConfig (gn_id n) ''scale'')
     else rbind (map_err (InOperand ''height'') (dimension_int (ds ! 2) b)) (\<lambda>height.
       rbind (map_err (InOperand ''width'') (dimension_int (ds ! 3) b)) (\<lambda>width.
       Ok (t\<lparr>pt_shape := ds[2 := new_static_dimension (wrap64 (height * h)),
                             3 := new_static_dimension (wrap64 (width * w))]\<rparr>))))"

definition derive_last_token_output ::
  "'v graph_node \<Rightarrow> port_type list \<Rightarrow> symbol_map \<Rightarrow> (deriver_error, port_type) res" where
  "derive_last_token_output n ins b =
     rbind (first_input ''shape.last_token'' ins) (\<lambda>t.
     let ds = pt_shape t in
     if length ds < 2 then Err (RankTooLow ''shape.last_token'')
     else if length ds = 2 then Ok (t\<lparr>pt_shape := new_static_dimension 1 # tl ds\<rparr>)
     else Ok (t\<lparr>pt_shape := hd ds # drop 2 ds\<rparr>))"

section \<open>Adaptors\<close>

definition derive_cast_output ::
  "'v graph_node \<Rightarrow> port_type list \<Rightarrow> symbol_map \<Rightarrow> (deriver_error, port_type) res" where
  "derive_cast_output n ins b =
     rbind (first_input ''shape.cast'' ins) (\<lambda>t.
     let target = (case gn_attrs n ''dtype'' of Some (ADType d) \<Rightarrow> d | _ \<Rightarrow> DInvalid) in
     Ok (t\<lparr>pt_dtype := (if target = DInvalid then pt_dtype t else target)\<rparr>))"

definition derive_transpose_output ::
  "('v \<Rightarrow> int) \<Rightarrow> 'v graph_node \<Rightarrow> port_type list \<Rightarrow> symbol_map \<Rightarrow> (deriver_error, port_type) res" where
  "derive_transpose_output tr n ins b =
     rbind (first_input ''shape.transpose'' ins) (\<lambda>t.
     let ds = pt_shape t;
         target = (case gn_attrs n ''layout'' of Some (ALayout l) \<Rightarrow> l | _ \<Rightarrow> LayoutUnspecified) in
     if ds = [] then Err (RankTooLow ''shape.transpose'')
     else rbind (map_err (InOperand ''dim0'') (canonical_axis (config_int64 tr n ''dim0'') (length ds))) (\<lambda>i.
       let second = (if gn_attrs n ''dim1'' \<noteq> None then config_int64 tr n ''dim1'' else 1) in
       rbind (map_err (InOperand ''dim1'') (canonical_axis second (length ds))) (\<lambda>j.
       Ok (t\<lparr>pt_shape := ds[i := ds ! j, j := ds ! i],
             pt_layout := (if target \<noteq> LayoutUnspecified then target else pt_layout t)\<rparr>))))"

definition dimension_from_string_attribute :: "string \<Rightarrow> symbol_map \<Rightarrow> (deriver_error, dimension) res" where
  "dimension_from_string_attribute value b =
     (let s = trim_space value in
      if s = [] then Err EmptyDimension
      else case parse_int64 s of
          Some i \<Rightarrow> Ok (new_static_dimension i)
        | None \<Rightarrow> (case b s of
              Some i \<Rightarrow> Ok (new_static_dimension i)
            | None \<Rightarrow> Ok (new_symbolic_dimension s)))"

definition dimension_from_attribute ::
  "('v \<Rightarrow> int) \<Rightarrow> 'v attr \<Rightarrow> symbol_map \<Rightarrow> (deriver_error, dimension) res" where
  "dimension_from_attribute tr v b = (case v of
     AInt i \<Rightarrow> Ok (new_static_dimension i)
   | AInt64 i \<Rightarrow> Ok (new_static_dimension i)
   | AFloat64 x \<Rightarrow> Ok (new_static_dimension (tr x))
   | AString s \<Rightarrow> dimension_from_string_attribute s b
   | _ \<Rightarrow> Err UnsupportedShapeValue)"

definition shape_schema_from_attribute ::
  "('v \<Rightarrow> int) \<Rightarrow> 'v attr option \<Rightarrow> symbol_map \<Rightarrow> (deriver_error, shape_schema) res" where
  "shape_schema_from_attribute tr v b = (case v of
     Some (AShape ds) \<Rightarrow> Ok ds
   | Some (ADims ds) \<Rightarrow> Ok ds
   | Some (AInts is) \<Rightarrow> Ok (map new_static_dimension is)
   | Some (AInt64s is) \<Rightarrow> Ok (map new_static_dimension is)
   | Some (AFloats xs) \<Rightarrow> Ok (map (\<lambda>x. new_static_dimension (tr x)) xs)
   | Some (AList vs) \<Rightarrow> map_err (InOperand ''dim'') (traverse (\<lambda>v. dimension_from_attribute tr v b) vs)
   | _ \<Rightarrow> Err UnsupportedShapeValue)"

fun element_count_from :: "int \<Rightarrow> shape_schema \<Rightarrow> symbol_map \<Rightarrow> int option" where
  "element_count_from count [] b = Some count"
| "element_count_from count (d # ds) b = (case dimension_int d b of
     Inl _ \<Rightarrow> None | Inr v \<Rightarrow> element_count_from (wrap64 (count * v)) ds b)"

definition shape_element_count :: "shape_schema \<Rightarrow> symbol_map \<Rightarrow> int option" where
  "shape_element_count ds b = element_count_from 1 ds b"

definition validate_reshape_element_count ::
  "shape_schema \<Rightarrow> shape_schema \<Rightarrow> symbol_map \<Rightarrow> (deriver_error, unit) res" where
  "validate_reshape_element_count inp out b =
     (case (shape_element_count inp b, shape_element_count out b) of
        (Some x, Some y) \<Rightarrow> if x \<noteq> y then Err (ElementCounts x y) else Ok ()
      | _ \<Rightarrow> Ok ())"

definition derive_reshape_output ::
  "('v \<Rightarrow> int) \<Rightarrow> 'v graph_node \<Rightarrow> port_type list \<Rightarrow> symbol_map \<Rightarrow> (deriver_error, port_type) res" where
  "derive_reshape_output tr n ins b =
     rbind (first_input ''shape.reshape'' ins) (\<lambda>t.
     rbind (map_err (InOperand ''shape'') (shape_schema_from_attribute tr (gn_attrs n ''shape'') b)) (\<lambda>ds.
     if ds = [] then Err (MissingConfig (gn_id n) ''shape'')
     else rbind (map_err (InOperand (gn_id n)) (validate_reshape_element_count (pt_shape t) ds b)) (\<lambda>_.
       Ok (t\<lparr>pt_shape := ds\<rparr>))))"

section \<open>Convolution\<close>

definition conv2d_config_value :: "('v \<Rightarrow> int) \<Rightarrow> 'v graph_node \<Rightarrow> string \<Rightarrow> int \<Rightarrow> int" where
  "conv2d_config_value tr n key d = (let v = config_int64 tr n key in if v \<noteq> 0 then v else d)"

definition bound_conv2d_kernel_dim :: "'v graph_node \<Rightarrow> string \<Rightarrow> int" where
  "bound_conv2d_kernel_dim n axis = (if axis = ''height'' then bound_weight_dim n 2 else bound_weight_dim n 3)"

text \<open>The arithmetic of \<open>conv2DOutputDimension\<close> once the four parameters are read.\<close>

definition conv2d_extent :: "string \<Rightarrow> int \<Rightarrow> int \<Rightarrow> int \<Rightarrow> int \<Rightarrow> int \<Rightarrow> (deriver_error, int) res" where
  "conv2d_extent axis inp kern stride padding dilation =
     (if kern \<le> 0 then Err (NonPositiveKernel axis)
      else if stride \<le> 0 then Err (NonPositiveStride axis)
      else if dilation \<le> 0 then Err (NonPositiveDilation axis)
      else
        let effective = wrap64 (wrap64 (dilation * (kern - 1)) + 1);
            out = wrap64 (wrap64 (wrap64 (inp + wrap64 (2 * padding)) - effective) sdiv stride + 1)
        in if out \<le> 0 then Err (NonPositiveOutput axis) else Ok out)"

definition conv2d_output_dimension ::
  "('v \<Rightarrow> int) \<Rightarrow> 'v graph_node \<Rightarrow> int \<Rightarrow> string \<Rightarrow> (deriver_error, int) res" where
  "conv2d_output_dimension tr n inp axis =
     conv2d_extent axis inp
       (conv2d_config_value tr n (''kernel_'' @ take 1 axis) (bound_conv2d_kernel_dim n axis))
       (conv2d_config_value tr n (''stride_'' @ take 1 axis) 1)
       (conv2d_config_value tr n (''pad_'' @ take 1 axis) 0)
       (conv2d_config_value tr n (''dil_'' @ take 1 axis) 1)"

definition derive_conv2d_output ::
  "('v \<Rightarrow> int) \<Rightarrow> 'v graph_node \<Rightarrow> port_type list \<Rightarrow> symbol_map \<Rightarrow> (deriver_error, port_type) res" where
  "derive_conv2d_output tr n ins b =
     rbind (first_input ''convolution.conv2d'' ins) (\<lambda>t.
     let ds = pt_shape t in
     if length ds \<noteq> 4 then Err (WrongRank ''convolution.conv2d'')
     else let channels = conv2d_config_value tr n ''out_channels'' (bound_weight_dim n 0) in
       if channels \<le> 0 then Err (MissingConfig (gn_id n) ''out_channels'')
       else rbind (map_err (InOperand ''height'') (dimension_int (ds ! 2) b)) (\<lambda>height.
         rbind (map_err (InOperand ''width'') (dimension_int (ds ! 3) b)) (\<lambda>width.
         rbind (conv2d_output_dimension tr n height ''height'') (\<lambda>oh.
         rbind (conv2d_output_dimension tr n width ''width'') (\<lambda>ow.
         Ok (t\<lparr>pt_shape := [ds ! 0, new_static_dimension channels, new_static_dimension oh, new_static_dimension ow],
               pt_kind := SemanticHiddenState\<rparr>))))))"

section \<open>Splitting and merging heads\<close>

lemma smod_zero_sdiv_mult: "a smod b = 0 \<Longrightarrow> b * (a sdiv b) = (a :: int)"
  by (metis add.right_neutral mult.commute sdiv_mult_smod_eq)

lemma first_input_Ok: "first_input op ins = Ok t \<longleftrightarrow> (\<exists>ts. ins = t # ts)"
  by (cases ins) (simp_all add: first_input_def)

lemma dimension_int_static [simp]: "dimension_int (new_static_dimension v) b = Ok v"
  by (simp add: dimension_int_def is_symbolic_def new_static_dimension_def)

lemma heads_then_merge:
  assumes view: "derive_view_as_heads_output tr n [t] b = Ok u" and v: "dimension_int (last (pt_shape t)) b = Ok v"
    and "in64 v"
  shows "derive_merge_heads_output m (u # ts) b = Ok (t\<lparr>pt_shape := butlast (pt_shape t) @ [new_static_dimension v]\<rparr>)"
proof -
  define h where "h = config_int64 tr n ''num_heads''"
  from view v have "v smod h = 0"
    and u: "u = t\<lparr>pt_shape := butlast (pt_shape t) @ [new_static_dimension h, new_static_dimension (v sdiv h)]\<rparr>"
    by (auto simp: derive_view_as_heads_output_def first_input_def Let_def h_def [symmetric] split: if_splits)
  then have "h * (v sdiv h) = v" by (intro smod_zero_sdiv_mult)
  moreover have "(butlast (pt_shape t) @ [x, y]) ! (length (pt_shape t) - Suc 0) = x" for x y
    by (simp add: nth_append)
  ultimately show ?thesis using \<open>in64 v\<close>
    by (simp add: derive_merge_heads_output_def first_input_def u wrap64_id nth_append)
qed

text \<open>
  Splitting a hidden dimension into heads and merging the heads back is the identity on types:
  whenever \<open>shape.view_as_heads\<close> accepts a tensor whose last dimension has the (bound) size \<open>v\<close>,
  \<open>shape.merge_heads\<close> accepts the result, with the same format, layout, kind and constraints and the
  original shape with the last dimension resolved to \<open>v\<close>.
\<close>

theorem heads_roundtrip:
  assumes "derive_view_as_heads_output tr n [t] b = Ok u" and "dimension_int (last (pt_shape t)) b = Ok v"
    and "in64 v"
  shows "derive_merge_heads_output m [u] b = Ok (t\<lparr>pt_shape := butlast (pt_shape t) @ [new_static_dimension v]\<rparr>)"
  using assms by (rule heads_then_merge)

definition attr_node :: "string \<Rightarrow> (string \<rightharpoonup> int attr) \<Rightarrow> int graph_node" where
  "attr_node op as = \<lparr>gn_id = ''n'', gn_op = op, gn_inputs = [''x''], gn_attrs = as, gn_meta = Map.empty,
     gn_input_types = [], gn_output_type = zero_port_type, gn_value = zero_value_type, gn_weights = None\<rparr>"

theorem heads_roundtrip_witness:
  "derive_merge_heads_output (attr_node ''shape.merge_heads'' Map.empty)
     [zero_port_type\<lparr>pt_shape := [new_symbolic_dimension ''T'', new_static_dimension 32, new_static_dimension 64]\<rparr>]
     [''D'' \<mapsto> 2048]
   = Ok (zero_port_type\<lparr>pt_shape := [new_symbolic_dimension ''T'', new_static_dimension 2048]\<rparr>)"
proof -
  let ?t = "zero_port_type\<lparr>pt_shape := [new_symbolic_dimension ''T'', new_symbolic_dimension ''D'']\<rparr>"
  have "derive_view_as_heads_output id (attr_node ''shape.view_as_heads'' [''num_heads'' \<mapsto> AInt 32]) [?t] [''D'' \<mapsto> 2048]
      = Ok (zero_port_type\<lparr>pt_shape := [new_symbolic_dimension ''T'', new_static_dimension 32, new_static_dimension 64]\<rparr>)"
    by (simp add: derive_view_as_heads_output_def first_input_def Let_def config_int64_def attr_node_def
        dimension_int_def is_symbolic_def new_symbolic_dimension_def smod_nonneg sdiv_nonneg)
  from heads_roundtrip [OF this, of 2048 "attr_node ''shape.merge_heads'' Map.empty"] show ?thesis
    by (simp add: in64_def dimension_int_def is_symbolic_def new_symbolic_dimension_def)
qed

section \<open>Window positions of a convolution\<close>

lemma window_position_count:
  assumes "0 < stride" and "0 \<le> (room :: int)" and "0 \<le> w"
  shows "w < room div stride + 1 \<longleftrightarrow> w * stride \<le> room"
proof
  assume "w < room div stride + 1"
  then have "w \<le> room div stride" by simp
  then have "w * stride \<le> room div stride * stride" using assms(1) by (intro mult_right_mono) auto
  also have "\<dots> \<le> room" using assms(1) by (metis div_mult_mod_eq le_add_same_cancel1 pos_mod_sign)
  finally show "w * stride \<le> room" .
next
  assume "w * stride \<le> room"
  then have "w * stride div stride \<le> room div stride" using assms(1) by (intro zdiv_mono1) auto
  with assms(1) show "w < room div stride + 1" by simp
qed

definition conv_sizes_fit :: "int \<Rightarrow> int \<Rightarrow> int \<Rightarrow> int \<Rightarrow> int \<Rightarrow> bool" where
  "conv_sizes_fit inp kern stride padding dilation \<longleftrightarrow>
     0 \<le> inp \<and> inp < 2 ^ 60 \<and> 0 < kern \<and> 0 < stride \<and> stride < 2 ^ 60 \<and> 0 \<le> padding \<and> padding < 2 ^ 60
     \<and> 0 < dilation \<and> dilation * (kern - 1) < 2 ^ 60"

lemma conv2d_extent_eq:
  assumes "conv_sizes_fit inp kern stride padding dilation"
  defines "room \<equiv> inp + 2 * padding - (dilation * (kern - 1) + 1)"
  shows "conv2d_extent axis inp kern stride padding dilation =
    (if room sdiv stride + 1 \<le> 0 then Err (NonPositiveOutput axis) else Ok (room sdiv stride + 1))"
proof -
  have r: "0 \<le> dilation * (kern - 1)" "dilation * (kern - 1) < 2 ^ 60" "0 \<le> inp" "inp < 2 ^ 60" "0 < stride"
    "0 \<le> padding" "padding < 2 ^ 60" "0 < kern" "0 < dilation"
    using assms(1) by (auto simp: conv_sizes_fit_def)
  have room: "\<bar>room\<bar> < 2 ^ 62"
  proof -
    have "\<bar>x + 2 * p - (e + 1)\<bar> < 2 ^ 62" if "0 \<le> e" "e < 2 ^ 60" "0 \<le> x" "x < 2 ^ 60" "0 \<le> p" "p < 2 ^ 60"
      for x p e :: int using that by simp
    from this [OF r(1-4) r(6,7)] show ?thesis by (simp only: room_def)
  qed
  have "\<bar>room sdiv stride\<bar> \<le> \<bar>room\<bar>"
  proof -
    have "\<bar>room sdiv stride\<bar> = \<bar>room\<bar> div \<bar>stride\<bar>" using r
      by (simp add: signed_divide_int_def abs_mult sgn_if pos_imp_zdiv_nonneg_iff)
    also have "\<dots> \<le> \<bar>room\<bar>" using r zdiv_mono2 [of "\<bar>room\<bar>" 1 stride] by simp
    finally show ?thesis .
  qed
  with room have q: "\<bar>room sdiv stride\<bar> < 2 ^ 62" by simp
  have w: "wrap64 x = x" if "\<bar>x\<bar> \<le> 2 ^ 62" for x using that by (intro wrap64_id) (auto simp: in64_def abs_le_iff)
  have e: "wrap64 (wrap64 (dilation * (kern - 1)) + 1) = dilation * (kern - 1) + 1"
    using r by (simp add: w)
  have "wrap64 (wrap64 (inp + wrap64 (2 * padding)) - (dilation * (kern - 1) + 1)) = room"
    using r room by (simp add: w room_def)
  moreover have "wrap64 (room sdiv stride + 1) = room sdiv stride + 1" using q by (intro w) simp
  ultimately show ?thesis using r by (simp add: conv2d_extent_def Let_def e)
qed

text \<open>
  The output size of a convolution axis. For sizes without overflow the deriver accepts exactly
  when the dilated kernel is less than one stride larger than the padded input. If the kernel fits, the
  size is the number of window positions: the windows starting at \<open>w * stride\<close> for \<open>w\<close> below it are the
  ones that lie inside the padded input. If it does not fit, Go's division rounds the negative room
  up to zero and the deriver reports one window, where there is none.
\<close>

theorem conv2d_extent_windows:
  assumes "conv_sizes_fit inp kern stride padding dilation"
  shows "let eff = dilation * (kern - 1) + 1; padded = inp + 2 * padding;
             r = conv2d_extent axis inp kern stride padding dilation in
    ((\<exists>out. r = Ok out) \<longleftrightarrow> eff < padded + stride)
    \<and> (eff \<le> padded \<longrightarrow> (\<exists>out. r = Ok out \<and> (\<forall>w \<ge> 0. w < out \<longleftrightarrow> w * stride + eff \<le> padded)))
    \<and> (padded < eff \<and> eff < padded + stride \<longrightarrow> r = Ok 1)"
proof -
  define eff where "eff = dilation * (kern - 1) + 1"
  define padded where "padded = inp + 2 * padding"
  have s: "0 < stride" using assms by (simp add: conv_sizes_fit_def)
  have r: "conv2d_extent axis inp kern stride padding dilation =
      (if (padded - eff) sdiv stride + 1 \<le> 0 then Err (NonPositiveOutput axis) else Ok ((padded - eff) sdiv stride + 1))"
    using conv2d_extent_eq [OF assms] by (simp add: eff_def padded_def)
  show ?thesis
  proof (cases "eff \<le> padded")
    case True
    then have q: "(padded - eff) sdiv stride = (padded - eff) div stride" using s by (intro sdiv_nonneg) auto
    have "0 \<le> (padded - eff) div stride" using True s by (simp add: pos_imp_zdiv_nonneg_iff)
    moreover have "\<forall>w \<ge> 0. w < (padded - eff) div stride + 1 \<longleftrightarrow> w * stride + eff \<le> padded"
      using window_position_count [OF s, of "padded - eff"] True by (auto simp: algebra_simps)
    moreover have "\<not> (padded - eff) div stride + 1 \<le> 0" using calculation(1) by linarith
    ultimately show ?thesis using True s by (simp add: r q Let_def eff_def [symmetric] padded_def [symmetric])
  next
    case False
    then have q: "(padded - eff) sdiv stride = - ((eff - padded) div stride)" using s
      by (simp add: signed_divide_int_def sgn_if)
    have "(eff - padded) div stride = 0 \<longleftrightarrow> eff < padded + stride"
      using False s by (auto simp: div_eq_0_iff zdiv_eq_0_iff)
    moreover have "0 \<le> (eff - padded) div stride" using False s by (simp add: pos_imp_zdiv_nonneg_iff)
    ultimately show ?thesis using False
      by (auto simp: r q Let_def eff_def [symmetric] padded_def [symmetric])
  qed
qed

theorem conv2d_extent_windows_witness:
  "conv2d_extent ''height'' 4 5 2 0 1 = Ok 1"
  using conv2d_extent_windows [of 4 5 2 0 1 "''height''"] by (simp add: conv_sizes_fit_def Let_def)

end
