(* ===== verification/Typer_Infer.thy ===== *)
theory Typer_Infer
  imports Typer_Derivers Unify
begin

text \<open>
  The typer pass over a compute graph: the operation table with its registry fallback
  (\<open>typer/spec.go\<close>, \<open>registry_spec.go\<close>), the types of the graph boundary (\<open>graph_inputs.go\<close>), inference
  along the edges (\<open>infer.go\<close>), adaptor synthesis (\<open>adaptor.go\<close>) and the loop of the two (\<open>run.go\<close>).
  The embedded operation registry is data outside the modelled code: \<open>reg\<close> gives, for an operation it
  lists, the number of inputs in its schema. \<open>RegisterSpec\<close> can change the table at run time, so the
  passes take the lookup \<open>L\<close> as an argument. Where Go returns an error next to partial statistics,
  only the error is kept; no caller reads the rest.
\<close>

section \<open>Operation specifications\<close>

type_synonym 'v output_deriver =
  "'v graph_node \<Rightarrow> port_type list \<Rightarrow> symbol_map \<Rightarrow> (deriver_error, port_type \<times> symbol_map) res"

record 'v op_spec =
  os_inputs :: "port_type list"
  os_output :: port_type
  os_weights :: "port_type list"
  os_deriver :: "'v output_deriver option"

type_synonym 'v spec_lookup = "string \<Rightarrow> 'v op_spec option"

definition shape_symbols :: "string list \<Rightarrow> shape_schema" where
  "shape_symbols ss = map new_symbolic_dimension ss"

definition any_tensor :: port_type where
  "any_tensor = \<lparr>pt_dtype = DInvalid, pt_shape = shape_symbols [''N''], pt_layout = LayoutUnspecified,
     pt_kind = SemanticGeneric, pt_constraints = []\<rparr>"

definition activation_tensor :: port_type where
  "activation_tensor = \<lparr>pt_dtype = DInvalid, pt_shape = shape_symbols [''N''], pt_layout = LayoutContiguous,
     pt_kind = SemanticHiddenState, pt_constraints = []\<rparr>"

text \<open>A contiguous port, as most entries of the table write one.\<close>

definition contiguous_port :: "dtype \<Rightarrow> string list \<Rightarrow> semantic_kind \<Rightarrow> port_type" where
  "contiguous_port d ss kind = \<lparr>pt_dtype = d, pt_shape = shape_symbols ss, pt_layout = LayoutContiguous,
     pt_kind = kind, pt_constraints = []\<rparr>"

text \<open>A deriver that leaves the symbol map alone.\<close>

definition reading ::
  "('v graph_node \<Rightarrow> port_type list \<Rightarrow> symbol_map \<Rightarrow> (deriver_error, port_type) res) \<Rightarrow> 'v output_deriver" where
  "reading f n ins b = rbind (f n ins b) (\<lambda>t. Ok (t, b))"

definition derived_spec :: "port_type list \<Rightarrow> port_type list \<Rightarrow> 'v output_deriver \<Rightarrow> 'v op_spec" where
  "derived_spec ins ws f = \<lparr>os_inputs = ins, os_output = zero_port_type, os_weights = ws, os_deriver = Some f\<rparr>"

definition same_spec :: "port_type list \<Rightarrow> semantic_kind \<Rightarrow> 'v op_spec" where
  "same_spec ins kind = derived_spec ins [] (reading (derive_same_as_first_input kind))"

definition unary_elementwise_spec :: "'v op_spec" where
  "unary_elementwise_spec = same_spec [activation_tensor] SemanticGeneric"

definition binary_elementwise_spec :: "'v op_spec" where
  "binary_elementwise_spec = same_spec [activation_tensor, activation_tensor] SemanticGeneric"

definition spec_table :: "('v \<Rightarrow> int) \<Rightarrow> (string \<times> 'v op_spec) list" where
  "spec_table tr = [
     (''embedding.token'', derived_spec [contiguous_port Int32 [''N''] SemanticTokenIndex]
        [contiguous_port Float32 [''V'', ''D''] SemanticEmbedding] (reading (derive_embedding_output tr))),
     (''embedding.timestep'', derived_spec [contiguous_port Float32 [''B''] SemanticGeneric] []
        (reading (derive_timestep_embedding_output tr))),
     (''math.rmsnorm'', derived_spec [activation_tensor] [contiguous_port Float32 [''D''] SemanticGeneric] derive_norm_output),
     (''math.layernorm'', derived_spec [activation_tensor] [contiguous_port Float32 [''D''] SemanticGeneric] derive_norm_output),
     (''math.groupnorm'', derived_spec [any_tensor]
        [contiguous_port Float32 [''C''] SemanticGeneric, contiguous_port Float32 [''C''] SemanticGeneric]
        (reading (derive_same_as_first_input SemanticHiddenState))),
     (''math.modulated_layernorm'', same_spec [activation_tensor, any_tensor] SemanticHiddenState),
     (''math.batchnorm_denorm'', same_spec [any_tensor] SemanticHiddenState),
     (''math.gated_residual'', derived_spec [any_tensor, any_tensor, any_tensor] [] (reading (derive_gated_residual_output tr))),
     (''projection.linear'', derived_spec [activation_tensor]
        [contiguous_port Float32 [''D_in'', ''D_out''] SemanticGeneric] (reading (derive_linear_output tr))),
     (''math.matmul'', derived_spec [contiguous_port DInvalid [''M'', ''K''] SemanticGeneric,
        contiguous_port DInvalid [''K'', ''N''] SemanticGeneric] [] (reading derive_matmul_output)),
     (''convolution.conv2d'', derived_spec [any_tensor] [] (reading (derive_conv2d_output tr))),
     (''math.add'', binary_elementwise_spec), (''math.sub'', binary_elementwise_spec),
     (''math.mul'', binary_elementwise_spec), (''math.div'', binary_elementwise_spec),
     (''activation.relu'', unary_elementwise_spec), (''activation.sigmoid'', unary_elementwise_spec),
     (''activation.tanh'', unary_elementwise_spec), (''activation.gelu'', unary_elementwise_spec),
     (''activation.swish'', unary_elementwise_spec),
     (''activation.swiglu'', derived_spec [activation_tensor, activation_tensor] [] (reading derive_swiglu_output)),
     (''shape.view_as_heads'', derived_spec [any_tensor] [] (reading (derive_view_as_heads_output tr))),
     (''shape.merge_heads'', derived_spec [any_tensor] [] (reading derive_merge_heads_output)),
     (''shape.concat'', derived_spec [any_tensor, any_tensor] [] (reading (derive_concat_output tr))),
     (''shape.slice'', derived_spec [any_tensor] [] (reading (derive_slice_output tr))),
     (''shape.upsample_nearest2d'', derived_spec [any_tensor] [] (reading (derive_upsample_nearest2d_output tr))),
     (''shape.last_token'', derived_spec [any_tensor] [] (reading derive_last_token_output)),
     (''positional.rope'', same_spec [activation_tensor, contiguous_port Int32 [''N''] SemanticGeneric] SemanticHiddenState),
     (''positional.multi_axis_rope'', same_spec [any_tensor] SemanticHiddenState),
     (''state.page_write'', same_spec [any_tensor, any_tensor, contiguous_port Int32 [''N''] SemanticGeneric,
        contiguous_port Int32 [''N''] SemanticGeneric] SemanticGeneric),
     (''state.page_gather'', derived_spec [any_tensor, contiguous_port Int32 [''P''] SemanticGeneric] []
        (reading derive_page_gather_output)),
     (''attention.gqa'', same_spec [activation_tensor, contiguous_port DInvalid [''KV'', ''KVH'', ''HD''] SemanticHiddenState,
        contiguous_port DInvalid [''KV'', ''KVH'', ''HD''] SemanticHiddenState] SemanticHiddenState),
     (''attention.sdpa'', same_spec [any_tensor, any_tensor, any_tensor] SemanticHiddenState),
     (''resonant.update_forward'', same_spec (replicate 5 any_tensor) SemanticGeneric),
     (''resonant.update_backward'', same_spec (replicate 8 any_tensor) SemanticGeneric),
     (''value.assign'', same_spec [any_tensor] SemanticGeneric),
     (''shape.cast'', derived_spec [any_tensor] [] (reading derive_cast_output)),
     (''shape.transpose'', derived_spec [any_tensor] [] (reading (derive_transpose_output tr))),
     (''shape.reshape'', derived_spec [any_tensor] [] (reading (derive_reshape_output tr)))]"

definition op_spec_from_schema :: "nat \<Rightarrow> 'v op_spec" where
  "op_spec_from_schema inputs =
     same_spec (if inputs = 0 then [any_tensor] else replicate inputs any_tensor) SemanticGeneric"

definition lookup_spec :: "(string \<times> 'v op_spec) list \<Rightarrow> (string \<Rightarrow> nat option) \<Rightarrow> 'v spec_lookup" where
  "lookup_spec tbl reg op = (let op = trim_space op in case map_of tbl op of
     Some s \<Rightarrow> Some s | None \<Rightarrow> map_option op_spec_from_schema (reg op))"

definition register_spec :: "string \<Rightarrow> 'v op_spec \<Rightarrow> (string \<times> 'v op_spec) list \<Rightarrow> (string \<times> 'v op_spec) list" where
  "register_spec op s tbl = (op, s) # tbl"

section \<open>The graph boundary\<close>

definition graph_input_port_type :: "string \<Rightarrow> dtype \<Rightarrow> port_type option" where
  "graph_input_port_type name d =
     (let act = (if is_float d then d else Float32) in
      if name = ''input_ids'' then Some (contiguous_port Int32 [''N''] SemanticTokenIndex)
      else if name = ''hidden_states'' \<or> name = ''latents'' then
        Some (contiguous_port act [''B'', ''T'', ''D''] SemanticHiddenState)
      else if name = ''encoder_hidden_states'' \<or> name = ''text_embedding'' then
        Some (contiguous_port act [''B'', ''C'', ''E''] SemanticHiddenState)
      else if name = ''timestep'' then Some (contiguous_port Float32 [''B''] SemanticGeneric)
      else if name = ''key_pages'' \<or> name = ''value_pages'' then
        Some (contiguous_port DInvalid [''L'', ''P'', ''S'', ''KVH'', ''HD''] SemanticGeneric)
      else if name = ''write_page_ids'' \<or> name = ''write_offsets'' then
        Some (contiguous_port Int32 [''N''] SemanticGeneric)
      else if name = ''key_page_table'' \<or> name = ''value_page_table'' then
        Some (contiguous_port Int32 [''P''] SemanticGeneric)
      else if name = ''position_offset'' then
        Some ((contiguous_port Int32 [] SemanticGeneric)\<lparr>pt_shape := [new_static_dimension 1]\<rparr>)
      else None)"

definition boundary_types :: "'v ast_graph \<Rightarrow> string \<rightharpoonup> port_type" where
  "boundary_types g = fold (\<lambda>i m. m(i \<mapsto>
     (case graph_input_port_type i (g_dtype g) of Some t \<Rightarrow> t | None \<Rightarrow> any_tensor))) (g_inputs g) Map.empty"

section \<open>Edge errors\<close>

definition quoted :: "string \<Rightarrow> string" where
  "quoted s = CHR 0x22 # s @ [CHR 0x22]"

text \<open>The messages of \<open>ir.UnificationError\<close>.\<close>

fun unify_reason :: "unify_error \<Rightarrow> string" where
  "unify_reason (DTypeMismatch p c) =
     ''dtype mismatch: producer '' @ dtype_string p @ '' vs consumer '' @ dtype_string c"
| "unify_reason (LayoutMismatch p c) =
     ''layout mismatch: producer '' @ layout_string p @ '' vs consumer '' @ layout_string c"
| "unify_reason (RankMismatch p c) =
     ''rank mismatch: producer '' @ shape_string p @ '' vs consumer '' @ shape_string c"
| "unify_reason (StaticMismatch p c) =
     ''static size mismatch: producer '' @ show_int p @ '' vs consumer '' @ show_int c"
| "unify_reason (AlreadyBound s x y) =
     ''symbol '' @ quoted s @ '' already bound to '' @ show_int x @ '', cannot rebind to '' @ show_int y"
| "unify_reason (AtDim i e) = ''dim['' @ show_nat i @ '']: '' @ unify_reason e"
| "unify_reason (KindMismatch p c) = ''semantic kind mismatch: producer '' @ quoted p @ '' vs consumer ''
     @ quoted c @ '' (use a typed adaptor or change the recipe)''"
| "unify_reason (ZeroDivisor k) = ''divisibility constraint has zero divisor: '' @ constraint_string k"
| "unify_reason (NotDivisible i v n) = ''constraint violated: dim['' @ show_int i @ '']='' @ show_int v
     @ '' is not divisible by '' @ show_int n"
| "unify_reason (OutOfRange i v lo hi) = ''constraint violated: dim['' @ show_int i @ '']='' @ show_int v
     @ '' is outside ['' @ show_int lo @ '', '' @ show_int hi @ '']''"
| "unify_reason (BoundApart l x r y) = ''constraint violated: '' @ quoted l @ '' is bound to '' @ show_int x
     @ '' but '' @ quoted r @ '' is bound to '' @ show_int y"

record edge_error =
  ee_producer :: string
  ee_consumer :: string
  ee_slot :: int
  ee_ptype :: port_type
  ee_etype :: port_type
  ee_reason :: string
  ee_hint :: string

text \<open>
  The type assertion of \<open>edgeErrorFromUnify\<close> sees only an error that is itself a unification error,
  not one wrapped with its dimension.
\<close>

definition edge_error_from_unify ::
  "'v graph_node \<Rightarrow> nat \<Rightarrow> string \<Rightarrow> port_type \<Rightarrow> port_type \<Rightarrow> unify_error \<Rightarrow> edge_error" where
  "edge_error_from_unify n i producer p c e = \<lparr>ee_producer = producer, ee_consumer = gn_id n, ee_slot = int i,
     ee_ptype = p, ee_etype = c, ee_reason = unify_reason e,
     ee_hint = (case e of AtDim _ _ \<Rightarrow> [] | _ \<Rightarrow> adaptor_hint e)\<rparr>"

section \<open>Inference\<close>

definition is_wildcard_shape :: "shape_schema \<Rightarrow> bool" where
  "is_wildcard_shape ds = (case ds of [d] \<Rightarrow> is_symbolic d \<and> dsym d = ''N'' | _ \<Rightarrow> False)"

definition adopt_producer_shape_when_wildcard :: "port_type \<Rightarrow> port_type \<Rightarrow> port_type" where
  "adopt_producer_shape_when_wildcard c p =
     (if \<not> is_wildcard_shape (pt_shape c) then c else c\<lparr>pt_shape := pt_shape p\<rparr>)"

definition expected_input_type :: "'v op_spec \<Rightarrow> nat \<Rightarrow> port_type \<Rightarrow> port_type" where
  "expected_input_type spec i fallback = (if i < length (os_inputs spec) then os_inputs spec ! i else fallback)"

definition producer_type :: "(string \<rightharpoonup> port_type) \<Rightarrow> string \<Rightarrow> port_type" where
  "producer_type types x = (case types x of None \<Rightarrow> any_tensor | Some t \<Rightarrow> t)"

text \<open>The type a slot asks for, given what arrives there.\<close>

definition slot_type :: "'v op_spec \<Rightarrow> nat \<Rightarrow> port_type \<Rightarrow> port_type" where
  "slot_type spec i p = adopt_producer_shape_when_wildcard (expected_input_type spec i p) p"

fun unify_node_inputs ::
  "'v graph_node \<Rightarrow> 'v op_spec \<Rightarrow> (string \<rightharpoonup> port_type) \<Rightarrow> nat \<Rightarrow> string list \<Rightarrow> symbol_map
     \<Rightarrow> port_type list \<times> edge_error list \<times> symbol_map" where
  "unify_node_inputs n spec types i [] b = ([], [], b)"
| "unify_node_inputs n spec types i (x # xs) b =
     (let p = producer_type types x; c = slot_type spec i p in
      case unify p c of
        Inl e \<Rightarrow> (let (ts, es, b') = unify_node_inputs n spec types (Suc i) xs b in
          (p # ts, edge_error_from_unify n i x p c e # es, b'))
      | Inr (u, m) \<Rightarrow> (let (ts, es, b') = unify_node_inputs n spec types (Suc i) xs (b ++ m) in
          (u # ts, es, b')))"

definition best_effort_input_types :: "'v graph_node \<Rightarrow> (string \<rightharpoonup> port_type) \<Rightarrow> port_type list" where
  "best_effort_input_types n types = map (producer_type types) (gn_inputs n)"

definition best_effort_passthrough :: "'v graph_node \<Rightarrow> (string \<rightharpoonup> port_type) \<Rightarrow> port_type" where
  "best_effort_passthrough n types = (case filter (\<lambda>x. types x \<noteq> None) (gn_inputs n) of
     [] \<Rightarrow> any_tensor | x # _ \<Rightarrow> the (types x))"

definition derive_output_type ::
  "'v graph_node \<Rightarrow> 'v op_spec \<Rightarrow> port_type list \<Rightarrow> symbol_map \<Rightarrow> (deriver_error, port_type \<times> symbol_map) res" where
  "derive_output_type n spec ins b = (case os_deriver spec of
     Some f \<Rightarrow> f n ins b | None \<Rightarrow> Ok (os_output spec, b))"

record infer_stats =
  is_nodes_typed :: nat
  is_edges_unified :: nat
  is_bindings_resolved :: nat

record infer_state =
  it_types :: "string \<rightharpoonup> port_type"
  it_bindings :: symbol_map
  it_errors :: "edge_error list"
  it_typed :: nat
  it_unified :: nat

definition infer_node ::
  "'v spec_lookup \<Rightarrow> 'v graph_node \<Rightarrow> infer_state \<Rightarrow> (deriver_error, 'v graph_node \<times> infer_state) res" where
  "infer_node L n s =
     (if pt_dtype (gn_output_type n) \<noteq> DInvalid then
        Ok (n, s\<lparr>it_types := (it_types s)(gn_id n \<mapsto> gn_output_type n), it_typed := it_typed s + 1\<rparr>)
      else case L (gn_op n) of
        None \<Rightarrow>
          (let fallback = best_effort_passthrough n (it_types s) in
           Ok (n\<lparr>gn_input_types := best_effort_input_types n (it_types s), gn_output_type := fallback\<rparr>,
               s\<lparr>it_types := (it_types s)(gn_id n \<mapsto> fallback)\<rparr>))
      | Some spec \<Rightarrow>
          (let (bound, es, b) = unify_node_inputs n spec (it_types s) 0 (gn_inputs n) (it_bindings s);
               n' = n\<lparr>gn_input_types := bound\<rparr> in
           rbind (derive_output_type n' spec bound b) (\<lambda>(t, b').
             Ok (n'\<lparr>gn_output_type := t\<rparr>,
                 \<lparr>it_types = (it_types s)(gn_id n \<mapsto> t), it_bindings = b', it_errors = it_errors s @ es,
                  it_typed = it_typed s + 1, it_unified = it_unified s + length (gn_inputs n)\<rparr>))))"

fun infer_nodes ::
  "'v spec_lookup \<Rightarrow> 'v graph_node list \<Rightarrow> infer_state \<Rightarrow> (deriver_error, 'v graph_node list \<times> infer_state) res" where
  "infer_nodes L [] s = Ok ([], s)"
| "infer_nodes L (n # ns) s =
     rbind (infer_node L n s) (\<lambda>(n', s').
     rbind (infer_nodes L ns s') (\<lambda>(ns', s''). Ok (n' # ns', s'')))"

datatype typer_error =
    TyperGraphRequired | DeriveFailed deriver_error
  | UnknownHint string | ConsumerNotInGraph string | SlotOutOfRange string int
  | HardFailure "edge_error list" | NotConverged nat

definition infer_start :: "'v ast_graph \<Rightarrow> infer_state" where
  "infer_start g = \<lparr>it_types = boundary_types g, it_bindings = g_bindings g, it_errors = [], it_typed = 0, it_unified = 0\<rparr>"

definition infer ::
  "'v spec_lookup \<Rightarrow> 'v ast_graph option \<Rightarrow> (typer_error, infer_stats \<times> edge_error list \<times> 'v ast_graph) res" where
  "infer L go = (case go of
     None \<Rightarrow> Err TyperGraphRequired
   | Some g \<Rightarrow> rbind (map_err DeriveFailed (infer_nodes L (g_nodes g) (infer_start g))) (\<lambda>(ns, s).
       Ok (\<lparr>is_nodes_typed = it_typed s, is_edges_unified = it_unified s, is_bindings_resolved = card (dom (it_bindings s))\<rparr>,
           it_errors s, g\<lparr>g_nodes := ns, g_bindings := it_bindings s\<rparr>)))"

section \<open>Adaptor synthesis\<close>

definition cast_output_type :: "edge_error \<Rightarrow> port_type" where
  "cast_output_type e = (if pt_dtype (ee_etype e) \<noteq> DInvalid
     then (ee_ptype e)\<lparr>pt_dtype := pt_dtype (ee_etype e)\<rparr> else ee_ptype e)"

definition transpose_output_type :: "edge_error \<Rightarrow> port_type" where
  "transpose_output_type e = (if pt_layout (ee_etype e) \<noteq> LayoutUnspecified
     then (ee_ptype e)\<lparr>pt_layout := pt_layout (ee_etype e)\<rparr> else ee_ptype e)"

definition reshape_output_type :: "edge_error \<Rightarrow> port_type" where
  "reshape_output_type e = (if pt_shape (ee_etype e) \<noteq> []
     then (ee_ptype e)\<lparr>pt_shape := pt_shape (ee_etype e)\<rparr> else ee_ptype e)"

definition adaptor_id :: "edge_error \<Rightarrow> string" where
  "adaptor_id e = ''adaptor_'' @ ee_hint e @ ''_'' @ ee_consumer e @ ''_'' @ show_int (ee_slot e)"

definition adaptor_node :: "edge_error \<Rightarrow> string \<Rightarrow> (string \<rightharpoonup> 'v attr) \<Rightarrow> port_type \<Rightarrow> 'v graph_node" where
  "adaptor_node e op as t = \<lparr>gn_id = adaptor_id e, gn_op = op, gn_inputs = [ee_producer e], gn_attrs = as,
     gn_meta = [''synthesized_for_edge'' \<mapsto> AString (ee_reason e)], gn_input_types = [ee_ptype e],
     gn_output_type = t, gn_value = zero_value_type, gn_weights = None\<rparr>"

definition build_adaptor_node :: "edge_error \<Rightarrow> (typer_error, 'v graph_node) res" where
  "build_adaptor_node e =
     (if ee_hint e = ''cast'' then Ok (adaptor_node e ''shape.cast''
        [''dtype'' \<mapsto> ADType (pt_dtype (ee_etype e)), ''from_dtype'' \<mapsto> ADType (pt_dtype (ee_ptype e))]
        (cast_output_type e))
      else if ee_hint e = ''transpose'' then Ok (adaptor_node e ''shape.transpose''
        [''layout'' \<mapsto> ALayout (pt_layout (ee_etype e)), ''from_layout'' \<mapsto> ALayout (pt_layout (ee_ptype e))]
        (transpose_output_type e))
      else if ee_hint e = ''reshape'' then Ok (adaptor_node e ''shape.reshape''
        [''shape'' \<mapsto> AShape (pt_shape (ee_etype e)), ''from_shape'' \<mapsto> AShape (pt_shape (ee_ptype e))]
        (reshape_output_type e))
      else Err (UnknownHint (ee_hint e)))"

text \<open>The index of a node id; the last node wins, as in the map the code fills.\<close>

definition index_by_id :: "'v graph_node list \<Rightarrow> string \<rightharpoonup> nat" where
  "index_by_id ns = map_of (rev (zip (node_ids ns) [0..<length ns]))"

record synthesis_stats =
  ss_casts :: nat
  ss_transposes :: nat
  ss_reshapes :: nat
  ss_unresolved :: nat

definition count_adaptor :: "string \<Rightarrow> synthesis_stats \<Rightarrow> synthesis_stats" where
  "count_adaptor hint s =
     (if hint = ''cast'' then s\<lparr>ss_casts := ss_casts s + 1\<rparr>
      else if hint = ''transpose'' then s\<lparr>ss_transposes := ss_transposes s + 1\<rparr>
      else if hint = ''reshape'' then s\<lparr>ss_reshapes := ss_reshapes s + 1\<rparr> else s)"

definition insert_adaptor :: "edge_error \<Rightarrow> 'v graph_node list \<Rightarrow> (typer_error, 'v graph_node list) res" where
  "insert_adaptor e ns =
     rbind (build_adaptor_node e) (\<lambda>a.
     case index_by_id ns (ee_consumer e) of
       None \<Rightarrow> Err (ConsumerNotInGraph (ee_consumer e))
     | Some i \<Rightarrow>
         (let c = ns ! i in
          if ee_slot e < 0 \<or> ee_slot e \<ge> int (length (gn_inputs c))
          then Err (SlotOutOfRange (ee_consumer e) (ee_slot e))
          else Ok (take i ns @ [a, c\<lparr>gn_inputs := (gn_inputs c)[nat (ee_slot e) := gn_id a]\<rparr>] @ drop (Suc i) ns)))"

fun synthesize_loop ::
  "edge_error list \<Rightarrow> 'v graph_node list \<Rightarrow> synthesis_stats \<Rightarrow> edge_error list
     \<Rightarrow> (typer_error, 'v graph_node list \<times> synthesis_stats \<times> edge_error list) res" where
  "synthesize_loop [] ns s un = Ok (ns, s, un)"
| "synthesize_loop (e # es) ns s un =
     (if ee_hint e = [] then synthesize_loop es ns (s\<lparr>ss_unresolved := ss_unresolved s + 1\<rparr>) (un @ [e])
      else rbind (insert_adaptor e ns) (\<lambda>ns'. synthesize_loop es ns' (count_adaptor (ee_hint e) s) un))"

definition zero_synthesis :: synthesis_stats where
  "zero_synthesis = \<lparr>ss_casts = 0, ss_transposes = 0, ss_reshapes = 0, ss_unresolved = 0\<rparr>"

definition synthesize_adaptors ::
  "'v ast_graph option \<Rightarrow> edge_error list
     \<Rightarrow> (typer_error, synthesis_stats \<times> edge_error list \<times> 'v ast_graph) res" where
  "synthesize_adaptors go es = (case go of
     None \<Rightarrow> Err TyperGraphRequired
   | Some g \<Rightarrow> rbind (synthesize_loop es (g_nodes g) zero_synthesis []) (\<lambda>(ns, s, un).
       Ok (s, un, g\<lparr>g_nodes := ns\<rparr>)))"

section \<open>The loop\<close>

record typer_options =
  max_adaptor_rounds :: int
  disable_synthesis :: bool

record typer_stats =
  ty_infer :: infer_stats
  ty_synthesis :: synthesis_stats
  ty_rounds :: nat
  ty_unresolved :: "edge_error list"

definition add_synthesis :: "synthesis_stats \<Rightarrow> synthesis_stats \<Rightarrow> synthesis_stats" where
  "add_synthesis s d = \<lparr>ss_casts = ss_casts s + ss_casts d, ss_transposes = ss_transposes s + ss_transposes d,
     ss_reshapes = ss_reshapes s + ss_reshapes d, ss_unresolved = ss_unresolved d\<rparr>"

text \<open>\<open>rounds\<close> counts the rounds that are left.\<close>

fun typer_rounds ::
  "nat \<Rightarrow> bool \<Rightarrow> 'v spec_lookup \<Rightarrow> 'v ast_graph \<Rightarrow> typer_stats \<Rightarrow> (typer_error, typer_stats \<times> 'v ast_graph) res" where
  "typer_rounds 0 off L g st = Err (NotConverged (ty_rounds st))"
| "typer_rounds (Suc rounds) off L g st =
     rbind (infer L (Some g)) (\<lambda>(ist, es, g).
     let st = st\<lparr>ty_infer := ist, ty_rounds := ty_rounds st + 1\<rparr> in
     if es = [] then Ok (st, g)
     else if off then Ok (st\<lparr>ty_unresolved := es\<rparr>, g)
     else rbind (synthesize_adaptors (Some g) es) (\<lambda>(d, un, g).
       let st = st\<lparr>ty_synthesis := add_synthesis (ty_synthesis st) d\<rparr> in
       if un \<noteq> [] then Err (HardFailure un)
       else if ss_casts d + ss_transposes d + ss_reshapes d = 0 then Ok (st\<lparr>ty_unresolved := es\<rparr>, g)
       else typer_rounds rounds off L g st))"

definition typer_run ::
  "'v spec_lookup \<Rightarrow> 'v ast_graph option \<Rightarrow> typer_options \<Rightarrow> (typer_error, typer_stats \<times> 'v ast_graph) res" where
  "typer_run L go opts = (case go of
     None \<Rightarrow> Err TyperGraphRequired
   | Some g \<Rightarrow> typer_rounds (if max_adaptor_rounds opts \<le> 0 then 3 else nat (max_adaptor_rounds opts))
       (disable_synthesis opts) L g
       \<lparr>ty_infer = \<lparr>is_nodes_typed = 0, is_edges_unified = 0, is_bindings_resolved = 0\<rparr>,
        ty_synthesis = zero_synthesis, ty_rounds = 0, ty_unresolved = []\<rparr>)"

end
