(* ===== verification/Typer_Sound.thy ===== *)
theory Typer_Sound
  imports Typer_Infer Execution_Plan
begin

text \<open>
  What the typer guarantees. Inference types every node of an ordered graph from the final types of its
  producers and reports exactly the edges that do not unify. Adaptor synthesis keeps the graph ordered,
  and taking the adaptors out again gives back the graph. The loop of the two ends after its
  second round, which re-checks nothing; the type that synthesis gives to a transpose adaptor is not the
  one its own deriver computes.
\<close>

section \<open>Inference on an ordered graph\<close>

definition slot_bound :: "'v op_spec \<Rightarrow> (string \<rightharpoonup> port_type) \<Rightarrow> nat \<Rightarrow> string \<Rightarrow> port_type" where
  "slot_bound spec types i x = (let p = producer_type types x in
     case unify p (slot_type spec i p) of Inl _ \<Rightarrow> p | Inr (u, _) \<Rightarrow> u)"

definition slot_errors ::
  "'v graph_node \<Rightarrow> 'v op_spec \<Rightarrow> (string \<rightharpoonup> port_type) \<Rightarrow> nat \<Rightarrow> string \<Rightarrow> edge_error list" where
  "slot_errors n spec types i x = (let p = producer_type types x in
     case unify p (slot_type spec i p) of
       Inl e \<Rightarrow> [edge_error_from_unify n i x p (slot_type spec i p) e] | Inr _ \<Rightarrow> [])"

lemma unify_node_inputs_spec:
  "\<exists>b'. unify_node_inputs n spec types i xs b =
     (map2 (slot_bound spec types) [i..<i + length xs] xs,
      concat (map2 (slot_errors n spec types) [i..<i + length xs] xs), b')"
proof (induction xs arbitrary: i b)
  case (Cons x xs)
  have up: "[i..<i + length (x # xs)] = i # [Suc i..<Suc i + length xs]" by (simp add: upt_conv_Cons del: upt_Suc)
  show ?case
  proof (cases "unify (producer_type types x) (slot_type spec i (producer_type types x))")
    case (Inl e)
    obtain b' where "unify_node_inputs n spec types (Suc i) xs b =
      (map2 (slot_bound spec types) [Suc i..<Suc i + length xs] xs,
       concat (map2 (slot_errors n spec types) [Suc i..<Suc i + length xs] xs), b')" using Cons.IH by blast
    with Inl show ?thesis unfolding up by (simp add: slot_bound_def slot_errors_def Let_def del: upt.simps)
  next
    case (Inr r)
    obtain u m where r: "r = (u, m)" by (cases r)
    obtain b' where "unify_node_inputs n spec types (Suc i) xs (b ++ m) =
      (map2 (slot_bound spec types) [Suc i..<Suc i + length xs] xs,
       concat (map2 (slot_errors n spec types) [Suc i..<Suc i + length xs] xs), b')" using Cons.IH by blast
    with Inr r show ?thesis unfolding up by (simp add: slot_bound_def slot_errors_def Let_def del: upt.simps)
  qed
qed simp

definition node_errors :: "'v spec_lookup \<Rightarrow> (string \<rightharpoonup> port_type) \<Rightarrow> 'v graph_node \<Rightarrow> edge_error list" where
  "node_errors L types n = (case L (gn_op n) of
     None \<Rightarrow> []
   | Some spec \<Rightarrow> concat (map2 (slot_errors n spec types) [0..<length (gn_inputs n)] (gn_inputs n)))"

text \<open>
  A node is typed from its producers: each input has the unified type of what arrives and what the slot
  asks for (or what arrives, where they do not unify), and the output is what the operation's deriver
  gives for those inputs. A node of an unknown operation passes the type of its first known input on.
\<close>

definition typed_from :: "'v spec_lookup \<Rightarrow> (string \<rightharpoonup> port_type) \<Rightarrow> 'v graph_node \<Rightarrow> bool" where
  "typed_from L types n \<longleftrightarrow> (case L (gn_op n) of
     None \<Rightarrow> gn_input_types n = best_effort_input_types n types \<and> gn_output_type n = best_effort_passthrough n types
   | Some spec \<Rightarrow> gn_input_types n = map2 (slot_bound spec types) [0..<length (gn_inputs n)] (gn_inputs n)
       \<and> (\<exists>t b b'. derive_output_type (n\<lparr>gn_output_type := t\<rparr>) spec (gn_input_types n) b = Ok (gn_output_type n, b')))"

lemma map2_cong_snd: "(\<And>i x. x \<in> set xs \<Longrightarrow> f i x = g i x) \<Longrightarrow> map2 f is xs = map2 g is xs"
  by (auto dest: set_zip_rightD)

lemma producer_type_cong: "types x = types' x \<Longrightarrow> producer_type types x = producer_type types' x"
  by (simp add: producer_type_def)

lemma typed_from_cong:
  assumes "\<And>x. x \<in> set (gn_inputs n) \<Longrightarrow> types x = types' x"
  shows "typed_from L types n \<longleftrightarrow> typed_from L types' n" and "node_errors L types n = node_errors L types' n"
proof -
  have p: "x \<in> set (gn_inputs n) \<Longrightarrow> producer_type types x = producer_type types' x" for x
    using assms by (intro producer_type_cong)
  have b: "map2 (slot_bound spec types) [0..<length (gn_inputs n)] (gn_inputs n) =
      map2 (slot_bound spec types') [0..<length (gn_inputs n)] (gn_inputs n)" for spec :: "'a op_spec"
    by (rule map2_cong_snd) (simp add: slot_bound_def p)
  have e: "map2 (slot_errors n spec types) [0..<length (gn_inputs n)] (gn_inputs n) =
      map2 (slot_errors n spec types') [0..<length (gn_inputs n)] (gn_inputs n)" for spec :: "'a op_spec"
    by (rule map2_cong_snd) (simp add: slot_errors_def p)
  have "filter (\<lambda>x. types x \<noteq> None) (gn_inputs n) = filter (\<lambda>x. types' x \<noteq> None) (gn_inputs n)"
    using assms by (intro filter_cong) auto
  moreover have "filter (\<lambda>x. types' x \<noteq> None) (gn_inputs n) = x # xs \<Longrightarrow> types x = types' x" for x xs
    using assms by (metis (no_types) filter_is_subset list.set_intros(1) subsetD)
  ultimately have f: "best_effort_passthrough n types = best_effort_passthrough n types'"
    by (auto simp: best_effort_passthrough_def split: list.splits)
  have m: "best_effort_input_types n types = best_effort_input_types n types'"
    by (auto simp: best_effort_input_types_def p)
  show "typed_from L types n \<longleftrightarrow> typed_from L types' n"
    by (simp only: typed_from_def b f m)
  show "node_errors L types n = node_errors L types' n" by (simp only: node_errors_def e)
qed

lemma infer_node_spec:
  assumes "infer_node L n s = Ok (n', s')" and "pt_dtype (gn_output_type n) = DInvalid"
  shows "gn_id n' = gn_id n" and "gn_inputs n' = gn_inputs n" and "gn_op n' = gn_op n"
    and "it_types s' = (it_types s)(gn_id n \<mapsto> gn_output_type n')"
    and "typed_from L (it_types s) n'" and "it_errors s' = it_errors s @ node_errors L (it_types s) n'"
proof -
  have "gn_id n' = gn_id n \<and> gn_inputs n' = gn_inputs n \<and> gn_op n' = gn_op n
    \<and> it_types s' = (it_types s)(gn_id n \<mapsto> gn_output_type n')
    \<and> typed_from L (it_types s) n' \<and> it_errors s' = it_errors s @ node_errors L (it_types s) n'"
  proof (cases "L (gn_op n)")
    case None
    with assms show ?thesis
      by (auto simp: infer_node_def Let_def typed_from_def node_errors_def best_effort_input_types_def
          best_effort_passthrough_def)
  next
    case (Some spec)
    obtain b where u: "unify_node_inputs n spec (it_types s) 0 (gn_inputs n) (it_bindings s) =
      (map2 (slot_bound spec (it_types s)) [0..<length (gn_inputs n)] (gn_inputs n),
       concat (map2 (slot_errors n spec (it_types s)) [0..<length (gn_inputs n)] (gn_inputs n)), b)"
      using unify_node_inputs_spec [of n spec "it_types s" 0 "gn_inputs n" "it_bindings s"] by auto
    have e: "slot_errors (n\<lparr>gn_input_types := ts, gn_output_type := t\<rparr>) = slot_errors n" for ts t
      by (intro ext) (simp add: slot_errors_def edge_error_from_unify_def Let_def split: sum.split)
    show ?thesis using assms Some
      by (auto simp: infer_node_def u typed_from_def node_errors_def e Let_def)
        (metis (no_types, lifting) graph_node.surjective graph_node.update_convs(7))
  qed
  then show "gn_id n' = gn_id n" and "gn_inputs n' = gn_inputs n" and "gn_op n' = gn_op n"
    and "it_types s' = (it_types s)(gn_id n \<mapsto> gn_output_type n')"
    and "typed_from L (it_types s) n'" and "it_errors s' = it_errors s @ node_errors L (it_types s) n'" by blast+
qed

lemma infer_nodes_env:
  assumes "infer_nodes L ns s = Ok (ns', s')" and "\<forall>n \<in> set ns. pt_dtype (gn_output_type n) = DInvalid"
  shows "map gn_id ns' = map gn_id ns \<and> map gn_inputs ns' = map gn_inputs ns \<and> map gn_op ns' = map gn_op ns
    \<and> (\<forall>x. x \<notin> gn_id ` set ns \<longrightarrow> it_types s' x = it_types s x)
    \<and> (distinct (node_ids ns) \<longrightarrow> (\<forall>n \<in> set ns'. it_types s' (gn_id n) = Some (gn_output_type n)))"
  using assms
proof (induction ns arbitrary: s ns')
  case (Cons n ns)
  from Cons.prems(1) obtain m s1 ms where r: "infer_node L n s = Ok (m, s1)" "infer_nodes L ns s1 = Ok (ms, s')"
    "ns' = m # ms" by auto
  note one = infer_node_spec [OF r(1)] and rest = Cons.IH [OF r(2)]
  from Cons.prems(2) have f: "pt_dtype (gn_output_type n) = DInvalid"
    "\<forall>n \<in> set ns. pt_dtype (gn_output_type n) = DInvalid" by simp_all
  from rest [OF f(2)] one(4) [OF f(1)] one(1-3) [OF f(1)] show ?case
    unfolding r(3) by auto
qed simp

lemma connectable_distinct: "connectable known ns \<Longrightarrow> distinct (node_ids ns)"
proof (induction known ns rule: connectable.induct)
  case (2 known n ns)
  then show ?case using connectable_fresh [of "insert (gn_id n) known" ns] by auto
qed simp

lemma infer_nodes_typed_from:
  assumes "infer_nodes L ns s = Ok (ns', s')" and "\<forall>n \<in> set ns. pt_dtype (gn_output_type n) = DInvalid"
    and "connectable known ns" and "[] \<notin> gn_id ` set ns"
  shows "(\<forall>n \<in> set ns'. typed_from L (it_types s') n)
    \<and> it_errors s' = it_errors s @ concat (map (node_errors L (it_types s')) ns')"
  using assms
proof (induction ns arbitrary: s ns' known)
  case (Cons n ns)
  from Cons.prems(1) obtain m s1 ms where r: "infer_node L n s = Ok (m, s1)" "infer_nodes L ns s1 = Ok (ms, s')"
    "ns' = m # ms" by auto
  from Cons.prems(2) have f: "pt_dtype (gn_output_type n) = DInvalid"
    "\<forall>n \<in> set ns. pt_dtype (gn_output_type n) = DInvalid" by simp_all
  from Cons.prems(3) have c: "gn_id n \<notin> known" "set (named (gn_inputs n)) \<subseteq> known"
    "connectable (insert (gn_id n) known) ns" by simp_all
  note one = infer_node_spec [OF r(1) f(1)]
  have rest: "(\<forall>n \<in> set ms. typed_from L (it_types s') n)
      \<and> it_errors s' = it_errors s1 @ concat (map (node_errors L (it_types s')) ms)"
    using Cons.prems(4) by (intro Cons.IH [OF r(2) f(2) c(3)]) auto
  have later: "gn_id ` set ns \<inter> known = {}"
    using connectable_fresh [OF c(3)] by auto
  have same: "it_types s x = it_types s' x" if "x \<in> set (gn_inputs m)" for x
  proof -
    have "x = [] \<or> x \<in> known" using that c(2) one(2) by (auto simp: named_def)
    then have "x \<notin> gn_id ` set ns \<and> x \<noteq> gn_id n"
    proof
      assume "x = []"
      with Cons.prems(4) show ?thesis by simp
    next
      assume "x \<in> known"
      with later c(1) show ?thesis by (metis IntI emptyE)
    qed
    then have "x \<notin> gn_id ` set ns" "x \<noteq> gn_id n" by simp_all
    moreover have "\<forall>x. x \<notin> gn_id ` set ns \<longrightarrow> it_types s' x = it_types s1 x"
      by (rule conjunct1 [OF conjunct2 [OF conjunct2 [OF conjunct2 [OF infer_nodes_env [OF r(2) f(2)]]]]])
    ultimately show ?thesis using one(4) by simp
  qed
  from typed_from_cong [where L = L and n = m and types = "it_types s" and types' = "it_types s'", OF same] rest one(5,6) show ?case unfolding r(3) by simp
qed simp

text \<open>The types that a finished graph gives to its values.\<close>

definition graph_types :: "'v ast_graph \<Rightarrow> string \<rightharpoonup> port_type" where
  "graph_types g = boundary_types g ++ map_of (map (\<lambda>n. (gn_id n, gn_output_type n)) (g_nodes g))"

lemma infer_typing:
  assumes ok: "infer L (Some g) = Ok (st, es, g')" and ordered: "connectable (set (g_inputs g)) (g_nodes g)"
    and named: "[] \<notin> gn_id ` set (g_nodes g)"
    and fresh: "\<forall>n \<in> set (g_nodes g). pt_dtype (gn_output_type n) = DInvalid"
  shows "map gn_id (g_nodes g') = map gn_id (g_nodes g) \<and> map gn_op (g_nodes g') = map gn_op (g_nodes g)
    \<and> map gn_inputs (g_nodes g') = map gn_inputs (g_nodes g)
    \<and> (\<forall>n \<in> set (g_nodes g'). typed_from L (graph_types g') n)
    \<and> es = concat (map (node_errors L (graph_types g')) (g_nodes g'))"
proof -
  from ok obtain ns s where r: "infer_nodes L (g_nodes g) (infer_start g) = Ok (ns, s)"
    "es = it_errors s" "g' = g\<lparr>g_nodes := ns, g_bindings := it_bindings s\<rparr>" by (auto simp: infer_def)
  note env = infer_nodes_env [OF r(1) fresh]
  note typed = infer_nodes_typed_from [OF r(1) fresh ordered named]
  have d: "distinct (map gn_id ns)" using env connectable_distinct [OF ordered] by simp
  have "graph_types g' = it_types s"
  proof
    fix x
    show "graph_types g' x = it_types s x"
    proof (cases "x \<in> gn_id ` set ns")
      case True
      then obtain n where n: "n \<in> set ns" "x = gn_id n" by blast
      have "map_of (map (\<lambda>n. (gn_id n, gn_output_type n)) ns) x = Some (gn_output_type n)"
        using n d by (intro map_of_is_SomeI) (auto simp: o_def)
      with n env d show ?thesis by (simp add: graph_types_def r(3) map_add_def)
    next
      case False
      then have "x \<notin> gn_id ` set (g_nodes g)" using env by (metis list.set_map)
      moreover have "map_of (map (\<lambda>n. (gn_id n, gn_output_type n)) ns) x = None"
        using False by (auto simp: map_of_eq_None_iff)
      moreover have "boundary_types g' = boundary_types g" by (simp add: boundary_types_def r(3))
      ultimately show ?thesis using env by (simp add: graph_types_def r(3) map_add_def infer_start_def)
    qed
  qed
  with env typed r(2,3) show ?thesis by (simp add: infer_start_def)
qed

text \<open>
  C7. The typing judgement that inference establishes. On a graph in dependency order with untyped
  nodes, a successful \<open>Infer\<close> leaves ids, operations and inputs of the nodes alone; in the types of the
  finished graph every node is typed from its producers; and the edge errors are exactly the slots whose
  producer type does not unify with what the slot asks for, in order. So with no edge error every edge
  of the graph unifies.
\<close>

theorem infer_types_every_edge:
  assumes "infer L (Some g) = Ok (st, es, g')" and "connectable (set (g_inputs g)) (g_nodes g)"
    and "[] \<notin> gn_id ` set (g_nodes g)"
    and "\<forall>n \<in> set (g_nodes g). pt_dtype (gn_output_type n) = DInvalid"
  shows "map gn_id (g_nodes g') = map gn_id (g_nodes g) \<and> map gn_op (g_nodes g') = map gn_op (g_nodes g)
    \<and> map gn_inputs (g_nodes g') = map gn_inputs (g_nodes g)
    \<and> (\<forall>n \<in> set (g_nodes g'). typed_from L (graph_types g') n)
    \<and> es = concat (map (node_errors L (graph_types g')) (g_nodes g'))"
  using assms by (rule infer_typing)

section \<open>The loop ends after two rounds\<close>

lemma infer_typed_nodes:
  "\<forall>n \<in> set ns. pt_dtype (gn_output_type n) \<noteq> DInvalid \<Longrightarrow>
   \<exists>s'. infer_nodes L ns s = Ok (ns, s') \<and> it_errors s' = it_errors s \<and> it_bindings s' = it_bindings s"
proof (induction ns arbitrary: s)
  case (Cons n ns)
  let ?s = "s\<lparr>it_types := (it_types s)(gn_id n \<mapsto> gn_output_type n), it_typed := it_typed s + 1\<rparr>"
  have "infer_node L n s = Ok (n, ?s)" using Cons.prems by (simp add: infer_node_def)
  moreover obtain s' where "infer_nodes L ns ?s = Ok (ns, s')" "it_errors s' = it_errors ?s" "it_bindings s' = it_bindings ?s"
    using Cons.IH [of ?s] Cons.prems by auto
  ultimately show ?case by simp
qed simp

text \<open>Once every node has a type, inference checks nothing and changes nothing.\<close>

lemma infer_typed_graph:
  assumes "\<forall>n \<in> set (g_nodes g). pt_dtype (gn_output_type n) \<noteq> DInvalid"
  shows "\<exists>st. infer L (Some g) = Ok (st, [], g)"
proof -
  obtain s' where "infer_nodes L (g_nodes g) (infer_start g) = Ok (g_nodes g, s')" "it_errors s' = []"
    "it_bindings s' = g_bindings g"
    using infer_typed_nodes [OF assms, of L "infer_start g"] by (auto simp: infer_start_def)
  then show ?thesis by (simp add: infer_def)
qed

lemma index_by_id_Some:
  "index_by_id ns x = Some i \<Longrightarrow> i < length ns \<and> gn_id (ns ! i) = x"
  "n \<in> set ns \<Longrightarrow> \<exists>i. index_by_id ns (gn_id n) = Some i"
proof -
  assume "index_by_id ns x = Some i"
  then have "(x, i) \<in> set (zip (node_ids ns) [0..<length ns])" by (auto simp: index_by_id_def dest: map_of_SomeD)
  then show "i < length ns \<and> gn_id (ns ! i) = x" by (auto simp: in_set_zip)
next
  assume "n \<in> set ns"
  then have "gn_id n \<in> fst ` set (zip (node_ids ns) [0..<length ns])"
    by (metis image_eqI length_map length_upt list.set_map map_fst_zip minus_nat.diff_0)
  then show "\<exists>i. index_by_id ns (gn_id n) = Some i"
    by (metis (no_types) image_iff index_by_id_def map_of_eq_None_iff not_Some_eq set_rev)
qed

section \<open>The edge errors of a graph\<close>

lemma slot_errors_fields:
  "e \<in> set (slot_errors n spec types i x) \<Longrightarrow>
     ee_consumer e = gn_id n \<and> ee_slot e = int i \<and> ee_producer e = x \<and> ee_hint e \<in> {[], ''cast'', ''transpose''}"
proof -
  have "adaptor_hint u \<in> {[], ''cast'', ''transpose''}" for u by (induction u) auto
  then show "e \<in> set (slot_errors n spec types i x) \<Longrightarrow>
     ee_consumer e = gn_id n \<and> ee_slot e = int i \<and> ee_producer e = x \<and> ee_hint e \<in> {[], ''cast'', ''transpose''}"
    by (auto simp: slot_errors_def Let_def edge_error_from_unify_def split: sum.splits unify_error.split)
qed

lemma slots_of_errors:
  "distinct (map ee_slot (concat (map2 (slot_errors n spec types) [k..<k + length xs] xs))) \<and>
   (\<forall>e \<in> set (concat (map2 (slot_errors n spec types) [k..<k + length xs] xs)).
      int k \<le> ee_slot e \<and> ee_slot e < int (k + length xs) \<and> ee_producer e = xs ! nat (ee_slot e - int k)
      \<and> ee_consumer e = gn_id n \<and> ee_hint e \<in> {[], ''cast'', ''transpose''})"
proof (induction xs arbitrary: k)
  case (Cons x xs)
  define T where "T = concat (map2 (slot_errors n spec types) [Suc k..<Suc k + length xs] xs)"
  have up: "[k..<k + length (x # xs)] = k # [Suc k..<Suc k + length xs]" by (simp add: upt_conv_Cons del: upt_Suc)
  have all: "concat (map2 (slot_errors n spec types) [k..<k + length (x # xs)] (x # xs)) = slot_errors n spec types k x @ T"
    unfolding up T_def by simp
  note tl = Cons.IH [of "Suc k", folded T_def]
  have T: "int k < ee_slot e \<and> ee_slot e < int (k + length (x # xs)) \<and> ee_producer e = (x # xs) ! nat (ee_slot e - int k)
      \<and> ee_consumer e = gn_id n \<and> ee_hint e \<in> {[], ''cast'', ''transpose''}" if "e \<in> set T" for e
  proof -
    from bspec [OF conjunct2 [OF tl] that] have b: "int (Suc k) \<le> ee_slot e" "ee_slot e < int (Suc k + length xs)"
      "ee_producer e = xs ! nat (ee_slot e - int (Suc k))" "ee_consumer e = gn_id n"
      "ee_hint e \<in> {[], ''cast'', ''transpose''}" by simp_all
    then have "nat (ee_slot e - int k) = Suc (nat (ee_slot e - int (Suc k)))" by simp
    with b show ?thesis by simp
  qed
  have "length (slot_errors n spec types k x) \<le> 1" by (auto simp: slot_errors_def Let_def split: sum.split)
  then consider "slot_errors n spec types k x = []" | e where "slot_errors n spec types k x = [e]"
    by (cases "slot_errors n spec types k x") auto
  then show ?case
  proof cases
    case 1
    with tl T show ?thesis unfolding all by (auto simp: less_imp_le)
  next
    case (2 e)
    with slot_errors_fields [of e n spec types k x] tl T show ?thesis unfolding all by (fastforce simp: less_imp_le)
  qed
qed simp

lemma node_errors_fields:
  "distinct (map ee_slot (node_errors L types n))"
  "e \<in> set (node_errors L types n) \<Longrightarrow> ee_consumer e = gn_id n \<and> 0 \<le> ee_slot e \<and> ee_slot e < int (length (gn_inputs n))
     \<and> ee_producer e = gn_inputs n ! nat (ee_slot e) \<and> ee_hint e \<in> {[], ''cast'', ''transpose''}"
proof -
  have "distinct (map ee_slot (node_errors L types n)) \<and> (\<forall>e \<in> set (node_errors L types n).
      ee_consumer e = gn_id n \<and> 0 \<le> ee_slot e \<and> ee_slot e < int (length (gn_inputs n))
      \<and> ee_producer e = gn_inputs n ! nat (ee_slot e) \<and> ee_hint e \<in> {[], ''cast'', ''transpose''})"
  proof (cases "L (gn_op n)")
    case (Some spec)
    with slots_of_errors [of n spec types 0 "gn_inputs n"] show ?thesis unfolding node_errors_def by simp
  qed (simp add: node_errors_def)
  then show "distinct (map ee_slot (node_errors L types n))"
    and "e \<in> set (node_errors L types n) \<Longrightarrow> ee_consumer e = gn_id n \<and> 0 \<le> ee_slot e \<and> ee_slot e < int (length (gn_inputs n))
     \<and> ee_producer e = gn_inputs n ! nat (ee_slot e) \<and> ee_hint e \<in> {[], ''cast'', ''transpose''}" by blast+
qed

section \<open>Adaptor names\<close>

lemma adaptor_id_inj:
  assumes "ee_hint e \<in> {''cast'', ''transpose''}" and "ee_hint e' \<in> {''cast'', ''transpose''}"
    and eq: "adaptor_id e = adaptor_id e'"
  shows "ee_consumer e = ee_consumer e' \<and> ee_slot e = ee_slot e'"
proof -
  have "ee_hint e = ee_hint e'" using assms by (auto simp: adaptor_id_def)
  with eq have "ee_consumer e @ ''_'' @ show_int (ee_slot e) = ee_consumer e' @ ''_'' @ show_int (ee_slot e')"
    by (simp add: adaptor_id_def)
  then have "rev (show_int (ee_slot e)) @ CHR ''_'' # rev (ee_consumer e) =
      rev (show_int (ee_slot e')) @ CHR ''_'' # rev (ee_consumer e')"
    by (metis (no_types, lifting) append.assoc append_Cons append_Nil rev.simps(2) rev_append rev_singleton_conv)
  moreover have "CHR ''_'' \<notin> set (rev (show_int i))" for i using show_int_digits [of "CHR ''_''" i] by auto
  ultimately have "rev (show_int (ee_slot e)) = rev (show_int (ee_slot e')) \<and> rev (ee_consumer e) = rev (ee_consumer e')"
    by (intro split_at)
  then show ?thesis by (simp add: show_int_inj)
qed

lemma adaptor_id_nonempty: "adaptor_id e \<noteq> []"
  by (simp add: adaptor_id_def)

section \<open>Inserting adaptors\<close>

text \<open>The edge errors \<open>es\<close> name distinct slots of the nodes \<open>ns\<close> and what arrives there.\<close>

definition repairable :: "edge_error list \<Rightarrow> 'v graph_node list \<Rightarrow> bool" where
  "repairable es ns \<longleftrightarrow> distinct (map (\<lambda>e. (ee_consumer e, ee_slot e)) es) \<and>
     (\<forall>e \<in> set es. ee_hint e \<in> {''cast'', ''transpose''} \<and> 0 \<le> ee_slot e \<and> ee_consumer e \<in> gn_id ` set ns
       \<and> (\<forall>n \<in> set ns. gn_id n = ee_consumer e \<longrightarrow>
            ee_slot e < int (length (gn_inputs n)) \<and> gn_inputs n ! nat (ee_slot e) = ee_producer e))"

definition adaptor_source :: "edge_error list \<Rightarrow> string \<Rightarrow> string" where
  "adaptor_source es x = (case map_of (map (\<lambda>e. (adaptor_id e, ee_producer e)) es) x of Some p \<Rightarrow> p | None \<Rightarrow> x)"

text \<open>Taking the adaptors of \<open>es\<close> out: their consumers read from the producers again.\<close>

definition bypass :: "edge_error list \<Rightarrow> 'v graph_node list \<Rightarrow> 'v graph_node list" where
  "bypass es ns = map (\<lambda>n. n\<lparr>gn_inputs := map (adaptor_source es) (gn_inputs n)\<rparr>)
     (filter (\<lambda>n. gn_id n \<notin> adaptor_id ` set es) ns)"

definition all_typed :: "'v graph_node list \<Rightarrow> bool" where
  "all_typed ns \<longleftrightarrow> (\<forall>n \<in> set ns. pt_dtype (gn_output_type n) \<noteq> DInvalid)"

lemma build_adaptor_ok:
  assumes "ee_hint e \<in> {''cast'', ''transpose''}"
  shows "\<exists>a. build_adaptor_node e = Ok a \<and> gn_id a = adaptor_id e \<and> gn_inputs a = [ee_producer e]
    \<and> (pt_dtype (ee_ptype e) \<noteq> DInvalid \<longrightarrow> pt_dtype (gn_output_type a) \<noteq> DInvalid)"
  using assms by (auto simp: build_adaptor_node_def adaptor_node_def cast_output_type_def transpose_output_type_def)

lemma insert_adaptor_split:
  fixes ns :: "'v graph_node list"
  assumes "repairable (e # es) ns"
  obtains us c vs a where "ns = us @ c # vs" and "gn_id c = ee_consumer e" and "build_adaptor_node e = Ok a"
    and "gn_id a = adaptor_id e" and "gn_inputs a = [ee_producer e]"
    and "pt_dtype (ee_ptype e) \<noteq> DInvalid \<Longrightarrow> pt_dtype (gn_output_type a) \<noteq> DInvalid"
    and "nat (ee_slot e) < length (gn_inputs c)" and "gn_inputs c ! nat (ee_slot e) = ee_producer e"
    and "insert_adaptor e ns = Ok (us @ a # c\<lparr>gn_inputs := (gn_inputs c)[nat (ee_slot e) := adaptor_id e]\<rparr> # vs)"
proof -
  obtain a :: "'v graph_node" where a: "build_adaptor_node e = Ok a" "gn_id a = adaptor_id e"
    "gn_inputs a = [ee_producer e]" "pt_dtype (ee_ptype e) \<noteq> DInvalid \<longrightarrow> pt_dtype (gn_output_type a) \<noteq> DInvalid"
    using build_adaptor_ok [of e] assms by (auto simp: repairable_def)
  from assms have "ee_consumer e \<in> gn_id ` set ns" by (simp add: repairable_def)
  then obtain i where i: "index_by_id ns (ee_consumer e) = Some i" using index_by_id_Some(2) by fastforce
  note ix = index_by_id_Some(1) [OF i]
  have r: "0 \<le> ee_slot e" "ee_slot e < int (length (gn_inputs (ns ! i)))" "gn_inputs (ns ! i) ! nat (ee_slot e) = ee_producer e"
    using assms ix by (auto simp: repairable_def)
  show thesis
  proof (rule that [of "take i ns" "ns ! i" "drop (Suc i) ns" a])
    show "ns = take i ns @ (ns ! i) # drop (Suc i) ns" using ix by (simp add: id_take_nth_drop)
  qed (use a i r ix in \<open>auto simp: insert_adaptor_def Let_def\<close>)
qed

lemma connectable_append:
  "connectable known (us @ vs) \<longleftrightarrow> connectable known us \<and> connectable (known \<union> gn_id ` set us) vs"
  by (induction us arbitrary: known) (auto simp: insert_is_Un [symmetric] Un_assoc [symmetric])

lemma connectable_insert: "connectable known ns \<Longrightarrow> x \<notin> gn_id ` set ns \<Longrightarrow> connectable (insert x known) ns"
  by (induction known ns rule: connectable.induct) (auto simp: insert_commute)

lemma connectable_inputs:
  "connectable known ns \<Longrightarrow> n \<in> set ns \<Longrightarrow> x \<in> set (gn_inputs n) \<Longrightarrow> x = [] \<or> x \<in> known \<union> gn_id ` set ns"
  by (induction known ns rule: connectable.induct) (auto simp: named_def)

lemma insert_adaptor_ordered:
  assumes split: "ns = us @ c # vs" "gn_id a = adaptor_id e" "gn_inputs a = [ee_producer e]"
      "nat (ee_slot e) < length (gn_inputs c)" "gn_inputs c ! nat (ee_slot e) = ee_producer e"
    and fresh: "adaptor_id e \<notin> known \<union> gn_id ` set ns" and ordered: "connectable known ns"
  shows "connectable known (us @ a # c\<lparr>gn_inputs := (gn_inputs c)[nat (ee_slot e) := adaptor_id e]\<rparr> # vs)"
proof -
  let ?K = "known \<union> gn_id ` set us"
  from ordered have c: "connectable known us" "gn_id c \<notin> ?K" "set (named (gn_inputs c)) \<subseteq> ?K"
    "connectable (insert (gn_id c) ?K) vs" by (simp_all add: split(1) connectable_append)
  have "ee_producer e \<in> set (gn_inputs c)" using split(4,5) by (metis nth_mem)
  then have "set (named [ee_producer e]) \<subseteq> ?K" using c(3) by (auto simp: named_def)
  moreover have "set (named ((gn_inputs c)[nat (ee_slot e) := adaptor_id e])) \<subseteq> insert (adaptor_id e) ?K"
    using c(3) set_update_subset_insert [of "gn_inputs c" "nat (ee_slot e)" "adaptor_id e"] by (auto simp: named_def)
  moreover have "connectable (insert (gn_id c) (insert (adaptor_id e) ?K)) vs"
    using connectable_insert [OF c(4), of "adaptor_id e"] fresh split(1) by (auto simp: insert_commute)
  ultimately show ?thesis using c(1,2) fresh split(1-3) by (auto simp: connectable_append)
qed

lemma insert_adaptor_bypass:
  assumes split: "ns = us @ c # vs" "gn_id a = adaptor_id e"
      "nat (ee_slot e) < length (gn_inputs c)" "gn_inputs c ! nat (ee_slot e) = ee_producer e"
    and fresh: "adaptor_id e \<notin> known \<union> gn_id ` set ns" and ordered: "connectable known ns"
  shows "bypass [e] (us @ a # c\<lparr>gn_inputs := (gn_inputs c)[nat (ee_slot e) := adaptor_id e]\<rparr> # vs) = ns"
proof -
  let ?src = "adaptor_source [e]"
  have src: "?src x = (if x = adaptor_id e then ee_producer e else x)" for x by (simp add: adaptor_source_def)
  have keep: "map ?src (gn_inputs n) = gn_inputs n" if "n \<in> set ns" for n
  proof (rule map_idI)
    fix x assume "x \<in> set (gn_inputs n)"
    from connectable_inputs [OF ordered that this] fresh adaptor_id_nonempty [of e] show "?src x = x" by (auto simp: src)
  qed
  have same: "map (\<lambda>n. n\<lparr>gn_inputs := map ?src (gn_inputs n)\<rparr>) (filter (\<lambda>n. gn_id n \<notin> adaptor_id ` set [e]) ws) = ws"
    if "set ws \<subseteq> set ns" for ws
  proof -
    have "filter (\<lambda>n. gn_id n \<notin> adaptor_id ` set [e]) ws = ws"
    proof (rule filter_True, rule ballI)
      fix x assume "x \<in> set ws"
      then have "gn_id x \<in> gn_id ` set ns" using that by blast
      with fresh show "gn_id x \<notin> adaptor_id ` set [e]" by auto
    qed
    moreover have "map (\<lambda>n. n\<lparr>gn_inputs := map ?src (gn_inputs n)\<rparr>) ws = ws"
      using that keep by (intro map_idI) auto
    ultimately show ?thesis by simp
  qed
  have "map ?src ((gn_inputs c)[nat (ee_slot e) := adaptor_id e]) = gn_inputs c"
  proof -
    have "map ?src ((gn_inputs c)[nat (ee_slot e) := adaptor_id e]) = (gn_inputs c)[nat (ee_slot e) := ee_producer e]"
      using keep [of c] split(1) by (simp add: map_update src)
    with split(3,4) show ?thesis by (metis list_update_id)
  qed
  moreover have "gn_id c \<noteq> adaptor_id e" using fresh split(1) by auto
  moreover have "set us \<subseteq> set ns" "set vs \<subseteq> set ns" using split(1) by auto
  ultimately show ?thesis using same [of us] same [of vs] split(1,2) by (simp add: bypass_def)
qed

lemma insert_adaptor_repairable:
  assumes rep: "repairable (e # es) ns" and split: "ns = us @ c # vs" "gn_id c = ee_consumer e" "gn_id a = adaptor_id e"
    and fresh: "adaptor_id e \<notin> known \<union> gn_id ` set ns"
  shows "repairable es (us @ a # c\<lparr>gn_inputs := (gn_inputs c)[nat (ee_slot e) := adaptor_id e]\<rparr> # vs)"
  unfolding repairable_def
proof (intro conjI ballI impI)
  from rep show "distinct (map (\<lambda>e. (ee_consumer e, ee_slot e)) es)" by (simp add: repairable_def)
  fix e' assume e': "e' \<in> set es"
  with rep have r: "ee_hint e' \<in> {''cast'', ''transpose''}" "0 \<le> ee_slot e'" "ee_consumer e' \<in> gn_id ` set ns"
    "\<And>n. n \<in> set ns \<Longrightarrow> gn_id n = ee_consumer e' \<Longrightarrow>
        ee_slot e' < int (length (gn_inputs n)) \<and> gn_inputs n ! nat (ee_slot e') = ee_producer e'"
    by (simp_all add: repairable_def)
  show "ee_hint e' \<in> {''cast'', ''transpose''}" "0 \<le> ee_slot e'" by (fact r)+
  let ?c = "c\<lparr>gn_inputs := (gn_inputs c)[nat (ee_slot e) := adaptor_id e]\<rparr>"
  show "ee_consumer e' \<in> gn_id ` set (us @ a # ?c # vs)" using r(3) split(1) by auto
  fix n assume n: "n \<in> set (us @ a # ?c # vs)" "gn_id n = ee_consumer e'"
  have "adaptor_id e \<noteq> ee_consumer e'" using r(3) fresh by auto
  with n split(3) consider "n \<in> set ns" | "n = ?c" using split(1) by auto
  then have "ee_slot e' < int (length (gn_inputs n)) \<and> gn_inputs n ! nat (ee_slot e') = ee_producer e'"
  proof cases
    case 1
    with r(4) n(2) show ?thesis by blast
  next
    case 2
    with n(2) have id: "gn_id c = ee_consumer e'" by simp
    have "(ee_consumer e, ee_slot e) \<noteq> (ee_consumer e', ee_slot e')" using rep e' by (auto simp: repairable_def)
    moreover have "0 \<le> ee_slot e" using rep by (simp add: repairable_def)
    ultimately have "nat (ee_slot e) \<noteq> nat (ee_slot e')" using id split(2) r(2) by auto
    with 2 r(4) [of c] id split(1) show ?thesis by simp
  qed
  then show "ee_slot e' < int (length (gn_inputs n))" "gn_inputs n ! nat (ee_slot e') = ee_producer e'" by blast+
qed

lemma adaptor_source_Cons:
  assumes "adaptor_id e \<notin> ee_producer ` set es" and "adaptor_id e \<notin> adaptor_id ` set es"
  shows "adaptor_source (e # es) x = adaptor_source [e] (adaptor_source es x)"
proof (cases "map_of (map (\<lambda>e. (adaptor_id e, ee_producer e)) es) x")
  case None
  then show ?thesis by (simp add: adaptor_source_def)
next
  case (Some p)
  then have "(x, p) \<in> set (map (\<lambda>e. (adaptor_id e, ee_producer e)) es)" by (rule map_of_SomeD)
  then obtain e' where "e' \<in> set es" "x = adaptor_id e'" "p = ee_producer e'" by auto
  with assms have "x \<noteq> adaptor_id e" "p \<noteq> adaptor_id e" by (metis imageI)+
  with Some show ?thesis by (simp add: adaptor_source_def)
qed

lemma bypass_Cons:
  assumes "adaptor_id e \<notin> ee_producer ` set es" and "adaptor_id e \<notin> adaptor_id ` set es"
  shows "bypass (e # es) ns = bypass [e] (bypass es ns)"
  by (simp add: bypass_def filter_map o_def adaptor_source_Cons [OF assms] conj_commute)

lemma repairable_producer:
  assumes "repairable es ns" and "connectable known ns" and "e \<in> set es"
  shows "ee_producer e = [] \<or> ee_producer e \<in> known \<union> gn_id ` set ns"
proof -
  from assms(1,3) obtain n where "n \<in> set ns" "ee_slot e < int (length (gn_inputs n))" "0 \<le> ee_slot e"
    "gn_inputs n ! nat (ee_slot e) = ee_producer e" by (fastforce simp: repairable_def)
  then have "ee_producer e \<in> set (gn_inputs n)" by (metis nat_less_iff nth_mem)
  with connectable_inputs [OF assms(2) \<open>n \<in> set ns\<close>] show ?thesis by blast
qed

lemma synthesize_loop_spec:
  assumes "repairable es ns" and "connectable known ns" and "\<forall>e \<in> set es. adaptor_id e \<notin> known \<union> gn_id ` set ns"
  shows "\<exists>ns' s'. synthesize_loop es ns s un = Ok (ns', s', un) \<and> connectable known ns' \<and> bypass es ns' = ns
    \<and> (all_typed ns \<and> (\<forall>e \<in> set es. pt_dtype (ee_ptype e) \<noteq> DInvalid) \<longrightarrow> all_typed ns')
    \<and> ss_casts s' + ss_transposes s' + ss_reshapes s' = ss_casts s + ss_transposes s + ss_reshapes s + length es"
  using assms
proof (induction es arbitrary: ns s)
  case Nil
  have "adaptor_source [] = (\<lambda>x. x)" by (simp add: fun_eq_iff adaptor_source_def)
  with Nil show ?case by (simp add: bypass_def)
next
  case (Cons e es)
  obtain us c vs a where split: "ns = us @ c # vs" "gn_id c = ee_consumer e" "gn_id a = adaptor_id e"
    "gn_inputs a = [ee_producer e]" "pt_dtype (ee_ptype e) \<noteq> DInvalid \<Longrightarrow> pt_dtype (gn_output_type a) \<noteq> DInvalid"
    "nat (ee_slot e) < length (gn_inputs c)" "gn_inputs c ! nat (ee_slot e) = ee_producer e"
    and ins: "insert_adaptor e ns = Ok (us @ a # c\<lparr>gn_inputs := (gn_inputs c)[nat (ee_slot e) := adaptor_id e]\<rparr> # vs)"
    using insert_adaptor_split [OF Cons.prems(1)] by metis
  define ns1 where "ns1 = us @ a # c\<lparr>gn_inputs := (gn_inputs c)[nat (ee_slot e) := adaptor_id e]\<rparr> # vs"
  have fresh: "adaptor_id e \<notin> known \<union> gn_id ` set ns" using Cons.prems(3) by simp
  have r1: "repairable es ns1"
    unfolding ns1_def using insert_adaptor_repairable [OF Cons.prems(1) split(1-3) fresh] .
  have o1: "connectable known ns1"
    unfolding ns1_def using insert_adaptor_ordered [OF split(1,3,4,6,7) fresh Cons.prems(2)] .
  have b1: "bypass [e] ns1 = ns"
    unfolding ns1_def using insert_adaptor_bypass [OF split(1,3,6,7) fresh Cons.prems(2)] .
  have other: "adaptor_id e' \<noteq> adaptor_id e" if "e' \<in> set es" for e'
  proof
    assume eq: "adaptor_id e' = adaptor_id e"
    have h: "ee_hint x \<in> {''cast'', ''transpose''}" if "x \<in> set (e # es)" for x
      using Cons.prems(1) that unfolding repairable_def by blast
    have "ee_consumer e' = ee_consumer e \<and> ee_slot e' = ee_slot e"
      by (rule adaptor_id_inj [OF h h eq]) (simp_all add: that)
    moreover have "(ee_consumer e, ee_slot e) \<notin> (\<lambda>e. (ee_consumer e, ee_slot e)) ` set es"
      using Cons.prems(1) by (simp add: repairable_def)
    ultimately show False using that by (metis (mono_tags, lifting) image_eqI)
  qed
  have ids: "gn_id ` set ns1 = insert (adaptor_id e) (gn_id ` set ns)" by (auto simp: ns1_def split(1,3))
  have "\<forall>e' \<in> set es. adaptor_id e' \<notin> known \<union> gn_id ` set ns1" using Cons.prems(3) other by (auto simp: ids)
  from Cons.IH [OF r1 o1 this, of "count_adaptor (ee_hint e) s"] obtain ns' s' where
    l: "synthesize_loop es ns1 (count_adaptor (ee_hint e) s) un = Ok (ns', s', un)" "connectable known ns'"
    "bypass es ns' = ns1" and typed: "all_typed ns1 \<and> (\<forall>e \<in> set es. pt_dtype (ee_ptype e) \<noteq> DInvalid) \<longrightarrow> all_typed ns'"
    and count: "ss_casts s' + ss_transposes s' + ss_reshapes s' = ss_casts (count_adaptor (ee_hint e) s)
       + ss_transposes (count_adaptor (ee_hint e) s) + ss_reshapes (count_adaptor (ee_hint e) s) + length es" by blast
  have hint: "ee_hint e \<in> {''cast'', ''transpose''}" using Cons.prems(1) by (simp add: repairable_def)
  have "adaptor_id e \<notin> ee_producer ` set es"
  proof
    assume "adaptor_id e \<in> ee_producer ` set es"
    then obtain e' where e': "e' \<in> set (e # es)" "ee_producer e' = adaptor_id e" by (metis imageE list.set_intros(2))
    from repairable_producer [OF Cons.prems(1,2) e'(1)] fresh adaptor_id_nonempty [of e] show False
      unfolding e'(2) by simp
  qed
  moreover have "adaptor_id e \<notin> adaptor_id ` set es"
  proof
    assume "adaptor_id e \<in> adaptor_id ` set es"
    then obtain e' where "e' \<in> set es" "adaptor_id e = adaptor_id e'" by (rule imageE)
    from other [OF this(1)] this(2) show False by simp
  qed
  ultimately have "bypass (e # es) ns' = ns" using bypass_Cons [of e es ns'] l(3) b1 by simp
  moreover have "synthesize_loop (e # es) ns s un = Ok (ns', s', un)" using ins l(1) hint by (auto simp: ns1_def)
  moreover have "all_typed ns \<and> (\<forall>e \<in> set (e # es). pt_dtype (ee_ptype e) \<noteq> DInvalid) \<longrightarrow> all_typed ns'"
  proof
    assume all: "all_typed ns \<and> (\<forall>e \<in> set (e # es). pt_dtype (ee_ptype e) \<noteq> DInvalid)"
    then have "all_typed ns1" using split(1,5) by (simp add: all_typed_def ns1_def)
    with typed all show "all_typed ns'" by simp
  qed
  moreover have "ss_casts s' + ss_transposes s' + ss_reshapes s' = ss_casts s + ss_transposes s + ss_reshapes s + length (e # es)"
    using count hint by (auto simp: count_adaptor_def)
  ultimately show ?case using l(2) by blast
qed

section \<open>The loop\<close>

lemma errors_repairable:
  assumes "distinct (node_ids ns)" and "\<forall>e \<in> set (concat (map (node_errors L types) ns)). ee_hint e \<noteq> []"
  shows "repairable (concat (map (node_errors L types) ns)) ns"
proof -
  let ?es = "\<lambda>ms. concat (map (node_errors L types) ms)"
  have "distinct (map (\<lambda>e. (ee_consumer e, ee_slot e)) (?es ms)) \<and> (\<forall>e \<in> set (?es ms). ee_consumer e \<in> gn_id ` set ms)"
    if "distinct (node_ids ms)" for ms
    using that
  proof (induction ms)
    case (Cons m ms)
    have one: "ee_consumer e = gn_id m" if "e \<in> set (node_errors L types m)" for e using node_errors_fields(2) [OF that] by blast
    have "distinct (map (\<lambda>e. (ee_consumer e, ee_slot e)) (node_errors L types m))"
      using node_errors_fields(1) [of L types m] by (auto simp: distinct_map inj_on_def)
    moreover have "ee_consumer e \<noteq> ee_consumer e'" if "e \<in> set (node_errors L types m)" "e' \<in> set (?es ms)" for e e'
    proof -
      have "\<forall>e \<in> set (?es ms). ee_consumer e \<in> gn_id ` set ms" using Cons by simp
      from bspec [OF this that(2)] have "ee_consumer e' \<in> gn_id ` set ms" .
      moreover have "gn_id m \<notin> gn_id ` set ms" using Cons.prems by simp
      ultimately show ?thesis using one [OF that(1)] by metis
    qed
    ultimately show ?case using Cons one by (auto simp: distinct_map)
  qed simp
  note d = this [OF assms(1)]
  show ?thesis
    unfolding repairable_def
  proof (intro conjI ballI impI)
    show "distinct (map (\<lambda>e. (ee_consumer e, ee_slot e)) (?es ns))" using d by blast
    fix e assume e: "e \<in> set (?es ns)"
    then obtain m where m: "m \<in> set ns" "e \<in> set (node_errors L types m)" by auto
    note f = node_errors_fields(2) [OF m(2)]
    from f assms(2) e show "ee_hint e \<in> {''cast'', ''transpose''}" by auto
    from f show "0 \<le> ee_slot e" by blast
    from f m(1) show "ee_consumer e \<in> gn_id ` set ns" by auto
    fix n assume "n \<in> set ns" "gn_id n = ee_consumer e"
    then have "n = m" using f m(1) assms(1) by (metis distinct_map inj_onD)
    with f show "ee_slot e < int (length (gn_inputs n))" "gn_inputs n ! nat (ee_slot e) = ee_producer e" by auto
  qed
qed

definition ready_to_type :: "'v ast_graph \<Rightarrow> bool" where
  "ready_to_type g \<longleftrightarrow> connectable (set (g_inputs g)) (g_nodes g) \<and> [] \<notin> gn_id ` set (g_nodes g)
     \<and> (\<forall>n \<in> set (g_nodes g). pt_dtype (gn_output_type n) = DInvalid)"

text \<open>Every edge error has a hint, and no value of the graph has the name of an adaptor.\<close>

definition resolvable :: "'v ast_graph \<Rightarrow> edge_error list \<Rightarrow> bool" where
  "resolvable g es \<longleftrightarrow>
     (\<forall>e \<in> set es. ee_hint e \<noteq> [] \<and> adaptor_id e \<notin> set (g_inputs g) \<union> gn_id ` set (g_nodes g))"

lemma connectable_cong:
  "map gn_id ns = map gn_id ms \<Longrightarrow> map gn_inputs ns = map gn_inputs ms \<Longrightarrow> connectable known ns \<longleftrightarrow> connectable known ms"
proof (induction ns arbitrary: ms known)
  case (Cons n ns)
  then show ?case by (cases ms) auto
qed simp

lemma synthesis_after_infer:
  assumes ok: "infer L (Some g) = Ok (st, es, g1)" and ready: "ready_to_type g" and res: "resolvable g es"
  shows "\<exists>d g2. synthesize_adaptors (Some g1) es = Ok (d, [], g2) \<and> g_inputs g2 = g_inputs g
    \<and> connectable (set (g_inputs g)) (g_nodes g2) \<and> bypass es (g_nodes g2) = g_nodes g1
    \<and> (all_typed (g_nodes g1) \<and> (\<forall>e \<in> set es. pt_dtype (ee_ptype e) \<noteq> DInvalid) \<longrightarrow> all_typed (g_nodes g2))
    \<and> ss_casts d + ss_transposes d + ss_reshapes d = length es"
proof -
  from ready have ready': "connectable (set (g_inputs g)) (g_nodes g)" "[] \<notin> gn_id ` set (g_nodes g)"
    "\<forall>n \<in> set (g_nodes g). pt_dtype (gn_output_type n) = DInvalid" unfolding ready_to_type_def by blast+
  note t = infer_typing [OF ok ready']
  have ids: "map gn_id (g_nodes g1) = map gn_id (g_nodes g)" and ins: "map gn_inputs (g_nodes g1) = map gn_inputs (g_nodes g)"
    and es: "es = concat (map (node_errors L (graph_types g1)) (g_nodes g1))" using t by blast+
  have inputs: "g_inputs g1 = g_inputs g" using ok by (auto simp: infer_def)
  have set_ids: "gn_id ` set (g_nodes g1) = gn_id ` set (g_nodes g)" using ids by (metis list.set_map)
  have o1: "connectable (set (g_inputs g)) (g_nodes g1)" using connectable_cong [OF ids ins] ready'(1) by blast
  have "repairable es (g_nodes g1)"
    unfolding es using res es by (intro errors_repairable connectable_distinct [OF o1]) (simp add: resolvable_def)
  moreover have "\<forall>e \<in> set es. adaptor_id e \<notin> set (g_inputs g) \<union> gn_id ` set (g_nodes g1)"
    using res by (simp add: resolvable_def set_ids)
  ultimately obtain ns2 s2 where "synthesize_loop es (g_nodes g1) zero_synthesis [] = Ok (ns2, s2, [])"
    "connectable (set (g_inputs g)) ns2" "bypass es ns2 = g_nodes g1"
    "all_typed (g_nodes g1) \<and> (\<forall>e \<in> set es. pt_dtype (ee_ptype e) \<noteq> DInvalid) \<longrightarrow> all_typed ns2"
    "ss_casts s2 + ss_transposes s2 + ss_reshapes s2 =
       ss_casts zero_synthesis + ss_transposes zero_synthesis + ss_reshapes zero_synthesis + length es"
    using synthesize_loop_spec [OF _ o1] by blast
  then show ?thesis by (simp add: synthesize_adaptors_def inputs zero_synthesis_def)
qed

text \<open>
  C24. Adaptors are transparent. After inference on a graph in dependency order whose edge errors can all
  be resolved, synthesis succeeds, the graph with the adaptors is still in dependency order, and
  taking the adaptors out and letting their consumers read the producers again gives back the
  graph that was typed, so no other edge was touched.
\<close>

theorem adaptors_are_transparent:
  assumes "infer L (Some g) = Ok (st, es, g1)" and "ready_to_type g" and "resolvable g es"
  shows "\<exists>d g2. synthesize_adaptors (Some g1) es = Ok (d, [], g2)
    \<and> connectable (set (g_inputs g2)) (g_nodes g2) \<and> bypass es (g_nodes g2) = g_nodes g1"
  using synthesis_after_infer [OF assms] by auto

lemma run_after_synthesis:
  assumes ok: "infer L (Some g) = Ok (st, es, g1)" and "ready_to_type g" and "resolvable g es" and "es \<noteq> []"
    and typed: "all_typed (g_nodes g1)" "\<forall>e \<in> set es. pt_dtype (ee_ptype e) \<noteq> DInvalid"
    and opts: "\<not> disable_synthesis opts" "max_adaptor_rounds opts \<noteq> 1"
  shows "\<exists>d g2 ts. synthesize_adaptors (Some g1) es = Ok (d, [], g2) \<and> typer_run L (Some g) opts = Ok (ts, g2)
    \<and> ty_rounds ts = 2 \<and> ty_unresolved ts = []"
proof -
  obtain d g2 where s: "synthesize_adaptors (Some g1) es = Ok (d, [], g2)" "all_typed (g_nodes g2)"
    "ss_casts d + ss_transposes d + ss_reshapes d = length es"
    using synthesis_after_infer [OF ok assms(2,3)] typed by blast
  from s(2) obtain st2 where again: "infer L (Some g2) = Ok (st2, [], g2)"
    using infer_typed_graph [of g2 L] by (auto simp: all_typed_def)
  define r where "r = (if max_adaptor_rounds opts \<le> 0 then 3 else nat (max_adaptor_rounds opts))"
  have "\<exists>k. r = Suc (Suc k)" using opts(2) by (intro exI [of _ "r - 2"]) (auto simp: r_def)
  then obtain k where "r = Suc (Suc k)" ..
  with ok s(1,3) again opts(1) \<open>es \<noteq> []\<close> show ?thesis
    by (simp add: typer_run_def r_def [symmetric] Let_def)
qed

text \<open>
  C25. The loop of inference and synthesis ends in its second round. If the first inference types every
  node and its edge errors can all be resolved, \<open>Run\<close> succeeds after two rounds with the graph that
  the first synthesis made, whatever those adaptors produce: the second inference skips typed nodes.
\<close>

theorem run_ends_in_two_rounds:
  assumes "infer L (Some g) = Ok (st, es, g1)" and "ready_to_type g" and "resolvable g es" and "es \<noteq> []"
    and "all_typed (g_nodes g1)" and "\<forall>e \<in> set es. pt_dtype (ee_ptype e) \<noteq> DInvalid"
    and "\<not> disable_synthesis opts" and "max_adaptor_rounds opts \<noteq> 1"
  shows "\<exists>d g2 ts. synthesize_adaptors (Some g1) es = Ok (d, [], g2) \<and> typer_run L (Some g) opts = Ok (ts, g2)
    \<and> ty_rounds ts = 2 \<and> ty_unresolved ts = []"
  using assms by (rule run_after_synthesis)

section \<open>Concrete graphs\<close>

definition table_lookup :: "int spec_lookup" where
  "table_lookup = lookup_spec (spec_table id) (\<lambda>_. None)"

definition fresh_node :: "string \<Rightarrow> string \<Rightarrow> string list \<Rightarrow> int graph_node" where
  "fresh_node s op is = \<lparr>gn_id = s, gn_op = op, gn_inputs = is, gn_attrs = Map.empty, gn_meta = Map.empty,
     gn_input_types = [], gn_output_type = zero_port_type, gn_value = zero_value_type, gn_weights = None\<rparr>"

definition fresh_graph :: "int graph_node list \<Rightarrow> string list \<Rightarrow> int ast_graph" where
  "fresh_graph ns is = \<lparr>g_nodes = ns, g_inputs = is, g_outputs = [], g_dtype = Float32, g_bindings = Map.empty\<rparr>"

text \<open>A rotary embedding whose positions arrive as floats: one cast is needed.\<close>

definition rope_graph :: "int ast_graph" where
  "rope_graph = fresh_graph [fresh_node ''r'' ''positional.rope'' [''hidden_states'', ''timestep''],
     fresh_node ''y'' ''activation.relu'' [''r'']] [''hidden_states'', ''timestep'']"

definition check_inference :: "int ast_graph \<Rightarrow> bool" where
  "check_inference g = (case infer_nodes table_lookup (g_nodes g) (infer_start g) of
     Inl _ \<Rightarrow> False
   | Inr (ns, s) \<Rightarrow> length (it_errors s) = 1 \<and> list_all (\<lambda>n. pt_dtype (gn_output_type n) \<noteq> DInvalid) ns
       \<and> list_all (\<lambda>e. ee_hint e \<noteq> [] \<and> pt_dtype (ee_ptype e) \<noteq> DInvalid
            \<and> adaptor_id e \<notin> set (g_inputs g @ node_ids (g_nodes g))) (it_errors s))"

lemma check_inference_ok:
  assumes "check_inference g"
  shows "\<exists>st es g1. infer table_lookup (Some g) = Ok (st, es, g1) \<and> resolvable g es \<and> es \<noteq> []
    \<and> all_typed (g_nodes g1) \<and> (\<forall>e \<in> set es. pt_dtype (ee_ptype e) \<noteq> DInvalid)"
proof -
  obtain ns s where r: "infer_nodes table_lookup (g_nodes g) (infer_start g) = Ok (ns, s)"
    using assms by (auto simp: check_inference_def split: sum.splits)
  with assms have c: "length (it_errors s) = 1" "\<forall>n \<in> set ns. pt_dtype (gn_output_type n) \<noteq> DInvalid"
    "\<forall>e \<in> set (it_errors s). ee_hint e \<noteq> [] \<and> pt_dtype (ee_ptype e) \<noteq> DInvalid
       \<and> adaptor_id e \<notin> set (g_inputs g) \<union> gn_id ` set (g_nodes g)"
    by (auto simp: check_inference_def list_all_iff)
  then have "resolvable g (it_errors s)" "it_errors s \<noteq> []" "\<forall>e \<in> set (it_errors s). pt_dtype (ee_ptype e) \<noteq> DInvalid"
    by (auto simp: resolvable_def)
  moreover have "infer table_lookup (Some g) =
      Ok (\<lparr>is_nodes_typed = it_typed s, is_edges_unified = it_unified s, is_bindings_resolved = card (dom (it_bindings s))\<rparr>,
          it_errors s, g\<lparr>g_nodes := ns, g_bindings := it_bindings s\<rparr>)" using r by (simp add: infer_def)
  ultimately show ?thesis using c(2) by (simp add: all_typed_def)
qed

lemma rope_graph_checks: "check_inference rope_graph"
  by code_simp

lemma rope_graph_ready: "ready_to_type rope_graph"
  by (simp add: ready_to_type_def rope_graph_def fresh_graph_def fresh_node_def zero_port_type_def named_def)

theorem infer_types_every_edge_witness:
  "\<exists>st es g'. infer table_lookup (Some rope_graph) = Ok (st, es, g')
    \<and> (\<forall>n \<in> set (g_nodes g'). typed_from table_lookup (graph_types g') n)"
proof -
  obtain st es g' where i: "infer table_lookup (Some rope_graph) = Ok (st, es, g')"
    using check_inference_ok [OF rope_graph_checks] by blast
  from rope_graph_ready infer_types_every_edge [OF i] have "\<forall>n \<in> set (g_nodes g'). typed_from table_lookup (graph_types g') n"
    unfolding ready_to_type_def by blast
  with i show ?thesis by blast
qed

theorem adaptors_are_transparent_witness:
  "\<exists>st es g1 d g2. infer table_lookup (Some rope_graph) = Ok (st, es, g1) \<and> es \<noteq> []
    \<and> synthesize_adaptors (Some g1) es = Ok (d, [], g2) \<and> bypass es (g_nodes g2) = g_nodes g1"
proof -
  obtain st es g1 where i: "infer table_lookup (Some rope_graph) = Ok (st, es, g1)" "resolvable rope_graph es" "es \<noteq> []"
    using check_inference_ok [OF rope_graph_checks] by blast
  from adaptors_are_transparent [OF i(1) rope_graph_ready i(2)] obtain d g2
    where "synthesize_adaptors (Some g1) es = Ok (d, [], g2)" "bypass es (g_nodes g2) = g_nodes g1" by blast
  with i(1,3) show ?thesis by blast
qed

theorem run_ends_in_two_rounds_witness:
  "\<exists>ts g2. typer_run table_lookup (Some rope_graph) \<lparr>max_adaptor_rounds = 0, disable_synthesis = False\<rparr> = Ok (ts, g2)
    \<and> ty_rounds ts = 2"
proof -
  obtain st es g1 where i: "infer table_lookup (Some rope_graph) = Ok (st, es, g1)" "resolvable rope_graph es" "es \<noteq> []"
    "all_typed (g_nodes g1)" "\<forall>e \<in> set es. pt_dtype (ee_ptype e) \<noteq> DInvalid"
    using check_inference_ok [OF rope_graph_checks] by blast
  from run_ends_in_two_rounds [OF i(1) rope_graph_ready i(2-5), of "\<lparr>max_adaptor_rounds = 0, disable_synthesis = False\<rparr>"]
  show ?thesis by auto
qed

text \<open>
  Hidden states fed to a token embedding: a format mismatch, which a cast would repair, hides a
  mismatch of the semantic kind, which nothing repairs.
\<close>

definition embed_graph :: "int ast_graph" where
  "embed_graph = fresh_graph [fresh_node ''e'' ''embedding.token'' [''hidden_states'']] [''hidden_states'']"

definition check_rejected :: "int ast_graph \<Rightarrow> bool" where
  "check_rejected g = (case infer_nodes table_lookup (g_nodes g) (infer_start g) of
     Inl _ \<Rightarrow> False
   | Inr (ns, s) \<Rightarrow> (case synthesize_loop (it_errors s) ns zero_synthesis [] of
       Inl _ \<Rightarrow> False
     | Inr (ns2, d, un) \<Rightarrow> un = [] \<and> list_ex (\<lambda>e. ee_hint e = [])
        (concat (map (node_errors table_lookup
           (boundary_types g ++ map_of (map (\<lambda>n. (gn_id n, gn_output_type n)) ns2))) ns2))))"

lemma embed_graph_checks: "check_inference embed_graph \<and> check_rejected embed_graph"
  by code_simp

text \<open>
  C31. Because the second round re-checks nothing, \<open>Run\<close> accepts a graph with an edge that no adaptor
  can repair, if the first mismatch found on the edge is one that an adaptor repairs: feeding hidden states
  to a token embedding is accepted with a cast, although the kinds of the two ends of the edge then still
  differ, which \<open>Run\<close> documents as a hard failure.
\<close>

theorem run_accepts_kind_mismatch:
  "\<exists>ts g2. typer_run table_lookup (Some embed_graph) \<lparr>max_adaptor_rounds = 0, disable_synthesis = False\<rparr> = Ok (ts, g2)
    \<and> ty_unresolved ts = [] \<and> (\<exists>n \<in> set (g_nodes g2). \<exists>e \<in> set (node_errors table_lookup (graph_types g2) n). ee_hint e = [])"
proof -
  have ready: "ready_to_type embed_graph"
    by (simp add: ready_to_type_def embed_graph_def fresh_graph_def fresh_node_def zero_port_type_def named_def)
  have chk: "check_inference embed_graph" "check_rejected embed_graph" using embed_graph_checks by simp_all
  obtain st es g1 where i: "infer table_lookup (Some embed_graph) = Ok (st, es, g1)" "resolvable embed_graph es" "es \<noteq> []"
    "all_typed (g_nodes g1)" "\<forall>e \<in> set es. pt_dtype (ee_ptype e) \<noteq> DInvalid"
    using check_inference_ok [OF chk(1)] by blast
  obtain d g2 ts where r: "synthesize_adaptors (Some g1) es = Ok (d, [], g2)" "ty_unresolved ts = []"
    "typer_run table_lookup (Some embed_graph) \<lparr>max_adaptor_rounds = 0, disable_synthesis = False\<rparr> = Ok (ts, g2)"
    using run_after_synthesis [OF i(1) ready i(2-5), of "\<lparr>max_adaptor_rounds = 0, disable_synthesis = False\<rparr>"] by auto
  from i(1) obtain ns s where n: "infer_nodes table_lookup (g_nodes embed_graph) (infer_start embed_graph) = Ok (ns, s)"
    "es = it_errors s" "g1 = embed_graph\<lparr>g_nodes := ns, g_bindings := it_bindings s\<rparr>" by (auto simp: infer_def)
  from r(1) n(3) obtain ns2 d2 un where l: "synthesize_loop es ns zero_synthesis [] = Ok (ns2, d2, un)"
    "g2 = g1\<lparr>g_nodes := ns2\<rparr>" by (auto simp: synthesize_adaptors_def)
  have "graph_types g2 = boundary_types embed_graph ++ map_of (map (\<lambda>n. (gn_id n, gn_output_type n)) ns2)"
    by (simp add: graph_types_def boundary_types_def l(2) n(3))
  with chk(2) n(1,2) l have "\<exists>n \<in> set ns2. \<exists>e \<in> set (node_errors table_lookup (graph_types g2) n). ee_hint e = []"
    by (auto simp: check_rejected_def list_ex_iff)
  with r l(2) show ?thesis by auto
qed

section \<open>Adaptor types and their derivers\<close>

lemma canonical_axis_simps:
  "0 < rank \<Longrightarrow> canonical_axis 0 rank = Ok 0"
  "canonical_axis 1 rank = (if rank = 0 then Err AxisOfScalar else if rank = 1 then Err (AxisOutOfRange 1 1) else Ok 1)"
  by (auto simp: canonical_axis_def)

text \<open>
  The output type that synthesis stores in an adaptor, against the type that the deriver of the
  adaptor's operation computes for it. They agree on a cast. On a transpose they agree only where
  the first two dimensions of the tensor are equal: the adaptor changes the layout, the operation
  swaps its first two dimensions.
\<close>

theorem adaptor_type_matches_deriver:
  assumes "build_adaptor_node e = Ok a"
  shows "(ee_hint e = ''cast'' \<longrightarrow> derive_cast_output a [ee_ptype e] b = Ok (gn_output_type a))
    \<and> (ee_hint e = ''transpose'' \<longrightarrow> (derive_transpose_output tr a [ee_ptype e] b = Ok (gn_output_type a)
         \<longleftrightarrow> 2 \<le> length (pt_shape (ee_ptype e)) \<and> pt_shape (ee_ptype e) ! 0 = pt_shape (ee_ptype e) ! 1))"
proof (intro conjI impI)
  assume "ee_hint e = ''cast''"
  with assms have a: "a = adaptor_node e ''shape.cast''
      [''dtype'' \<mapsto> ADType (pt_dtype (ee_etype e)), ''from_dtype'' \<mapsto> ADType (pt_dtype (ee_ptype e))] (cast_output_type e)"
    by (simp add: build_adaptor_node_def)
  show "derive_cast_output a [ee_ptype e] b = Ok (gn_output_type a)"
    by (simp add: a derive_cast_output_def first_input_def adaptor_node_def cast_output_type_def)
next
  assume "ee_hint e = ''transpose''"
  with assms have a: "a = adaptor_node e ''shape.transpose''
      [''layout'' \<mapsto> ALayout (pt_layout (ee_etype e)), ''from_layout'' \<mapsto> ALayout (pt_layout (ee_ptype e))] (transpose_output_type e)"
    by (simp add: build_adaptor_node_def)
  let ?ds = "pt_shape (ee_ptype e)"
  have attrs: "gn_attrs a ''layout'' = Some (ALayout (pt_layout (ee_etype e)))" "gn_attrs a ''dim0'' = None"
    "gn_attrs a ''dim1'' = None" and out: "gn_output_type a = transpose_output_type e" by (simp_all add: a adaptor_node_def)
  have d: "derive_transpose_output tr a [ee_ptype e] b =
     (if ?ds = [] then Err (RankTooLow ''shape.transpose'')
      else if length ?ds = 1 then Err (InOperand ''dim1'' (AxisOutOfRange 1 1))
      else Ok ((ee_ptype e)\<lparr>pt_shape := ?ds[0 := ?ds ! 1, 1 := ?ds ! 0],
         pt_layout := if pt_layout (ee_etype e) \<noteq> LayoutUnspecified then pt_layout (ee_etype e) else pt_layout (ee_ptype e)\<rparr>))"
    by (simp add: derive_transpose_output_def first_input_def attrs config_int64_def canonical_axis_simps Let_def)
  have swap: "?ds[0 := ?ds ! 1, 1 := ?ds ! 0] = ?ds \<longleftrightarrow> ?ds ! 0 = ?ds ! 1" if "2 \<le> length ?ds"
    using that by (cases ?ds; cases "tl ?ds") auto
  show "derive_transpose_output tr a [ee_ptype e] b = Ok (gn_output_type a)
      \<longleftrightarrow> 2 \<le> length ?ds \<and> ?ds ! 0 = ?ds ! 1"
  proof (cases "2 \<le> length ?ds")
    case True
    then have "?ds \<noteq> []" "length ?ds \<noteq> 1" by auto
    with True d swap show ?thesis
      unfolding out transpose_output_type_def by (cases "ee_ptype e") auto
  next
    case False
    then have "?ds = [] \<or> length ?ds = 1" by (cases ?ds) (auto simp: Suc_le_eq)
    with False d show ?thesis by auto
  qed
qed

definition strided_error :: edge_error where
  "strided_error = \<lparr>ee_producer = ''p'', ee_consumer = ''c'', ee_slot = 0,
     ee_ptype = zero_port_type\<lparr>pt_dtype := Float32, pt_layout := LayoutStrided,
        pt_shape := [new_static_dimension 2, new_static_dimension 3]\<rparr>,
     ee_etype = zero_port_type\<lparr>pt_layout := LayoutContiguous\<rparr>, ee_reason = [], ee_hint = ''transpose''\<rparr>"

theorem adaptor_type_matches_deriver_witness:
  "\<exists>a :: int graph_node. build_adaptor_node strided_error = Ok a
    \<and> derive_transpose_output id a [ee_ptype strided_error] Map.empty \<noteq> Ok (gn_output_type a)"
proof -
  obtain a :: "int graph_node" where a: "build_adaptor_node strided_error = Ok a"
    by (simp add: build_adaptor_node_def strided_error_def)
  from adaptor_type_matches_deriver [OF this, of Map.empty id] show ?thesis
    using a by (auto simp: strided_error_def new_static_dimension_def)
qed

end
