(* ===== verification/Topology_Expand.thy ===== *)
theory Topology_Expand
  imports Ast_Graph Go_Text
begin

text \<open>
  The parsed topology of \<open>ast/topology.go\<close> and the materialisation of its \<open>repeat\<close> templates
  (\<open>compiler/topology_expand.go\<close>). \<open>ANil\<close> is a nil \<open>any\<close>. \<open>tr\<close> is Go's conversion of a float to an integer.
  A negative repeat count makes the \<open>make\<close> of the result slice panic, which is \<open>ExpandPanic\<close>; a capacity
  beyond the memory, which panics too, is not modelled.
\<close>

section \<open>The parsed topology\<close>

record 'v weight_spec =
  wsp_weight :: string
  wsp_bias :: string
  wsp_axis :: string
  wsp_start :: "'v attr"
  wsp_end :: "'v attr"

datatype 'v top_node =
  TopNode (tn_id: string) (tn_op: string) (tn_in: "string list") (tn_out: "string list")
    (tn_config: "string \<Rightarrow> 'v attr option") (tn_repeat: "'v attr") (tn_index: string) (tn_offset: "'v attr")
    (tn_template: "'v top_node list") (tn_weights: "'v weight_spec option")

record 'v ast_topology =
  at_inputs :: "string list"
  at_outputs :: "(string \<times> string) list"
  at_nodes :: "'v top_node list"
  at_bindings :: symbol_map

section \<open>Replacing index tokens\<close>

text \<open>
  \<open>strings.Replacer\<close>: from left to right without overlaps; at each position the first pair in argument
  order whose old string starts there. No old string is empty here.
\<close>

definition matching_pair :: "(string \<times> string) list \<Rightarrow> string \<Rightarrow> (string \<times> string) option" where
  "matching_pair rs s = find (\<lambda>(old, new). old \<noteq> [] \<and> take (length old) s = old) rs"

function replace_text :: "(string \<times> string) list \<Rightarrow> string \<Rightarrow> string" where
  "replace_text rs [] = []"
| "replace_text rs (c # cs) = (case matching_pair rs (c # cs) of
     None \<Rightarrow> c # replace_text rs cs
   | Some (old, new) \<Rightarrow> new @ replace_text rs (drop (length old - 1) cs))"
  by pat_completeness auto
termination by (relation "measure (\<lambda>(rs, s). length s)") (auto simp: le_imp_less_Suc)

declare replace_text.simps(2) [simp del]

definition safe_prev :: "string \<Rightarrow> int" where
  "safe_prev s = (case parse_int64 s of None \<Rightarrow> 0 | Some v \<Rightarrow> wrap64 (v - 1))"

definition index_token :: "string \<Rightarrow> string" where
  "index_token s = ''${'' @ s @ ''}''"

definition new_index_replacer ::
  "string \<Rightarrow> string \<Rightarrow> string \<Rightarrow> string \<Rightarrow> string \<Rightarrow> string \<Rightarrow> string \<Rightarrow> (string \<times> string) list" where
  "new_index_replacer v index prev next_lit offset prev_offset next_offset =
     (let prev_value = show_int (safe_prev index) in
      [(index_token v, index),
       (index_token (v @ ''+1''), next_lit),
       (index_token (v @ ''-1''), prev_value),
       (index_token (''next_'' @ v), next_lit),
       (index_token (''prev_'' @ v), prev_value),
       (index_token (''offset_'' @ v), offset),
       (index_token (''next_offset_'' @ v), next_offset),
       (index_token (''prev_offset_'' @ v), prev_offset)])"

definition index_replacer :: "string \<Rightarrow> int \<Rightarrow> int \<Rightarrow> (string \<times> string) list" where
  "index_replacer v index offset = new_index_replacer v (show_int index) (show_int index) (show_int (wrap64 (index + 1)))
     (show_int (wrap64 (index + offset))) (show_int (wrap64 (wrap64 (index + offset) - 1)))
     (show_int (wrap64 (wrap64 (index + offset) + 1)))"

section \<open>Substitution in a node\<close>

fun substitute_config_value :: "(string \<times> string) list \<Rightarrow> 'v attr \<Rightarrow> 'v attr" where
  "substitute_config_value rs (AString s) = (let t = replace_text rs s in
     case parse_int64 (trim_space t) of Some i \<Rightarrow> AInt i | None \<Rightarrow> AString t)"
| "substitute_config_value rs (AList vs) = AList (map (substitute_config_value rs) vs)"
| "substitute_config_value rs (AMap kvs) = AMap (map (\<lambda>(k, v). (k, substitute_config_value rs v)) kvs)"
| "substitute_config_value rs v = v"

definition substitute_config ::
  "(string \<times> string) list \<Rightarrow> (string \<Rightarrow> 'v attr option) \<Rightarrow> (string \<Rightarrow> 'v attr option)" where
  "substitute_config rs c = (\<lambda>k. map_option (substitute_config_value rs) (c k))"

definition substitute_node :: "'v top_node \<Rightarrow> string \<Rightarrow> int \<Rightarrow> int \<Rightarrow> 'v top_node" where
  "substitute_node n v index offset =
     (let rs = index_replacer v index offset in
      TopNode (replace_text rs (tn_id n)) (tn_op n) (map (replace_text rs) (tn_in n)) (map (replace_text rs) (tn_out n))
        (substitute_config rs (tn_config n)) ANil [] ANil []
        (map_option (\<lambda>w. \<lparr>wsp_weight = replace_text rs (wsp_weight w), wsp_bias = replace_text rs (wsp_bias w),
           wsp_axis = wsp_axis w, wsp_start = substitute_config_value rs (wsp_start w),
           wsp_end = substitute_config_value rs (wsp_end w)\<rparr>) (tn_weights n)))"

section \<open>Expansion\<close>

datatype expand_error =
    RepeatCountRequired | InvalidRepeatCount string | UnsupportedRepeatCount
  | EmptyTemplate string | NestedRepeat string | InRepeat string expand_error | ExpandPanic

definition is_repeat_node :: "'v top_node \<Rightarrow> bool" where
  "is_repeat_node n = (let op = to_lower (trim_space (tn_op n)) in
     op = ''control.repeat'' \<or> ((case tn_repeat n of ANil \<Rightarrow> False | _ \<Rightarrow> True) \<and> op = []))"

definition repeat_count :: "('v \<Rightarrow> int) \<Rightarrow> 'v attr \<Rightarrow> (expand_error, int) res" where
  "repeat_count tr raw = (case raw of
     AInt i \<Rightarrow> Ok i | AInt64 i \<Rightarrow> Ok i | AFloat64 x \<Rightarrow> Ok (tr x)
   | AString s \<Rightarrow> (case parse_int64 (trim_space s) of Some i \<Rightarrow> Ok i | None \<Rightarrow> Err (InvalidRepeatCount s))
   | ANil \<Rightarrow> Err RepeatCountRequired
   | _ \<Rightarrow> Err UnsupportedRepeatCount)"

definition repeat_offset :: "('v \<Rightarrow> int) \<Rightarrow> 'v attr \<Rightarrow> (expand_error, int) res" where
  "repeat_offset tr raw = (case raw of ANil \<Rightarrow> Ok 0 | _ \<Rightarrow> repeat_count tr raw)"

definition index_variable :: "'v top_node \<Rightarrow> string" where
  "index_variable n = (let v = trim_space (tn_index n) in if v = [] then ''i'' else v)"

fun expand_instance :: "'v top_node \<Rightarrow> int \<Rightarrow> int \<Rightarrow> 'v top_node list \<Rightarrow> (expand_error, 'v top_node list) res" where
  "expand_instance n index offset [] = Ok []"
| "expand_instance n index offset (t # ts) =
     (if is_repeat_node t then Err (NestedRepeat (tn_id n))
      else rbind (expand_instance n index offset ts) (\<lambda>ns.
        Ok (substitute_node t (index_variable n) index offset # ns)))"

definition expand_repeat_node :: "('v \<Rightarrow> int) \<Rightarrow> 'v top_node \<Rightarrow> (expand_error, 'v top_node list) res" where
  "expand_repeat_node tr n =
     rbind (map_err (InRepeat (tn_id n)) (repeat_count tr (tn_repeat n))) (\<lambda>count.
     rbind (map_err (InRepeat (tn_id n)) (repeat_offset tr (tn_offset n))) (\<lambda>offset.
     if tn_template n = [] then Err (EmptyTemplate (tn_id n))
     else if wrap64 (count * int (length (tn_template n))) < 0 then Err ExpandPanic
     else rbind (traverse (\<lambda>i. expand_instance n (int i) offset (tn_template n)) [0..<nat count]) (\<lambda>nss.
       Ok (concat nss))))"

definition expand_topology :: "('v \<Rightarrow> int) \<Rightarrow> 'v ast_topology \<Rightarrow> (expand_error, 'v ast_topology) res" where
  "expand_topology tr t =
     rbind (traverse (\<lambda>n. if is_repeat_node n then expand_repeat_node tr n else Ok [n]) (at_nodes t)) (\<lambda>nss.
     Ok (t\<lparr>at_nodes := concat nss\<rparr>))"

section \<open>What substitution does to a name\<close>

lemma replace_text_plain: "CHR ''$'' \<notin> set s \<Longrightarrow> list_all (\<lambda>(old, new). hd old = CHR ''$'') rs \<Longrightarrow>
  replace_text rs (s @ t) = s @ replace_text rs t"
proof (induction s)
  case (Cons c s)
  have "matching_pair rs ((c # s) @ t) = None"
    unfolding matching_pair_def find_None_iff
  proof
    assume "\<exists>x. x \<in> set rs \<and> (case x of (old, new) \<Rightarrow> old \<noteq> [] \<and> take (length old) ((c # s) @ t) = old)"
    then obtain old new where o: "(old, new) \<in> set rs" "old \<noteq> []" "take (length old) ((c # s) @ t) = old" by auto
    then have "hd old = c" by (cases old) auto
    moreover have "hd old = CHR ''$''" using Cons.prems(2) o(1) by (auto simp: list_all_iff)
    ultimately show False using Cons.prems(1) by simp
  qed
  with Cons show ?case by (simp add: replace_text.simps)
qed simp

lemma index_replacer_tokens: "list_all (\<lambda>(old, new). hd old = CHR ''$'') (index_replacer v index offset)"
  by (simp add: index_replacer_def new_index_replacer_def index_token_def Let_def)

lemma replace_match:
  assumes "matching_pair rs (old @ t) = Some (old, new)" and "old \<noteq> []"
  shows "replace_text rs (old @ t) = new @ replace_text rs t"
  using assms by (cases old) (simp_all add: replace_text.simps)

text \<open>A token starts with another one only if it is the same token: names hold no closing brace.\<close>

lemma token_prefix_iff:
  assumes "CHR ''}'' \<notin> set a" and "CHR ''}'' \<notin> set b"
  shows "take (length (index_token a)) (index_token b @ t) = index_token a \<longleftrightarrow> a = b"
proof
  assume "take (length (index_token a)) (index_token b @ t) = index_token a"
  then have "index_token b @ t = index_token a @ drop (length (index_token a)) (index_token b @ t)"
    by (metis append_take_drop_id)
  then obtain u where "b @ CHR ''}'' # t = a @ CHR ''}'' # u" by (auto simp: index_token_def)
  from split_at [OF assms(2,1) this] show "a = b" by simp
qed (simp add: index_token_def)

lemma index_token_nonempty: "index_token a \<noteq> []"
  by (simp add: index_token_def)

lemma replace_index_token:
  assumes v: "CHR ''}'' \<notin> set v" and i: "in64 index"
  shows "replace_text (index_replacer v index offset) (index_token v @ t)
      = show_int index @ replace_text (index_replacer v index offset) t"
    and "replace_text (index_replacer v index offset) (index_token (''next_'' @ v) @ t)
      = show_int (wrap64 (index + 1)) @ replace_text (index_replacer v index offset) t"
proof -
  let ?rs = "index_replacer v index offset"
  have tk: "take (length (index_token a)) (index_token b @ t) = index_token a \<longleftrightarrow> a = b"
    if "CHR ''}'' \<notin> set a" "CHR ''}'' \<notin> set b" for a b using token_prefix_iff [OF that] .
  have "matching_pair ?rs (index_token v @ t) = Some (index_token v, show_int index)"
    using v by (simp add: matching_pair_def index_replacer_def new_index_replacer_def Let_def index_token_nonempty)
  then show "replace_text ?rs (index_token v @ t) = show_int index @ replace_text ?rs t"
    by (rule replace_match) (rule index_token_nonempty)
  have ne: "v \<noteq> ''next_'' @ v" "v @ ''+1'' \<noteq> ''next_'' @ v" "v @ ''-1'' \<noteq> ''next_'' @ v"
    by (auto dest: arg_cong [where f = length])
  have "matching_pair ?rs (index_token (''next_'' @ v) @ t) = Some (index_token (''next_'' @ v), show_int (wrap64 (index + 1)))"
    using v ne tk [of v "''next_'' @ v"] tk [of "v @ ''+1''" "''next_'' @ v"] tk [of "v @ ''-1''" "''next_'' @ v"]
    by (simp add: matching_pair_def index_replacer_def new_index_replacer_def Let_def index_token_nonempty del: append_Cons)
  then show "replace_text ?rs (index_token (''next_'' @ v) @ t) = show_int (wrap64 (index + 1)) @ replace_text ?rs t"
    by (rule replace_match) (rule index_token_nonempty)
qed

text \<open>
  C32. The residual chain of a repeated block links up: a name written with \<open>${next_i}\<close> in one instance is,
  after substitution, the same name as the one written with \<open>${i}\<close> in the following instance, so the
  output \<open>h_${next_i}\<close> of a block is the input \<open>h_${i}\<close> of the next block.
\<close>

theorem repeated_blocks_chain:
  assumes "CHR ''}'' \<notin> set v" and "CHR ''$'' \<notin> set p" and "0 \<le> k" and "k + 1 < 2 ^ 63"
  shows "replace_text (index_replacer v k offset) (p @ index_token (''next_'' @ v))
    = replace_text (index_replacer v (k + 1) offset) (p @ index_token v)"
proof -
  have r: "in64 k" "in64 (k + 1)" "wrap64 (k + 1) = k + 1" using assms(3,4) by (auto simp: in64_def wrap_simps)
  have "replace_text (index_replacer v k offset) (p @ index_token (''next_'' @ v)) = p @ show_int (k + 1)"
    using replace_index_token(2) [OF assms(1) r(1), of offset "[]"]
    by (simp add: replace_text_plain [OF assms(2) index_replacer_tokens] r(3))
  moreover have "replace_text (index_replacer v (k + 1) offset) (p @ index_token v) = p @ show_int (k + 1)"
    using replace_index_token(1) [OF assms(1) r(2), of offset "[]"]
    by (simp add: replace_text_plain [OF assms(2) index_replacer_tokens])
  ultimately show ?thesis by simp
qed

theorem repeated_blocks_chain_witness:
  "replace_text (index_replacer ''layer'' 3 0) (''h_'' @ index_token (''next_'' @ ''layer''))
    = replace_text (index_replacer ''layer'' (3 + 1) 0) (''h_'' @ index_token ''layer'')"
  by (rule repeated_blocks_chain) simp_all

end
