(* ===== verification/Topology_Lower.thy ===== *)
theory Topology_Lower
  imports Topology_Expand Typer_Sound
begin

text \<open>
  \<open>LowerTopology\<close> of \<open>compiler/topology_lower.go\<close>: a topology, expanded, becomes a compute graph and a
  scheduling DAG over the same ids. \<open>producers\<close> maps every value name to the id of the node that
  produces it; a later declaration of a name takes it over. Node metadata is empty at this stage.
\<close>

datatype lower_error =
    TopologyRequired | LowerExpand expand_error | DuplicateTopologyInput string
  | TopologyNodeWithoutId string | DuplicateTopologyNode string | UnknownTopologyInput string string
  | FromSafetensorsNotMap | WeightFieldNotString string | FromSafetensorsWithoutWeight
  | BadSliceStart slice_error | BadSliceEnd slice_error
  | UnknownTopologyOutput string string | LowerDag dag_error
and slice_error = BadSliceInteger string | UnsupportedSliceType

section \<open>Weights\<close>

definition op_uses_default_weight :: "string \<Rightarrow> bool" where
  "op_uses_default_weight op \<longleftrightarrow> op = ''convolution.conv2d'' \<or> op = ''embedding.token'' \<or> op = ''math.groupnorm''
     \<or> op = ''math.layernorm'' \<or> op = ''math.rmsnorm'' \<or> op = ''projection.linear''"

definition string_weight_field :: "(string \<times> 'v attr) list \<Rightarrow> string \<Rightarrow> (lower_error, string) res" where
  "string_weight_field section key = (case map_of section key of
     None \<Rightarrow> Ok [] | Some ANil \<Rightarrow> Ok [] | Some (AString s) \<Rightarrow> Ok s
   | Some _ \<Rightarrow> Err (WeightFieldNotString key))"

definition weight_spec_from_safetensors ::
  "(string \<Rightarrow> 'v attr option) \<Rightarrow> (lower_error, 'v weight_spec option) res" where
  "weight_spec_from_safetensors config = (case config ''from_safetensors'' of
     None \<Rightarrow> Ok None
   | Some (AMap section) \<Rightarrow>
       rbind (string_weight_field section ''weight'') (\<lambda>w.
       rbind (string_weight_field section ''bias'') (\<lambda>b.
       rbind (string_weight_field section ''slice_axis'') (\<lambda>axis.
       let field = (\<lambda>key. case map_of section key of None \<Rightarrow> ANil | Some v \<Rightarrow> v) in
       if w = [] then Err FromSafetensorsWithoutWeight
       else Ok (Some \<lparr>wsp_weight = w, wsp_bias = b, wsp_axis = axis,
                     wsp_start = field ''slice_start'', wsp_end = field ''slice_end''\<rparr>))))
   | Some _ \<Rightarrow> Err FromSafetensorsNotMap)"

definition weight_spec_for_node :: "'v top_node \<Rightarrow> (lower_error, 'v weight_spec option) res" where
  "weight_spec_for_node n = (case tn_weights n of
     Some w \<Rightarrow> Ok (Some w)
   | None \<Rightarrow> rbind (weight_spec_from_safetensors (tn_config n)) (\<lambda>w. case w of
       Some w \<Rightarrow> Ok (Some w)
     | None \<Rightarrow> if \<not> op_uses_default_weight (tn_op n) then Ok None
               else Ok (Some \<lparr>wsp_weight = tn_id n @ ''.weight'', wsp_bias = [], wsp_axis = [],
                              wsp_start = ANil, wsp_end = ANil\<rparr>)))"

definition weight_slice_index :: "('v \<Rightarrow> int) \<Rightarrow> 'v attr \<Rightarrow> (slice_error, int) res" where
  "weight_slice_index tr v = (case v of
     ANil \<Rightarrow> Ok 0 | AInt i \<Rightarrow> Ok i | AInt64 i \<Rightarrow> Ok i | AFloat64 x \<Rightarrow> Ok (tr x)
   | AString s \<Rightarrow> (case parse_int64 (trim_space s) of Some i \<Rightarrow> Ok i | None \<Rightarrow> Err (BadSliceInteger s))
   | _ \<Rightarrow> Err UnsupportedSliceType)"

definition is_nil :: "'v attr \<Rightarrow> bool" where
  "is_nil v = (case v of ANil \<Rightarrow> True | _ \<Rightarrow> False)"

definition weight_slice_from_spec :: "('v \<Rightarrow> int) \<Rightarrow> 'v weight_spec \<Rightarrow> (lower_error, weight_slice option) res" where
  "weight_slice_from_spec tr w =
     (if wsp_axis w = [] \<and> is_nil (wsp_start w) \<and> is_nil (wsp_end w) then Ok None
      else rbind (map_err BadSliceStart (weight_slice_index tr (wsp_start w))) (\<lambda>s.
        rbind (map_err BadSliceEnd (weight_slice_index tr (wsp_end w))) (\<lambda>e.
        Ok (Some \<lparr>wsl_axis = wsp_axis w, wsl_start = s, wsl_end = e\<rparr>))))"

section \<open>Lowering\<close>

record 'v lowering =
  lo_nodes :: "'v graph_node list"
  lo_dag :: "op_node list"
  lo_producers :: "string \<rightharpoonup> string"

definition op_type_for_op :: "string \<Rightarrow> dag_op" where
  "op_type_for_op op = (let op = to_lower (trim_space op) in
     if op = ''input'' \<or> op = ''io.input'' then OpInput else OpMatmul)"

fun resolve_node_inputs ::
  "string \<Rightarrow> (string \<rightharpoonup> string) \<Rightarrow> string list \<Rightarrow> (lower_error, string list) res" where
  "resolve_node_inputs n producers [] = Ok []"
| "resolve_node_inputs n producers (i # is) =
     (if i = [] then resolve_node_inputs n producers is
      else case producers i of
        None \<Rightarrow> Err (UnknownTopologyInput n i)
      | Some p \<Rightarrow> rbind (resolve_node_inputs n producers is) (\<lambda>ps. Ok (p # ps)))"

definition declare_outputs :: "string \<Rightarrow> string list \<Rightarrow> (string \<rightharpoonup> string) \<Rightarrow> (string \<rightharpoonup> string)" where
  "declare_outputs n outs producers =
     fold (\<lambda>o' m. if o' = [] \<or> o' = n then m else m(o' \<mapsto> n)) outs (producers(n \<mapsto> n))"

definition lower_one_node :: "('v \<Rightarrow> int) \<Rightarrow> 'v top_node \<Rightarrow> 'v lowering \<Rightarrow> (lower_error, 'v lowering) res" where
  "lower_one_node tr n s =
     (if tn_id n = [] then Err (TopologyNodeWithoutId (tn_op n))
      else if lo_producers s (tn_id n) \<noteq> None then Err (DuplicateTopologyNode (tn_id n))
      else rbind (resolve_node_inputs (tn_id n) (lo_producers s) (tn_in n)) (\<lambda>inputs.
        rbind (weight_spec_for_node n) (\<lambda>spec.
        rbind (case spec of None \<Rightarrow> Ok None
               | Some w \<Rightarrow> rbind (weight_slice_from_spec tr w) (\<lambda>slice.
                   Ok (Some \<lparr>bw_tensor = wsp_weight w, bw_bias = wsp_bias w, bw_shape = [], bw_dtype = DInvalid,
                             bw_slice = slice\<rparr>))) (\<lambda>weights.
        Ok \<lparr>lo_nodes = lo_nodes s @ [\<lparr>gn_id = tn_id n, gn_op = tn_op n, gn_inputs = inputs, gn_attrs = tn_config n,
               gn_meta = Map.empty, gn_input_types = [], gn_output_type = zero_port_type,
               gn_value = zero_value_type, gn_weights = weights\<rparr>],
            lo_dag = lo_dag s @ [(\<lparr>dn_id = tn_id n, dn_inputs = map Some inputs\<rparr>, op_type_for_op (tn_op n))],
            lo_producers = declare_outputs (tn_id n) (tn_out n) (lo_producers s)\<rparr>))))"

definition lower_input :: "string \<Rightarrow> 'v lowering \<Rightarrow> (lower_error, 'v lowering) res" where
  "lower_input i s =
     (if i = [] then Ok s
      else if lo_producers s i \<noteq> None then Err (DuplicateTopologyInput i)
      else Ok (s\<lparr>lo_dag := lo_dag s @ [(new_dag_node i, OpInput)], lo_producers := (lo_producers s)(i \<mapsto> i)\<rparr>))"

fun resolve_topology_outputs ::
  "(string \<rightharpoonup> string) \<Rightarrow> (string \<times> string) list \<Rightarrow> (lower_error, (string \<times> string) list) res" where
  "resolve_topology_outputs producers [] = Ok []"
| "resolve_topology_outputs producers ((name, ref) # os) =
     (if name = [] then resolve_topology_outputs producers os
      else let ref = (if ref = [] then name else ref) in
        case producers ref of
          None \<Rightarrow> Err (UnknownTopologyOutput name ref)
        | Some p \<Rightarrow> rbind (resolve_topology_outputs producers os) (\<lambda>rs. Ok ((name, p) # rs)))"

definition lower_topology ::
  "('v \<Rightarrow> int) \<Rightarrow> 'v ast_topology option \<Rightarrow> (lower_error, 'v ast_graph \<times> op_node list) res" where
  "lower_topology tr topology = (case topology of
     None \<Rightarrow> Err TopologyRequired
   | Some t \<Rightarrow>
       rbind (map_err LowerExpand (expand_topology tr t)) (\<lambda>t.
       rbind (fold_res lower_input (at_inputs t) \<lparr>lo_nodes = [], lo_dag = [], lo_producers = Map.empty\<rparr>) (\<lambda>s.
       rbind (fold_res (lower_one_node tr) (at_nodes t) s) (\<lambda>s.
       rbind (resolve_topology_outputs (lo_producers s) (at_outputs t)) (\<lambda>outputs.
       rbind (map_err LowerDag (verify_graph (Some (map fst (lo_dag s))))) (\<lambda>_.
       Ok (\<lparr>g_nodes = lo_nodes s, g_inputs = at_inputs t, g_outputs = outputs, g_dtype = DInvalid,
            g_bindings = at_bindings t\<rparr>, lo_dag s)))))))"

section \<open>Which node a name refers to\<close>

definition declares :: "string \<Rightarrow> 'v top_node \<Rightarrow> bool" where
  "declares x n \<longleftrightarrow> x \<noteq> [] \<and> (x = tn_id n \<or> x \<in> set (tn_out n))"

text \<open>The last node that declares the name, or else the graph input of that name.\<close>

definition latest_producer :: "string list \<Rightarrow> 'v top_node list \<Rightarrow> string \<rightharpoonup> string" where
  "latest_producer ins ns x = (if filter (declares x) ns \<noteq> [] then Some (tn_id (last (filter (declares x) ns)))
     else if x \<noteq> [] \<and> x \<in> set ins then Some x else None)"

lemma declare_outputs_apply:
  "declare_outputs n outs m x = (if x \<noteq> [] \<and> x \<in> set outs \<or> x = n then Some n else m x)"
proof -
  have "fold (\<lambda>o' m. if o' = [] \<or> o' = n then m else m(o' \<mapsto> n)) outs m' x
      = (if x \<noteq> [] \<and> x \<noteq> n \<and> x \<in> set outs then Some n else m' x)" for m' :: "string \<Rightarrow> string option"
    by (induction outs arbitrary: m') auto
  then show ?thesis by (simp add: declare_outputs_def)
qed

lemma latest_producer_snoc:
  assumes "tn_id n \<noteq> []"
  shows "latest_producer ins (ns @ [n]) = declare_outputs (tn_id n) (tn_out n) (latest_producer ins ns)"
proof
  fix x
  show "latest_producer ins (ns @ [n]) x = declare_outputs (tn_id n) (tn_out n) (latest_producer ins ns) x"
  proof (cases "declares x n")
    case True
    then show ?thesis by (auto simp: latest_producer_def declare_outputs_apply declares_def)
  next
    case False
    with assms show ?thesis by (auto simp: latest_producer_def declare_outputs_apply declares_def)
  qed
qed

lemma resolve_node_inputs_Ok:
  "resolve_node_inputs n m is = Ok ps \<Longrightarrow> map Some ps = map m (named is)"
  by (induction n m "is" arbitrary: ps rule: resolve_node_inputs.induct) (auto simp: named_def split: option.splits)

section \<open>Lowering keeps order\<close>

text \<open>The node \<open>g\<close> is what \<open>n\<close> is lowered to, where the names mean what \<open>m\<close> says.\<close>

definition lowered_from :: "(string \<rightharpoonup> string) \<Rightarrow> 'v top_node \<Rightarrow> 'v graph_node \<Rightarrow> bool" where
  "lowered_from m n g \<longleftrightarrow> gn_id g = tn_id n \<and> gn_op g = tn_op n \<and> gn_attrs g = tn_config n
     \<and> map Some (gn_inputs g) = map m (named (tn_in n)) \<and> gn_output_type g = zero_port_type"

definition lowering_ok :: "string list \<Rightarrow> 'v top_node list \<Rightarrow> 'v lowering \<Rightarrow> bool" where
  "lowering_ok ins ns s \<longleftrightarrow> distinct (named ins) \<and> connectable (set (named ins)) (lo_nodes s)
     \<and> [] \<notin> gn_id ` set (lo_nodes s)
     \<and> lo_dag s = map dag_input (named ins) @ map to_dag (lo_nodes s)
     \<and> lo_producers s = latest_producer ins ns \<and> length (lo_nodes s) = length ns
     \<and> (\<forall>k < length ns. lowered_from (latest_producer ins (take k ns)) (ns ! k) (lo_nodes s ! k))"

lemma lower_inputs_ok:
  "fold_res lower_input is s = Ok s' \<Longrightarrow> lo_nodes s' = lo_nodes s \<and> distinct (named is)
     \<and> lo_dag s' = lo_dag s @ map dag_input (named is)
     \<and> lo_producers s' = (\<lambda>x. if x \<in> set (named is) then Some x else lo_producers s x)
     \<and> (\<forall>x \<in> set (named is). lo_producers s x = None)"
proof (induction "is" arbitrary: s)
  case (Cons i "is")
  from Cons.prems obtain s1 where s1: "lower_input i s = Ok s1" "fold_res lower_input is s1 = Ok s'" by auto
  note ih = Cons.IH [OF s1(2)]
  show ?case
  proof (cases "i = []")
    case True
    with s1(1) have "s1 = s" by (simp add: lower_input_def)
    with True ih show ?thesis by (simp add: named_def cong: if_cong)
  next
    case False
    with s1(1) have p: "lo_producers s i = None" "lo_dag s1 = lo_dag s @ [dag_input i]" "lo_nodes s1 = lo_nodes s"
      "lo_producers s1 = (lo_producers s)(i \<mapsto> i)"
      by (auto simp: lower_input_def dag_input_def split: if_splits)
    have n: "named (i # is) = i # named is" using False by (simp add: named_def)
    have "i \<notin> set (named is)" using ih p(4) by (metis fun_upd_same option.distinct(1))
    then show ?thesis using ih p unfolding n by (auto simp: fun_eq_iff split: if_splits)
  qed
qed (simp add: named_def)

lemma producer_known:
  assumes "latest_producer ins ns x = Some p" and "[] \<notin> tn_id ` set ns"
  shows "p \<noteq> [] \<and> p \<in> set (named ins) \<union> tn_id ` set ns"
proof (cases "filter (declares x) ns = []")
  case True
  with assms show ?thesis by (auto simp: latest_producer_def named_def split: if_splits)
next
  case False
  then have "last (filter (declares x) ns) \<in> set (filter (declares x) ns)" by (rule last_in_set)
  then have m: "last (filter (declares x) ns) \<in> set ns" by simp
  from assms(1) False have "p = tn_id (last (filter (declares x) ns))" by (simp add: latest_producer_def)
  with m have "p \<in> tn_id ` set ns" by blast
  with assms(2) show ?thesis by (metis UnI2)
qed

lemma lowered_ids:
  assumes "lowering_ok ins ns s"
  shows "map gn_id (lo_nodes s) = map tn_id ns"
  using assms by (intro nth_equalityI) (auto simp: lowering_ok_def lowered_from_def)

lemma lower_one_node_ok:
  assumes ok: "lower_one_node tr n s = Ok s'" and inv: "lowering_ok ins ns s"
  shows "lowering_ok ins (ns @ [n]) s'"
proof -
  let ?m = "lo_producers s"
  have m: "?m = latest_producer ins ns" using inv by (simp add: lowering_ok_def)
  from ok have id: "tn_id n \<noteq> []" "?m (tn_id n) = None" by (auto simp: lower_one_node_def split: if_splits)
  from ok id obtain inputs ws g where r: "resolve_node_inputs (tn_id n) ?m (tn_in n) = Ok inputs"
    and g: "g = \<lparr>gn_id = tn_id n, gn_op = tn_op n, gn_inputs = inputs, gn_attrs = tn_config n,
         gn_meta = Map.empty, gn_input_types = [], gn_output_type = zero_port_type,
         gn_value = zero_value_type, gn_weights = ws\<rparr>"
    and s': "s' = \<lparr>lo_nodes = lo_nodes s @ [g],
      lo_dag = lo_dag s @ [(\<lparr>dn_id = tn_id n, dn_inputs = map Some inputs\<rparr>, op_type_for_op (tn_op n))],
      lo_producers = declare_outputs (tn_id n) (tn_out n) ?m\<rparr>"
    by (auto simp: lower_one_node_def)
  have ids: "gn_id ` set (lo_nodes s) = tn_id ` set ns" using lowered_ids [OF inv] by (metis list.set_map)
  have noid: "[] \<notin> tn_id ` set ns" using inv ids by (simp add: lowering_ok_def)
  note res = resolve_node_inputs_Ok [OF r]
  have known: "p \<noteq> [] \<and> p \<in> set (named ins) \<union> gn_id ` set (lo_nodes s)" if "p \<in> set inputs" for p
  proof -
    have "Some p \<in> set (map Some inputs)" using that by simp
    then obtain x where "?m x = Some p" unfolding res by auto
    with producer_known [OF _ noid] show ?thesis unfolding m ids by blast
  qed
  have "tn_id n \<notin> set (named ins) \<union> gn_id ` set (lo_nodes s)"
  proof
    assume a: "tn_id n \<in> set (named ins) \<union> gn_id ` set (lo_nodes s)"
    have "\<exists>p. latest_producer ins ns (tn_id n) = Some p"
    proof (cases "tn_id n \<in> tn_id ` set ns")
      case True
      then obtain n' where "n' \<in> set ns" "tn_id n' = tn_id n" by auto
      then have "filter (declares (tn_id n)) ns \<noteq> []" using id(1) by (metis declares_def filter_empty_conv)
      then show ?thesis by (simp add: latest_producer_def)
    next
      case False
      with a ids have "tn_id n \<in> set ins" by (auto simp: named_def)
      with id(1) show ?thesis by (simp add: latest_producer_def)
    qed
    with id(2) m show False by simp
  qed
  moreover have "named inputs = inputs" using known by (auto simp: named_def filter_id_conv)
  moreover have "op_type_for_op (tn_op n) = dag_op_for_graph_node g"
    by (simp add: g op_type_for_op_def dag_op_for_graph_node_def)
  moreover have "lowered_from (latest_producer ins ns) n g" using res m by (simp add: lowered_from_def g)
  moreover have "length (lo_nodes s) = length ns" using inv by (simp add: lowering_ok_def)
  moreover have "latest_producer ins (ns @ [n]) = declare_outputs (tn_id n) (tn_out n) ?m"
    using latest_producer_snoc [OF id(1), of ins ns] m by simp
  ultimately show ?thesis
    using inv known id(1)
    by (auto simp: lowering_ok_def s' connectable_append nth_append less_Suc_eq to_dag_def g)
qed

lemma lower_nodes_ok:
  "fold_res (lower_one_node tr) ns s = Ok s' \<Longrightarrow> lowering_ok ins ms s \<Longrightarrow> lowering_ok ins (ms @ ns) s'"
proof (induction ns arbitrary: s ms)
  case (Cons n ns)
  from Cons.prems(1) obtain s1 where "lower_one_node tr n s = Ok s1" "fold_res (lower_one_node tr) ns s1 = Ok s'" by auto
  with Cons.IH [of s1 "ms @ [n]"] lower_one_node_ok [OF _ Cons.prems(2)] show ?case by simp
qed simp

lemma resolve_outputs_Ok:
  "resolve_topology_outputs m os = Ok rs \<Longrightarrow>
     rs = map (\<lambda>(name, ref). (name, the (m (if ref = [] then name else ref)))) (filter (\<lambda>(name, ref). name \<noteq> []) os)
     \<and> (\<forall>(name, ref) \<in> set os. name \<noteq> [] \<longrightarrow> m (if ref = [] then name else ref) \<noteq> None)"
proof (induction os arbitrary: rs)
  case (Cons o' os)
  obtain name ref where o': "o' = (name, ref)" by (cases o')
  show ?case
  proof (cases "name = []")
    case True
    with Cons o' show ?thesis by simp
  next
    case False
    with Cons.prems o' obtain p ps where r: "m (if ref = [] then name else ref) = Some p"
      "resolve_topology_outputs m os = Ok ps" "rs = (name, p) # ps"
      by (auto simp: Let_def split: option.splits)
    from Cons.IH [OF r(2)] r(1,3) False o' show ?thesis by simp
  qed
qed simp

text \<open>
  C6. Lowering is faithful and ordered. A successful \<open>LowerTopology\<close> turns each node of the expanded
  topology, in order, into one graph node whose inputs are the ids of the last preceding nodes that
  declare the names it reads (or of the graph inputs of those names); outputs are resolved the same way
  at the end. The graph is in dependency order and untyped, as the typer wants it; the scheduling DAG has
  the same nodes and edges and can be put into layers.
\<close>

theorem lower_topology_correct:
  fixes t :: "'v ast_topology"
  assumes "lower_topology tr (Some t) = Ok (g, d)"
  shows "\<exists>t'. expand_topology tr t = Ok t' \<and> length (g_nodes g) = length (at_nodes t')
    \<and> (\<forall>k < length (at_nodes t'). lowered_from (latest_producer (at_inputs t') (take k (at_nodes t'))) (at_nodes t' ! k) (g_nodes g ! k))
    \<and> (\<forall>(name, p) \<in> set (g_outputs g). \<exists>ref. (name, ref) \<in> set (at_outputs t')
          \<and> latest_producer (at_inputs t') (at_nodes t') (if ref = [] then name else ref) = Some p)
    \<and> ready_to_type g \<and> d = map dag_input (named (g_inputs g)) @ map to_dag (g_nodes g)
    \<and> (\<exists>ls. topology_layers (map fst d) = Ok ls)"
proof -
  from assms obtain t' s s' outs where r: "expand_topology tr t = Ok t'"
    "fold_res lower_input (at_inputs t') \<lparr>lo_nodes = [], lo_dag = [], lo_producers = Map.empty\<rparr> = Ok s"
    "fold_res (lower_one_node tr) (at_nodes t') s = Ok s'"
    "resolve_topology_outputs (lo_producers s') (at_outputs t') = Ok outs"
    "g = \<lparr>g_nodes = lo_nodes s', g_inputs = at_inputs t', g_outputs = outs, g_dtype = DInvalid, g_bindings = at_bindings t'\<rparr>"
    "d = lo_dag s'" by (auto simp: lower_topology_def)
  have "latest_producer (at_inputs t') ([] :: 'v top_node list) = (\<lambda>x. if x \<in> set (named (at_inputs t')) then Some x else None)"
    by (auto simp: latest_producer_def named_def fun_eq_iff)
  then have "lowering_ok (at_inputs t') [] s"
    using lower_inputs_ok [OF r(2)] by (simp add: lowering_ok_def cong: if_cong)
  from lower_nodes_ok [OF r(3) this] have ok: "lowering_ok (at_inputs t') (at_nodes t') s'" by simp
  have c: "connectable (set (named (at_inputs t'))) (lo_nodes s')" "[] \<notin> gn_id ` set (lo_nodes s')"
    "lo_dag s' = map dag_input (named (at_inputs t')) @ map to_dag (lo_nodes s')" "distinct (named (at_inputs t'))"
    "lo_producers s' = latest_producer (at_inputs t') (at_nodes t')" "length (lo_nodes s') = length (at_nodes t')"
    "\<forall>k < length (at_nodes t'). lowered_from (latest_producer (at_inputs t') (take k (at_nodes t'))) (at_nodes t' ! k) (lo_nodes s' ! k)"
    using ok by (simp_all add: lowering_ok_def)
  have "set (at_inputs t') = set (named (at_inputs t')) \<or> set (at_inputs t') = insert [] (set (named (at_inputs t')))"
    by (auto simp: named_def)
  then have "connectable (set (at_inputs t')) (lo_nodes s')"
    using c(1) connectable_insert [OF c(1,2)] by auto
  moreover have "\<forall>n \<in> set (lo_nodes s'). pt_dtype (gn_output_type n) = DInvalid"
    using c(6,7) by (auto simp: in_set_conv_nth lowered_from_def zero_port_type_def)
  ultimately have ready: "ready_to_type g" using c(2) by (simp add: ready_to_type_def r(5))
  have "dag_ordered (map fst d)"
    unfolding r(6) c(3)
    using inputs_ordered [of "named (at_inputs t')" "{}"] c(1,2,4) connectable_ordered [OF c(1,2)]
    by (simp add: ordered_after_append o_def named_def dag_input_def new_dag_node_def image_image)
  then have "\<exists>ls. topology_layers (map fst d) = Ok ls" by (rule dag_ordered_layers)
  moreover have "\<forall>(name, p) \<in> set outs. \<exists>ref. (name, ref) \<in> set (at_outputs t')
      \<and> latest_producer (at_inputs t') (at_nodes t') (if ref = [] then name else ref) = Some p"
  proof (rule ballI, rule case_prodI2)
    fix o' name p assume o': "o' \<in> set outs" "o' = (name, p)"
    note outs = resolve_outputs_Ok [OF r(4), unfolded c(5)]
    from o' conjunct1 [OF outs] obtain ref where ref: "(name, ref) \<in> set (at_outputs t')" "name \<noteq> []"
      "p = the (latest_producer (at_inputs t') (at_nodes t') (if ref = [] then name else ref))" by auto
    define q where "q = latest_producer (at_inputs t') (at_nodes t') (if ref = [] then name else ref)"
    from bspec [OF conjunct2 [OF outs] ref(1)] ref(2) have "q \<noteq> None" unfolding q_def by (simp only: prod.case not_False_eq_True simp_thms)
    with ref(3) have "q = Some p" unfolding q_def [symmetric] by simp
    with ref(1) show "\<exists>ref. (name, ref) \<in> set (at_outputs t')
        \<and> latest_producer (at_inputs t') (at_nodes t') (if ref = [] then name else ref) = Some p"
      unfolding q_def by blast
  qed
  ultimately show ?thesis using r c ready by (intro exI [of _ t']) simp
qed

text \<open>Two instances of a block that adds its input to the residual stream.\<close>

definition plain_top_node :: "string \<Rightarrow> string \<Rightarrow> string list \<Rightarrow> string list \<Rightarrow> int top_node" where
  "plain_top_node i op ins outs = TopNode i op ins outs Map.empty ANil [] ANil [] None"

definition residual_topology :: "int ast_topology" where
  "residual_topology = \<lparr>at_inputs = [''h_0''], at_outputs = [(''logits'', ''h_2'')],
     at_nodes = [TopNode ''blocks'' ''control.repeat'' [] [] Map.empty (AInt 2) [] ANil
       [plain_top_node ''norm_${i}'' ''math.rmsnorm'' [''h_${i}''] [],
        plain_top_node ''add_${i}'' ''math.add'' [''h_${i}'', ''norm_${i}''] [''h_${next_i}'']] None],
     at_bindings = Map.empty\<rparr>"

definition lowers :: "int ast_topology \<Rightarrow> bool" where
  "lowers t = (case lower_topology id (Some t) of Inl _ \<Rightarrow> False | Inr (g, d) \<Rightarrow>
     map (\<lambda>n. (gn_id n, gn_inputs n)) (g_nodes g) =
       [(''norm_0'', [''h_0'']), (''add_0'', [''h_0'', ''norm_0'']), (''norm_1'', [''add_0'']), (''add_1'', [''add_0'', ''norm_1''])]
     \<and> g_outputs g = [(''logits'', ''add_1'')])"

lemma residual_topology_lowers: "lowers residual_topology"
  by code_simp

theorem lower_topology_correct_witness:
  "\<exists>g d. lower_topology id (Some residual_topology) = Ok (g, d) \<and> ready_to_type g
    \<and> g_outputs g = [(''logits'', ''add_1'')]"
proof -
  obtain g d where r: "lower_topology id (Some residual_topology) = Ok (g, d)" "g_outputs g = [(''logits'', ''add_1'')]"
    using residual_topology_lowers by (auto simp: lowers_def split: sum.splits)
  with lower_topology_correct [OF r(1)] show ?thesis by blast
qed

end
