(* ===== verification/Op_Registry.thy ===== *)
theory Op_Registry
  imports Typer_Infer
begin

text \<open>
  The operation registry of \<open>types/operation.go\<close> and the closed-world check of
  \<open>compiler/graph_validate.go\<close>. The schemas come from files embedded in the binary: the registry is
  a map from operation names to the parts of a schema the compiler reads, the number of declared
  inputs and the binding. \<open>None\<close> is a nil registry.
\<close>

record bind_variant =
  bv_input_count :: int
  bv_method :: string

record op_bind =
  ob_method :: string
  ob_variants :: "bind_variant list"

record op_schema =
  sch_inputs :: nat
  sch_bind :: "op_bind option"

type_synonym op_registry = "(string \<Rightarrow> op_schema option) option"

datatype bind_error =
    RegistryRequired string | NoSchema string | BindRequired string
  | VariantWithoutMethod int | NoVariant int | BindMethodRequired

definition registry_lookup :: "op_registry \<Rightarrow> string \<Rightarrow> op_schema option" where
  "registry_lookup reg op = (case reg of None \<Rightarrow> None | Some m \<Rightarrow> m op)"

fun find_variant :: "int \<Rightarrow> bind_variant list \<Rightarrow> bind_variant option" where
  "find_variant count [] = None"
| "find_variant count (v # vs) =
     (if bv_input_count v = 0 \<or> bv_input_count v \<noteq> count then find_variant count vs else Some v)"

definition resolve_bind_method :: "op_bind \<Rightarrow> int \<Rightarrow> (bind_error, string) res" where
  "resolve_bind_method b count = (case find_variant count (ob_variants b) of
     Some v \<Rightarrow> if trim_space (bv_method v) = [] then Err (VariantWithoutMethod count) else Ok (bv_method v)
   | None \<Rightarrow>
       if trim_space (ob_method b) \<noteq> [] then Ok (ob_method b)
       else if ob_variants b \<noteq> [] then Err (NoVariant count)
       else Err BindMethodRequired)"

definition bind_method_for_input_count :: "op_registry \<Rightarrow> string \<Rightarrow> int \<Rightarrow> (bind_error, string) res" where
  "bind_method_for_input_count reg op count = (case reg of
     None \<Rightarrow> Err (RegistryRequired op)
   | Some _ \<Rightarrow> (case registry_lookup reg op of
       None \<Rightarrow> Err (NoSchema op)
     | Some s \<Rightarrow> (case sch_bind s of
         None \<Rightarrow> Err (BindRequired op) | Some b \<Rightarrow> resolve_bind_method b count)))"

definition bind_method :: "op_registry \<Rightarrow> string \<Rightarrow> (bind_error, string) res" where
  "bind_method reg op = bind_method_for_input_count reg op 0"

definition has_bind :: "op_registry \<Rightarrow> string \<Rightarrow> int \<Rightarrow> bool" where
  "has_bind reg op count = (case registry_lookup reg op of
     None \<Rightarrow> False
   | Some s \<Rightarrow> (case sch_bind s of
       None \<Rightarrow> False
     | Some b \<Rightarrow> (case resolve_bind_method b count of Inl _ \<Rightarrow> False | Inr _ \<Rightarrow> True)))"

lemma has_bind_iff:
  "has_bind reg op count \<longleftrightarrow> (\<exists>m. bind_method_for_input_count reg op count = Ok m)"
  by (auto simp: has_bind_def bind_method_for_input_count_def registry_lookup_def split: option.splits sum.splits)

lemma resolved_method_not_blank: "resolve_bind_method b count = Ok m \<Longrightarrow> trim_space m \<noteq> []"
  by (auto simp: resolve_bind_method_def split: option.splits if_splits)

section \<open>Closed-world validation\<close>

datatype validate_error =
    ValidateGraphRequired | ValidateRegistryRequired | OpRequired string
  | FusedWithoutAst string | FusedWithBadAst string
  | NoBindForInputs string string int | NotRegistered string string

definition is_compiler_intrinsic_op :: "string \<Rightarrow> bool" where
  "is_compiler_intrinsic_op op \<longleftrightarrow> op = ''value.assign''"

definition validate_fused_node :: "'v graph_node \<Rightarrow> (validate_error, unit) res" where
  "validate_fused_node n = (case gn_attrs n ''fusion_ast'' of
     None \<Rightarrow> Err (FusedWithoutAst (gn_id n))
   | Some (AFusion _) \<Rightarrow> Ok ()
   | Some _ \<Rightarrow> Err (FusedWithBadAst (gn_id n)))"

definition validate_one_graph_op ::
  "'v spec_lookup \<Rightarrow> op_registry \<Rightarrow> 'v graph_node \<Rightarrow> (validate_error, unit) res" where
  "validate_one_graph_op L reg n =
     (let op = trim_space (gn_op n); count = int (length (gn_inputs n)) in
      if op = [] then Err (OpRequired (gn_id n))
      else if op = ''optimizer.fusion'' then validate_fused_node n
      else if is_compiler_intrinsic_op op then Ok ()
      else if registry_lookup reg op \<noteq> None then
        (if \<not> has_bind reg op count then Err (NoBindForInputs (gn_id n) op count) else Ok ())
      else if L op \<noteq> None then Ok ()
      else Err (NotRegistered (gn_id n) op))"

definition validate_graph_ops ::
  "'v spec_lookup \<Rightarrow> op_registry \<Rightarrow> 'v ast_graph option \<Rightarrow> (validate_error, unit) res" where
  "validate_graph_ops L reg go = (case go of
     None \<Rightarrow> Err ValidateGraphRequired
   | Some g \<Rightarrow>
       if reg = None then Err ValidateRegistryRequired
       else fold_res (\<lambda>n _. validate_one_graph_op L reg n) (g_nodes g) ())"

end
