(* ===== verification/Graph_Plan.thy ===== *)
theory Graph_Plan
  imports Op_Registry Graph_Order Workspace_Plan Streams
begin

text \<open>
  \<open>PlanGraph\<close> of \<open>compiler/plan.go\<close>: the typed compute graph becomes a topology whose producers and
  consumers share ports, its workspace is planned, its inputs and outputs are mapped to byte offsets
  and its nodes are put on streams. A port is an address in a heap; \<open>br_next\<close> is the next free one.
\<close>

datatype graph_plan_error =
    PlanNoGraph | PlanOrder order_error | PlanBind string bind_error
  | InputBeforeDeclaration string string | ProducerNotDefined string string
  | PlanWorkspaceFailed plan_error
  | InputWithoutAllocation string | OutputWithoutAllocation string string
  | PlanStreams sched_error

record bridge =
  br_heap :: port_heap
  br_next :: nat
  br_nodes :: "ir_node list"
  br_boundary :: "string \<rightharpoonup> nat"
  br_producers :: "string \<rightharpoonup> nat"

definition empty_port :: "port_type \<Rightarrow> port" where
  "empty_port t = \<lparr>port_id = 0, port_type = t, port_alloc = None\<rparr>"

definition new_port :: "port_type \<Rightarrow> bridge \<Rightarrow> bridge" where
  "new_port t b = b\<lparr>br_heap := (br_heap b)(br_next b := empty_port t), br_next := Suc (br_next b)\<rparr>"

definition add_boundary_port :: "string \<Rightarrow> bridge \<Rightarrow> bridge" where
  "add_boundary_port x b = (if x = [] then b
     else (new_port zero_port_type b)\<lparr>br_boundary := (br_boundary b)(x \<mapsto> br_next b)\<rparr>)"

definition new_planning_node :: "op_registry \<Rightarrow> 'v graph_node \<Rightarrow> (bind_error, ir_node) res" where
  "new_planning_node reg n =
     (let node = \<lparr>n_name = gn_id n, n_id = 0, n_op = gn_op n, n_bind = [],
                  n_inputs = replicate (length (gn_inputs n)) None, n_outputs = [], n_stream = 0, n_sync = []\<rparr> in
      if gn_op n = ''optimizer.fusion'' \<or> is_compiler_intrinsic_op (gn_op n) then Ok node
      else if reg = None then Ok node
      else rbind (bind_method_for_input_count reg (gn_op n) (int (length (gn_inputs n)))) (\<lambda>m.
        Ok (node\<lparr>n_bind := m\<rparr>)))"

definition resolve_planning_input_port ::
  "'v graph_node \<Rightarrow> nat \<Rightarrow> string \<Rightarrow> string set \<Rightarrow> bridge \<Rightarrow> (graph_plan_error, nat \<times> bridge) res" where
  "resolve_planning_input_port n slot x boundary b = (case br_producers b x of
     Some p \<Rightarrow> Ok (p, b)
   | None \<Rightarrow> (case br_boundary b x of
       None \<Rightarrow> if x \<in> boundary then Err (InputBeforeDeclaration (gn_id n) x)
                else Err (ProducerNotDefined (gn_id n) x)
     | Some p \<Rightarrow>
         if pt_dtype (port_type (br_heap b p)) = DInvalid \<and> slot < length (gn_input_types n)
         then Ok (p, b\<lparr>br_heap := (br_heap b)(p := (br_heap b p)\<lparr>port_type := gn_input_types n ! slot\<rparr>)\<rparr>)
         else Ok (p, b)))"

fun resolve_inputs ::
  "'v graph_node \<Rightarrow> nat \<Rightarrow> string list \<Rightarrow> string set \<Rightarrow> bridge \<Rightarrow> (graph_plan_error, nat list \<times> bridge) res" where
  "resolve_inputs n slot [] boundary b = Ok ([], b)"
| "resolve_inputs n slot (x # xs) boundary b =
     rbind (resolve_planning_input_port n slot x boundary b) (\<lambda>(p, b').
     rbind (resolve_inputs n (Suc slot) xs boundary b') (\<lambda>(ps, b''). Ok (p # ps, b'')))"

definition planning_alias_op :: "string \<Rightarrow> bool" where
  "planning_alias_op op \<longleftrightarrow> op = ''shape.view_as_heads'' \<or> op = ''shape.merge_heads''"

definition planning_output_port :: "'v graph_node \<Rightarrow> nat list \<Rightarrow> bridge \<Rightarrow> nat \<times> bridge" where
  "planning_output_port n ins b =
     (if planning_alias_op (gn_op n) \<and> ins \<noteq> [] then (hd ins, b)
      else (br_next b, new_port (gn_output_type n) b))"

definition bridge_node :: "op_registry \<Rightarrow> string set \<Rightarrow> 'v graph_node \<Rightarrow> bridge \<Rightarrow> (graph_plan_error, bridge) res" where
  "bridge_node reg boundary n b =
     rbind (map_err (PlanBind (gn_id n)) (new_planning_node reg n)) (\<lambda>node.
     rbind (resolve_inputs n 0 (gn_inputs n) boundary b) (\<lambda>(ins, b).
     let (out, b) = planning_output_port n ins b in
     Ok (b\<lparr>br_producers := (br_producers b)(gn_id n \<mapsto> out),
           br_nodes := br_nodes b @ [node\<lparr>n_inputs := map Some ins, n_outputs := [Some out]\<rparr>]\<rparr>)))"

definition empty_bridge :: bridge where
  "empty_bridge = \<lparr>br_heap = (\<lambda>_. empty_port zero_port_type), br_next = 0, br_nodes = [],
     br_boundary = Map.empty, br_producers = Map.empty\<rparr>"

definition build_planning_topology :: "op_registry \<Rightarrow> 'v ast_graph option \<Rightarrow> (graph_plan_error, bridge) res" where
  "build_planning_topology reg go = (case go of
     None \<Rightarrow> Err PlanNoGraph
   | Some g \<Rightarrow> fold_res (bridge_node reg (boundary_input_set g)) (g_nodes g)
       (fold add_boundary_port (g_inputs g) empty_bridge))"

definition bridge_topology :: "bridge \<Rightarrow> topology" where
  "bridge_topology b = \<lparr>t_nodes = map Some (br_nodes b), t_edges = [],
     t_workspace = \<lparr>ws_size = 0, ws_align = 0, ws_allocations = [], ws_bindings = Map.empty\<rparr>,
     t_input_ports = Map.empty, t_output_ports = Map.empty\<rparr>"

section \<open>Graph inputs and outputs\<close>

definition allocated_offset :: "port_heap \<Rightarrow> nat option \<Rightarrow> int option" where
  "allocated_offset h p = Option.bind p (\<lambda>p. map_option (\<lambda>a. wrap32 (pa_base_offset a)) (port_alloc (h p)))"

fun input_offsets ::
  "port_heap \<Rightarrow> (string \<rightharpoonup> nat) \<Rightarrow> string list \<Rightarrow> (string \<rightharpoonup> int) \<Rightarrow> (graph_plan_error, string \<rightharpoonup> int) res" where
  "input_offsets h boundary [] m = Ok m"
| "input_offsets h boundary (x # xs) m =
     (if x = [] then input_offsets h boundary xs m
      else case allocated_offset h (boundary x) of
          None \<Rightarrow> Err (InputWithoutAllocation x)
        | Some i \<Rightarrow> input_offsets h boundary xs (m(x \<mapsto> i)))"

fun output_offsets ::
  "port_heap \<Rightarrow> (string \<rightharpoonup> nat) \<Rightarrow> (string \<times> string) list \<Rightarrow> (string \<rightharpoonup> int) \<Rightarrow> (graph_plan_error, string \<rightharpoonup> int) res" where
  "output_offsets h prods [] m = Ok m"
| "output_offsets h prods ((x, p) # xs) m =
     (if x = [] then output_offsets h prods xs m
      else case allocated_offset h (prods p) of
          None \<Rightarrow> Err (OutputWithoutAllocation x p)
        | Some i \<Rightarrow> output_offsets h prods xs (m(x \<mapsto> i)))"

definition attach_graph_io_ports ::
  "topology \<Rightarrow> port_heap \<Rightarrow> 'v ast_graph \<Rightarrow> bridge \<Rightarrow> (graph_plan_error, topology) res" where
  "attach_graph_io_ports t h g b =
     rbind (input_offsets h (br_boundary b) (g_inputs g) Map.empty) (\<lambda>ins.
     rbind (output_offsets h (br_producers b) (g_outputs g) Map.empty) (\<lambda>outs.
     Ok (t\<lparr>t_input_ports := ins, t_output_ports := outs\<rparr>)))"

record plan_graph_options =
  po_registry :: op_registry
  po_bindings :: "symbol_map option"
  po_align :: int
  po_max_streams :: int

definition plan_graph ::
  "((int \<times> int) list \<Rightarrow> (int \<times> int) list) \<Rightarrow> 'v ast_graph option \<Rightarrow> plan_graph_options
     \<Rightarrow> (graph_plan_error, topology \<times> port_heap \<times> 'v ast_graph) res" where
  "plan_graph order go opts = (case go of
     None \<Rightarrow> Err PlanNoGraph
   | Some g \<Rightarrow>
       rbind (map_err PlanOrder (normalize_graph (Some g))) (\<lambda>g.
       rbind (build_planning_topology (po_registry opts) (Some g)) (\<lambda>b.
       let bindings = (case po_bindings opts of None \<Rightarrow> g_bindings g | Some m \<Rightarrow> m);
           align = (if po_align opts \<le> 0 then 64 else po_align opts) in
       rbind (map_err PlanWorkspaceFailed (plan_workspace (Some (bridge_topology b)) (br_heap b) bindings align)) (\<lambda>(t, h).
       rbind (attach_graph_io_ports t h g b) (\<lambda>t.
       rbind (map_err PlanStreams (schedule_streams order (Some t) (po_max_streams opts))) (\<lambda>t.
       Ok (t, h, g)))))))"

definition topology_for_planning :: "'v ast_graph option \<Rightarrow> topology option" where
  "topology_for_planning go = (case build_planning_topology None go of
     Inl _ \<Rightarrow> None | Inr b \<Rightarrow> Some (bridge_topology b))"

end
