(* ===== verification/Graph_Plan_Safe.thy ===== *)
theory Graph_Plan_Safe
  imports Graph_Plan
begin

text \<open>
  What \<open>PlanGraph\<close> guarantees. Ports are numbered in the order they are made: first one per graph
  input, then one per node, as long as no node is an alias operation. On the step order of the plan no
  node overwrites a value that is still to be read, and a consumer waits for its producer's stream. Values
  that no later step reads are not protected, and neither is the step order across streams: the concrete plans
  at the end show both.
\<close>

section \<open>The bridge\<close>

text \<open>The types a port can have, and the number of port references of a graph.\<close>

definition node_types :: "'v graph_node list \<Rightarrow> port_type set" where
  "node_types ns = (\<Union>n \<in> set ns. insert (gn_output_type n) (set (gn_input_types n)))"

definition port_refs :: "'v graph_node list \<Rightarrow> nat" where
  "port_refs ns = (\<Sum>n \<leftarrow> ns. Suc (length (gn_inputs n)))"

text \<open>Slot \<open>s\<close> of node \<open>i\<close> reads port \<open>p\<close>: an earlier node's output, or a boundary port.\<close>

definition slot_port :: "'v graph_node list \<Rightarrow> nat \<Rightarrow> nat \<Rightarrow> nat \<Rightarrow> nat \<Rightarrow> bool" where
  "slot_port ns nb i s p \<longleftrightarrow> (\<exists>j < i. gn_inputs (ns ! i) ! s = gn_id (ns ! j) \<and> p = nb + j)
     \<or> (p < nb \<and> gn_inputs (ns ! i) ! s \<notin> gn_id ` set (take i ns))"

definition wired :: "'v graph_node list \<Rightarrow> nat \<Rightarrow> nat \<Rightarrow> ir_node \<Rightarrow> bool" where
  "wired ns nb i x \<longleftrightarrow> n_outputs x = [Some (nb + i)] \<and> fresh_node x \<and> n_name x = gn_id (ns ! i) \<and>
     (\<exists>ps. n_inputs x = map Some ps \<and> length ps = length (gn_inputs (ns ! i))
        \<and> (\<forall>s < length ps. slot_port ns nb i s (ps ! s)))"

definition built :: "'v graph_node list \<Rightarrow> nat \<Rightarrow> bridge \<Rightarrow> bool" where
  "built ns nb b \<longleftrightarrow> length (br_nodes b) = length ns \<and> br_next b = nb + length ns
     \<and> (\<forall>i < length ns. wired ns nb i (br_nodes b ! i) \<and> port_type (br_heap b (nb + i)) = gn_output_type (ns ! i))
     \<and> (\<forall>x. br_producers b x = (if x \<in> gn_id ` set ns then Some (nb + (LEAST i. i < length ns \<and> gn_id (ns ! i) = x)) else None))
     \<and> (\<forall>x p. br_boundary b x = Some p \<longrightarrow> p < nb)
     \<and> (\<forall>p. port_id (br_heap b p) = 0 \<and> port_type (br_heap b p) \<in> insert zero_port_type (node_types ns))"

lemma boundary_ports_built:
  "\<exists>nb. built [] nb (fold add_boundary_port xs empty_bridge)"
proof -
  have "br_nodes (fold add_boundary_port xs b) = br_nodes b
    \<and> br_producers (fold add_boundary_port xs b) = br_producers b
    \<and> (\<forall>x p. br_boundary (fold add_boundary_port xs b) x = Some p \<longrightarrow> p < br_next (fold add_boundary_port xs b))
    \<and> (\<forall>p. br_heap (fold add_boundary_port xs b) p = empty_port zero_port_type)"
    if "\<forall>x p. br_boundary b x = Some p \<longrightarrow> p < br_next b" "\<forall>p. br_heap b p = empty_port zero_port_type" for b
    using that
  proof (induction xs arbitrary: b)
    case (Cons x xs)
    let ?b = "add_boundary_port x b"
    have "\<forall>x p. br_boundary ?b x = Some p \<longrightarrow> p < br_next ?b" "\<forall>p. br_heap ?b p = empty_port zero_port_type"
      "br_nodes ?b = br_nodes b" "br_producers ?b = br_producers b"
      using Cons.prems by (auto simp: add_boundary_port_def new_port_def less_Suc_eq)
    with Cons.IH [of ?b] show ?case by simp
  qed simp
  from this [of empty_bridge] show ?thesis
    by (intro exI [of _ "br_next (fold add_boundary_port xs empty_bridge)"])
      (simp add: built_def empty_bridge_def empty_port_def)
qed

definition resolves_to :: "(string \<rightharpoonup> nat) \<Rightarrow> nat \<Rightarrow> string \<Rightarrow> nat \<Rightarrow> bool" where
  "resolves_to m nb x p \<longleftrightarrow> (case m x of Some q \<Rightarrow> p = q | None \<Rightarrow> p < nb)"

lemma resolve_inputs_ok:
  "resolve_inputs n slot xs B b = Ok (ps, b') \<Longrightarrow> (\<forall>x p. br_boundary b x = Some p \<longrightarrow> p < nb) \<Longrightarrow>
     length ps = length xs
     \<and> (\<forall>s < length xs. resolves_to (br_producers b) nb (xs ! s) (ps ! s))
     \<and> br_nodes b' = br_nodes b \<and> br_next b' = br_next b \<and> br_producers b' = br_producers b \<and> br_boundary b' = br_boundary b
     \<and> (\<forall>p. nb \<le> p \<longrightarrow> br_heap b' p = br_heap b p)
     \<and> (\<forall>p. port_id (br_heap b' p) = port_id (br_heap b p)
          \<and> (port_type (br_heap b' p) = port_type (br_heap b p) \<or> port_type (br_heap b' p) \<in> set (gn_input_types n)))"
proof (induction xs arbitrary: slot b ps)
  case (Cons x xs)
  from Cons.prems(1) obtain p b1 ps' where r: "resolve_planning_input_port n slot x B b = Ok (p, b1)"
    "resolve_inputs n (Suc slot) xs B b1 = Ok (ps', b')" "ps = p # ps'" by auto
  have one: "resolves_to (br_producers b) nb x p
     \<and> br_nodes b1 = br_nodes b \<and> br_next b1 = br_next b \<and> br_producers b1 = br_producers b \<and> br_boundary b1 = br_boundary b
     \<and> (\<forall>p. nb \<le> p \<longrightarrow> br_heap b1 p = br_heap b p)
     \<and> (\<forall>p. port_id (br_heap b1 p) = port_id (br_heap b p)
          \<and> (port_type (br_heap b1 p) = port_type (br_heap b p) \<or> port_type (br_heap b1 p) \<in> set (gn_input_types n)))"
  proof -
    have lt: "br_boundary b y = Some q \<Longrightarrow> q < nb" for y q using Cons.prems(2) by blast
    show ?thesis
    proof (cases "br_producers b x")
      case None
      with r(1) obtain q where q: "br_boundary b x = Some q" "p = q"
        by (auto simp: resolve_planning_input_port_def split: option.splits if_splits)
      with r(1) None lt [OF q(1)] show ?thesis
        by (auto simp: resolve_planning_input_port_def resolves_to_def split: if_splits)
    qed (use r(1) in \<open>auto simp: resolve_planning_input_port_def resolves_to_def\<close>)
  qed
  then have "\<forall>x p. br_boundary b1 x = Some p \<longrightarrow> p < nb" using Cons.prems(2) by simp
  note ih = Cons.IH [OF r(2) this]
  show ?case
  proof (intro conjI)
    show "length ps = length (x # xs)" using ih r(3) by simp
    show "\<forall>s < length (x # xs). resolves_to (br_producers b) nb ((x # xs) ! s) (ps ! s)"
    proof (intro allI impI)
      fix s assume "s < length (x # xs)"
      then show "resolves_to (br_producers b) nb ((x # xs) ! s) (ps ! s)"
        using ih one r(3) by (cases s) auto
    qed
    show "\<forall>p. port_id (br_heap b' p) = port_id (br_heap b p)
          \<and> (port_type (br_heap b' p) = port_type (br_heap b p) \<or> port_type (br_heap b' p) \<in> set (gn_input_types n))"
      using ih one by metis
  qed (use ih one in simp_all)
qed simp

lemma wired_snoc: "i < length ns \<Longrightarrow> wired (ns @ [n]) nb i x \<longleftrightarrow> wired ns nb i x"
proof -
  assume i: "i < length ns"
  then have a: "(ns @ [n]) ! i = ns ! i" "take i (ns @ [n]) = take i ns" by (simp_all add: nth_append)
  have b: "(ns @ [n]) ! j = ns ! j" if "j < i" for j using that i by (simp add: nth_append)
  have "slot_port (ns @ [n]) nb i = slot_port ns nb i"
    unfolding slot_port_def a by (intro ext) (simp add: b cong: conj_cong)
  then show ?thesis by (simp only: wired_def a)
qed

lemma bridge_node_built:
  assumes ok: "bridge_node reg B n b = Ok b'" and inv: "built ns nb b" and noalias: "\<not> planning_alias_op (gn_op n)"
    and new: "gn_id n \<notin> gn_id ` set ns"
  shows "built (ns @ [n]) nb b'"
proof -
  let ?k = "length ns"
  have bound: "\<forall>x p. br_boundary b x = Some p \<longrightarrow> p < nb" using inv by (simp add: built_def)
  from ok noalias obtain node ins b1 where r: "new_planning_node reg n = Ok node"
    "resolve_inputs n 0 (gn_inputs n) B b = Ok (ins, b1)"
    and b': "b' = (new_port (gn_output_type n) b1)\<lparr>br_producers := (br_producers b1)(gn_id n \<mapsto> br_next b1),
       br_nodes := br_nodes b1 @ [node\<lparr>n_inputs := map Some ins, n_outputs := [Some (br_next b1)]\<rparr>]\<rparr>"
    by (auto simp: bridge_node_def planning_output_port_def new_port_def)
  note res = resolve_inputs_ok [OF r(2) bound]
  from r(1) have node: "fresh_node node" "n_name node = gn_id n"
    by (auto simp: new_planning_node_def fresh_node_def Let_def split: if_splits)
  have k: "br_next b1 = nb + ?k" "length (br_nodes b1) = ?k" using res inv by (simp_all add: built_def)
  have least: "(LEAST i. i < length (ns @ [n]) \<and> gn_id ((ns @ [n]) ! i) = x) = (LEAST i. i < ?k \<and> gn_id (ns ! i) = x)"
    if "x \<in> gn_id ` set ns" for x
  proof -
    from that obtain j where j: "j < ?k" "gn_id (ns ! j) = x" by (auto simp: in_set_conv_nth)
    show ?thesis
    proof (rule antisym; rule Least_le)
      from LeastI [of "\<lambda>i. i < ?k \<and> gn_id (ns ! i) = x" j] j
      show "(LEAST i. i < ?k \<and> gn_id (ns ! i) = x) < length (ns @ [n]) \<and>
          gn_id ((ns @ [n]) ! (LEAST i. i < ?k \<and> gn_id (ns ! i) = x)) = x" by (auto simp: nth_append)
      let ?L = "LEAST i. i < length (ns @ [n]) \<and> gn_id ((ns @ [n]) ! i) = x"
      have "?L \<le> j" using j by (intro Least_le) (auto simp: nth_append)
      moreover have "?L < length (ns @ [n]) \<and> gn_id ((ns @ [n]) ! ?L) = x"
        using LeastI [of "\<lambda>i. i < length (ns @ [n]) \<and> gn_id ((ns @ [n]) ! i) = x" j] j by (auto simp: nth_append)
      ultimately show "?L < ?k \<and> gn_id (ns ! ?L) = x" using j(1) by (auto simp: nth_append split: if_splits)
    qed
  qed
  have least_new: "(LEAST i. i < length (ns @ [n]) \<and> gn_id ((ns @ [n]) ! i) = gn_id n) = ?k"
    using new by (intro Least_equality) (auto simp: nth_append less_Suc_eq split: if_splits, metis image_eqI nth_mem)
  have prod: "br_producers b x = Some p \<Longrightarrow> \<exists>j < ?k. x = gn_id (ns ! j) \<and> p = nb + j" for x p
  proof -
    assume "br_producers b x = Some p"
    with inv have x: "x \<in> gn_id ` set ns" "p = nb + (LEAST i. i < ?k \<and> gn_id (ns ! i) = x)"
      by (auto simp: built_def split: if_splits)
    then obtain j where "j < ?k" "gn_id (ns ! j) = x" by (auto simp: in_set_conv_nth)
    then have "(LEAST i. i < ?k \<and> gn_id (ns ! i) = x) < ?k \<and> gn_id (ns ! (LEAST i. i < ?k \<and> gn_id (ns ! i) = x)) = x"
      by (intro LeastI [of "\<lambda>i. i < ?k \<and> gn_id (ns ! i) = x" j]) simp
    then show ?thesis unfolding x(2) by (intro exI [of _ "LEAST i. i < ?k \<and> gn_id (ns ! i) = x"]) simp
  qed
  have slots: "\<forall>s < length ins. slot_port (ns @ [n]) nb ?k s (ins ! s)"
  proof (intro allI impI)
    fix s assume "s < length ins"
    then have s: "resolves_to (br_producers b) nb (gn_inputs n ! s) (ins ! s)" using res by simp
    show "slot_port (ns @ [n]) nb ?k s (ins ! s)"
    proof (cases "br_producers b (gn_inputs n ! s)")
      case None
      then have "gn_inputs n ! s \<notin> gn_id ` set ns" using inv by (auto simp: built_def split: if_splits)
      with None s show ?thesis by (simp add: slot_port_def resolves_to_def)
    next
      case (Some p)
      with s have "ins ! s = p" by (simp add: resolves_to_def)
      with prod [OF Some] obtain j where j: "j < ?k" "gn_inputs n ! s = gn_id (ns ! j)" "ins ! s = nb + j" by blast
      then have "gn_inputs ((ns @ [n]) ! ?k) ! s = gn_id ((ns @ [n]) ! j)" by (simp add: nth_append)
      with j show ?thesis unfolding slot_port_def by blast
    qed
  qed
  have types: "node_types (ns @ [n]) = node_types ns \<union> insert (gn_output_type n) (set (gn_input_types n))"
    by (auto simp: node_types_def)
  show ?thesis
    unfolding built_def
  proof (intro conjI allI impI)
    show "length (br_nodes b') = length (ns @ [n])" "br_next b' = nb + length (ns @ [n])"
      using k by (simp_all add: b' new_port_def)
  next
    fix i assume i: "i < length (ns @ [n])"
    show "wired (ns @ [n]) nb i (br_nodes b' ! i)"
    proof (cases "i = ?k")
      case True
      with k slots node res show ?thesis by (auto simp: wired_def b' nth_append fresh_node_def)
    next
      case False
      with i k res inv show ?thesis by (simp add: wired_snoc b' nth_append built_def)
    qed
    show "port_type (br_heap b' (nb + i)) = gn_output_type ((ns @ [n]) ! i)"
    proof (cases "i = ?k")
      case True
      with k show ?thesis by (simp add: b' new_port_def empty_port_def nth_append)
    next
      case False
      with i k res inv show ?thesis by (simp add: b' new_port_def nth_append built_def)
    qed
  next
    fix x
    have p1: "br_producers b1 = br_producers b" using res by blast
    show "br_producers b' x = (if x \<in> gn_id ` set (ns @ [n])
        then Some (nb + (LEAST i. i < length (ns @ [n]) \<and> gn_id ((ns @ [n]) ! i) = x)) else None)"
    proof (cases "x = gn_id n")
      case True
      with k least_new show ?thesis by (simp add: b' new_port_def)
    next
      case False
      moreover have "br_producers b' x = br_producers b x" using False by (simp add: b' new_port_def p1)
      moreover have "br_producers b x = (if x \<in> gn_id ` set ns
          then Some (nb + (LEAST i. i < ?k \<and> gn_id (ns ! i) = x)) else None)" using inv by (simp add: built_def)
      ultimately show ?thesis using least [of x] by auto
    qed
  next
    fix x p assume "br_boundary b' x = Some p"
    with bound res show "p < nb" by (simp add: b' new_port_def)
  next
    fix p
    have h: "port_id (br_heap b p) = 0" "port_type (br_heap b p) \<in> insert zero_port_type (node_types ns)"
      using inv by (simp_all add: built_def)
    have h1: "port_id (br_heap b1 p) = port_id (br_heap b p)"
      "port_type (br_heap b1 p) = port_type (br_heap b p) \<or> port_type (br_heap b1 p) \<in> set (gn_input_types n)"
      using res by blast+
    show "port_id (br_heap b' p) = 0" using h h1 by (simp add: b' new_port_def empty_port_def)
    show "port_type (br_heap b' p) \<in> insert zero_port_type (node_types (ns @ [n]))"
      using h h1 by (auto simp: b' new_port_def empty_port_def types)
  qed
qed

lemma bridge_nodes_built:
  assumes "fold_res (bridge_node reg B) ns b = Ok b'" and "built ms nb b"
    and "\<forall>n \<in> set ns. \<not> planning_alias_op (gn_op n)" and "distinct (node_ids (ms @ ns))"
  shows "built (ms @ ns) nb b'"
  using assms
proof (induction ns arbitrary: ms b)
  case (Cons n ns)
  from Cons.prems(1) obtain b1 where b1: "bridge_node reg B n b = Ok b1" "fold_res (bridge_node reg B) ns b1 = Ok b'" by auto
  have "built (ms @ [n]) nb b1"
    using Cons.prems(3,4) by (intro bridge_node_built [OF b1(1) Cons.prems(2)]) auto
  from Cons.IH [OF b1(2) this] Cons.prems(3,4) show ?case by simp
qed simp

section \<open>The events of a built topology\<close>

lemma events_from_append:
  "events_from s (us @ vs) = events_from s us @ events_from (s + int (length us)) vs"
  by (induction s us rule: events_from.induct) (simp_all add: algebra_simps)

lemma built_inputs_early:
  assumes "built ns nb b" and "k < length ns" and "Some p \<in> set (n_inputs (br_nodes b ! k))"
  shows "p < nb + k"
proof -
  from assms obtain ps where ps: "n_inputs (br_nodes b ! k) = map Some ps"
    "\<forall>s < length ps. slot_port ns nb k s (ps ! s)" by (auto simp: built_def wired_def)
  with assms(3) obtain s where s: "s < length ps" "ps ! s = p" by (auto simp: in_set_conv_nth)
  with ps(2) have "slot_port ns nb k s p" by blast
  then show ?thesis by (auto simp: slot_port_def)
qed

lemma built_reads:
  assumes b: "built ns nb b" and d: "distinct (node_ids ns)" and k: "i < k" "k < length ns"
    and r: "gn_id (ns ! i) \<in> set (gn_inputs (ns ! k))"
  shows "Some (nb + i) \<in> set (n_inputs (br_nodes b ! k))"
proof -
  from b k obtain ps where ps: "n_inputs (br_nodes b ! k) = map Some ps" "length ps = length (gn_inputs (ns ! k))"
    "\<forall>s < length ps. slot_port ns nb k s (ps ! s)" by (auto simp: built_def wired_def)
  from r obtain s where s: "s < length ps" "gn_inputs (ns ! k) ! s = gn_id (ns ! i)" unfolding ps(2)
    by (auto simp: in_set_conv_nth)
  have "gn_id (ns ! i) \<in> gn_id ` set (take k ns)" using k by (intro imageI) (auto simp: in_set_conv_nth)
  moreover have "slot_port ns nb k s (ps ! s)" using ps(3) s(1) by blast
  ultimately obtain j where j: "j < k" "gn_id (ns ! i) = gn_id (ns ! j)" "ps ! s = nb + j"
    unfolding slot_port_def s(2) by blast
  with d k have "j = i" by (simp add: distinct_conv_nth)
      (metis length_map less_trans nth_map)
  with j(3) s(1) have "nb + i \<in> set ps" by (metis nth_mem)
  with ps(1) show ?thesis by simp
qed

lemma built_split:
  assumes "built ns nb b" and "i < length ns"
  shows "events_from 0 (map Some (br_nodes b)) = events_from 0 (map Some (take i (br_nodes b)))
    @ node_events (int i) (br_nodes b ! i) @ events_from (int i + 1) (map Some (drop (Suc i) (br_nodes b)))"
proof -
  have l: "length (br_nodes b) = length ns" using assms(1) by (simp add: built_def)
  have "map Some (br_nodes b) = map Some (take i (br_nodes b)) @ Some (br_nodes b ! i) # map Some (drop (Suc i) (br_nodes b))"
    using assms(2) l by (metis id_take_nth_drop list.map(2) map_append)
  then show ?thesis using assms(2) l by (simp add: events_from_append)
qed

lemma built_produced:
  assumes b: "built ns nb b" and i: "i < length ns"
  shows "produced_at (map Some (br_nodes b)) (nb + i) (int i)"
proof -
  have out: "n_outputs (br_nodes b ! j) = [Some (nb + j)]" if "j < length ns" for j
    using b that by (simp add: built_def wired_def)
  have l: "length (br_nodes b) = length ns" using b by (simp add: built_def)
  have "ev_ref e \<noteq> Some (nb + i)" if e: "e \<in> set (events_from 0 (map Some (take i (br_nodes b))))" for e
  proof
    assume "ev_ref e = Some (nb + i)"
    with e have "nb + i \<in> refs (all_ports (map Some (take i (br_nodes b))))"
      using event_refs by blast
    then obtain x where x: "x \<in> set (take i (br_nodes b))" "Some (nb + i) \<in> set (n_outputs x) \<union> set (n_inputs x)"
      by (auto simp: all_ports_def node_ports_def)
    from x(1) obtain j where j: "j < i" "br_nodes b ! j = x" using i l by (auto simp: in_set_conv_nth)
    with x(2) out [of j] built_inputs_early [OF b, of j "nb + i"] i show False by auto
  qed
  then have none: "List.find (\<lambda>e. ev_ref e = Some (nb + i)) (events_from 0 (map Some (take i (br_nodes b)))) = None"
    by (simp add: find_None_iff)
  have find_app: "List.find P (xs @ ys) = (case List.find P xs of Some x \<Rightarrow> Some x | None \<Rightarrow> List.find P ys)"
    for P :: "live_event \<Rightarrow> bool" and xs ys by (induction xs) auto
  show ?thesis
    unfolding produced_at_def built_split [OF b i] find_app none
    by (simp add: node_events_def out [OF i])
qed

lemma built_read_at:
  assumes b: "built ns nb b" and "distinct (node_ids ns)" and k: "i < k" "k < length ns"
    and "gn_id (ns ! i) \<in> set (gn_inputs (ns ! k))"
  shows "read_at (map Some (br_nodes b)) (nb + i) (int k)"
proof -
  have "Some (nb + i) \<in> set (n_inputs (br_nodes b ! k))" using assms by (rule built_reads)
  then have "\<lparr>ev_step = int k, ev_out = False, ev_ref = Some (nb + i)\<rparr> \<in> set (events_from 0 (map Some (br_nodes b)))"
    unfolding built_split [OF b k(2)] by (auto simp: node_events_def)
  then show ?thesis unfolding read_at_def by (rule bexI [rotated]) simp
qed

lemma producer_index_seq:
  "\<forall>i < length xs. n_outputs (xs ! i) = [Some (nb + k + i)] \<Longrightarrow> \<forall>a. idx a \<noteq> None \<longrightarrow> a < nb + k \<Longrightarrow>
   producer_index_from k (map Some xs) idx a
     = (if nb + k \<le> a \<and> a < nb + k + length xs then Some (a - nb) else idx a)"
proof (induction xs arbitrary: k idx)
  case (Cons x xs)
  let ?idx = "idx(nb + k \<mapsto> k)"
  have x: "n_outputs x = [Some (nb + k)]" using Cons.prems(1) by fastforce
  have free: "idx (nb + k) = None" using Cons.prems(2) by (cases "idx (nb + k)") fastforce+
  have "\<forall>i < length xs. n_outputs (xs ! i) = [Some (nb + Suc k + i)]" using Cons.prems(1) by fastforce
  moreover have "\<forall>a. ?idx a \<noteq> None \<longrightarrow> a < nb + Suc k" using Cons.prems(2) by (auto simp: less_Suc_eq)
  ultimately have "producer_index_from (Suc k) (map Some xs) ?idx a
    = (if nb + Suc k \<le> a \<and> a < nb + Suc k + length xs then Some (a - nb) else ?idx a)" by (rule Cons.IH)
  then show ?case using free by (auto simp: x)
qed auto

lemma built_producer_index:
  assumes "built ns nb b"
  shows "build_producer_index (map Some (br_nodes b)) a = (if nb \<le> a \<and> a < nb + length ns then Some (a - nb) else None)"
  using assms producer_index_seq [of "br_nodes b" nb 0 Map.empty a]
  by (auto simp: build_producer_index_def built_def wired_def)

lemma built_schedulable:
  assumes b: "built ns nb b"
  shows "producers_first (map Some (br_nodes b))"
    and "\<forall>n \<in> set (map Some (br_nodes b)). \<forall>x. n = Some x \<longrightarrow> fresh_node x"
proof -
  have l: "length (br_nodes b) = length ns" using b by (simp add: built_def)
  show "producers_first (map Some (br_nodes b))"
    using built_inputs_early [OF b] l
    by (force simp: producers_first_def built_producer_index [OF b] split: if_splits)
  show "\<forall>n \<in> set (map Some (br_nodes b)). \<forall>x. n = Some x \<longrightarrow> fresh_node x"
    using b l by (fastforce simp: in_set_conv_nth built_def wired_def)
qed

lemma built_ports:
  assumes b: "built ns nb b"
  shows "length (all_ports (map Some (br_nodes b))) = port_refs ns"
    and "input_count (map Some (br_nodes b)) (length ns) \<le> int (port_refs ns)"
proof -
  have l: "length (br_nodes b) = length ns" using b by (simp add: built_def)
  have w: "length (n_outputs (br_nodes b ! i)) = 1 \<and> length (n_inputs (br_nodes b ! i)) = length (gn_inputs (ns ! i))"
    if "i < length ns" for i using b that by (auto simp: built_def wired_def)
  have eq: "map (\<lambda>x. length (n_inputs x)) (br_nodes b) = map (\<lambda>n. length (gn_inputs n)) ns"
    using l w by (intro nth_equalityI) auto
  have one: "\<forall>x \<in> set (br_nodes b). length (n_outputs x) = 1" using l w by (fastforce simp: in_set_conv_nth)
  have "length (all_ports (map Some xs)) = (\<Sum>x \<leftarrow> xs. Suc (length (n_inputs x)))"
    if "\<forall>x \<in> set xs. length (n_outputs x) = 1" for xs using that by (induction xs) auto
  from this [OF one] have "length (all_ports (map Some (br_nodes b))) = (\<Sum>x \<leftarrow> map (\<lambda>x. length (n_inputs x)) (br_nodes b). Suc x)"
    by (simp add: o_def)
  also have "\<dots> = port_refs ns" unfolding eq by (simp add: port_refs_def o_def)
  finally show "length (all_ports (map Some (br_nodes b))) = port_refs ns" .
  have "input_count (map Some (br_nodes b)) (length ns) = (\<Sum>x \<leftarrow> map (\<lambda>x. length (n_inputs x)) (br_nodes b). int x)"
    using l by (simp add: input_count_def o_def)
  also have "\<dots> \<le> int (port_refs ns)" unfolding eq port_refs_def
    by (induction ns) auto
  finally show "input_count (map Some (br_nodes b)) (length ns) \<le> int (port_refs ns)" .
qed

section \<open>The plan of a graph\<close>

definition plan_bindings :: "plan_graph_options \<Rightarrow> 'v ast_graph \<Rightarrow> symbol_map" where
  "plan_bindings opts g = (case po_bindings opts of None \<Rightarrow> g_bindings g | Some m \<Rightarrow> m)"

definition plan_align :: "plan_graph_options \<Rightarrow> int" where
  "plan_align opts = (if po_align opts \<le> 0 then 64 else po_align opts)"

text \<open>The numbers of a plan stay in range: few enough ports, and byte sizes of at most \<open>M\<close>.\<close>

definition plan_fits :: "'v graph_node list \<Rightarrow> symbol_map \<Rightarrow> int \<Rightarrow> int \<Rightarrow> bool" where
  "plan_fits ns m a M \<longleftrightarrow> int (port_refs ns) < 2 ^ 31 - 1 \<and> 0 \<le> M \<and> (M + a) * (int (port_refs ns) + 1) < 2 ^ 63
     \<and> (\<forall>t \<in> insert zero_port_type (node_types ns). \<forall>s. port_byte_size t m = Ok s \<longrightarrow> 0 \<le> s \<and> s \<le> M)"

lemma plan_fits_perm: "mset ns = mset ms \<Longrightarrow> plan_fits ns m a M = plan_fits ms m a M"
proof -
  assume e: "mset ns = mset ms"
  have "port_refs ns = port_refs ms"
    using arg_cong [OF e, of "\<lambda>x. sum_mset (image_mset (\<lambda>n. Suc (length (gn_inputs n))) x)"]
    by (simp add: port_refs_def sum_mset_sum_list [symmetric])
  moreover have "node_types ns = node_types ms" using mset_eq_setD [OF e] by (simp add: node_types_def)
  ultimately show ?thesis by (simp add: plan_fits_def)
qed

lemma port_refs_length: "length ns \<le> port_refs ns"
  unfolding port_refs_def by (induction ns) auto

lemma events_count: "length (events_from s nodes) = length (all_ports nodes)"
  by (induction s nodes rule: events_from.induct) (simp_all add: node_events_def)

lemma interval_total:
  assumes live: "analyze_liveness nodes h m = Ok ivs" and a: "0 < a" and M: "0 \<le> M"
    and size: "\<forall>p. \<forall>s. port_byte_size (port_type (h p)) m = Ok s \<longrightarrow> 0 \<le> s \<and> s \<le> M"
  shows "\<forall>iv \<in> set ivs. 0 \<le> iv_size iv"
    and "(\<Sum>iv \<leftarrow> ivs. round_up (iv_size iv) a) \<le> (M + a) * int (length (all_ports nodes))"
proof -
  from analyze_liveness_spec [OF live] have sp: "live_intervals m h (events_from 0 nodes) ivs" by blast
  have sz: "0 \<le> iv_size iv \<and> iv_size iv \<le> M" if "iv \<in> set ivs" for iv
    using sp that size by (auto simp: live_intervals_def lifetime_of_def)
  then show "\<forall>iv \<in> set ivs. 0 \<le> iv_size iv" by blast
  have "length ivs = card (iv_port ` set ivs)"
    using sp by (simp add: live_intervals_def distinct_card flip: set_map)
      (metis distinct_card length_map list.set_map)
  also have "\<dots> \<le> card (ev_id h ` set (events_from 0 nodes))"
    using sp by (intro card_mono) (auto simp: live_intervals_def)
  also have "\<dots> \<le> length (events_from 0 nodes)" by (metis card_length length_map list.set_map)
  finally have len: "length ivs \<le> length (all_ports nodes)" by (simp add: events_count)
  have "(\<Sum>iv \<leftarrow> ivs. round_up (iv_size iv) a) \<le> (\<Sum>iv \<leftarrow> ivs. M + a)"
    using sz round_up_lt [OF a] by (intro sum_list_mono) (smt (verit))
  also have "\<dots> = (M + a) * int (length ivs)" by (simp add: sum_list_triv)
  also have "\<dots> \<le> (M + a) * int (length (all_ports nodes))" using len a M by (intro mult_left_mono) simp_all
  finally show "(\<Sum>iv \<leftarrow> ivs. round_up (iv_size iv) a) \<le> (M + a) * int (length (all_ports nodes))" .
qed

lemma build_planning_built:
  fixes g :: "'v ast_graph"
  assumes "build_planning_topology reg (Some g) = Ok b" and "distinct (node_ids (g_nodes g))"
    and "\<forall>n \<in> set (g_nodes g). \<not> planning_alias_op (gn_op n)"
  shows "\<exists>nb. built (g_nodes g) nb b"
proof -
  obtain nb where "built ([] :: 'v graph_node list) nb (fold add_boundary_port (g_inputs g) empty_bridge)" using boundary_ports_built by blast
  with assms have "built ([] @ g_nodes g) nb b"
    by (intro bridge_nodes_built [where b = "fold add_boundary_port (g_inputs g) empty_bridge"])
      (simp_all add: build_planning_topology_def)
  then show ?thesis by (intro exI [of _ nb]) simp
qed

text \<open>The byte range of the value that node \<open>i\<close> computes.\<close>

definition value_bytes ::
  "topology \<Rightarrow> port_heap \<Rightarrow> symbol_map \<Rightarrow> 'v graph_node list \<Rightarrow> nat \<Rightarrow> (int \<times> int) option" where
  "value_bytes t h m ns i = Option.bind (t_nodes t ! i) (\<lambda>n. case n_outputs n of
     Some p # _ \<Rightarrow> (case port_byte_size (gn_output_type (ns ! i)) m of
       Inl _ \<Rightarrow> None | Inr s \<Rightarrow> map_option (\<lambda>lo. (lo, lo + s)) (port_base h p))
   | _ \<Rightarrow> None)"

definition bytes_apart :: "(int \<times> int) option \<Rightarrow> (int \<times> int) option \<Rightarrow> bool" where
  "bytes_apart x y = (case (x, y) of
     (Some (lo, hi), Some (lo', hi')) \<Rightarrow> hi \<le> lo' \<or> hi' \<le> lo | _ \<Rightarrow> True)"

lemma built_workspace:
  assumes b: "built ns nb b" and d: "distinct (node_ids ns)"
    and fits: "plan_fits ns m (if align \<le> 0 then 64 else align) M"
    and run: "plan_workspace (Some (bridge_topology b)) (br_heap b) m align = Ok (t, h)"
  shows "t_nodes t = map Some (br_nodes b)"
    and "i < length ns \<Longrightarrow> \<exists>lo s. port_base h (nb + i) = Some lo \<and> port_byte_size (gn_output_type (ns ! i)) m = Ok s
      \<and> (if align \<le> 0 then 64 else align) dvd lo \<and> 0 \<le> lo \<and> lo + s \<le> ws_size (t_workspace t)"
    and "\<lbrakk> i < k; k < length ns; gn_id (ns ! i) \<in> set (gn_inputs (ns ! k)); i \<le> j; j \<le> k; j \<noteq> i;
        port_base h (nb + i) = Some lo; port_byte_size (gn_output_type (ns ! i)) m = Ok s;
        port_base h (nb + j) = Some lo'; port_byte_size (gn_output_type (ns ! j)) m = Ok s' \<rbrakk>
      \<Longrightarrow> lo + s \<le> lo' \<or> lo' + s' \<le> lo"
proof -
  define a where "a = (if align \<le> 0 then 64 else align)"
  let ?t = "bridge_topology b" and ?h = "br_heap b"
  have nodes: "t_nodes ?t = map Some (br_nodes b)" by (simp add: bridge_topology_def)
  have l: "length (br_nodes b) = length ns" using b by (simp add: built_def)
  from run obtain h1 ivs where al: "is_power_of_two a"
    and num: "assign_port_ids ?h (t_nodes ?t) = Some h1" and live: "analyze_liveness (t_nodes ?t) h1 m = Ok ivs"
    and tn: "t_nodes t = map Some (br_nodes b)"
    unfolding plan_workspace_def a_def
    by (auto simp: Let_def nodes split: if_splits option.splits)
  then have pos: "0 < a" by (simp add: power_of_two_pos)
  have none: "None \<notin> set (t_nodes ?t)" by (auto simp: nodes)
  note fit = fits [folded a_def, unfolded plan_fits_def]
  have zero: "id_of ?h p = 0" for p using b by (simp add: built_def)
  have ids: "(0 :: int) \<le> 0" "\<forall>p \<in> refs (all_ports (t_nodes ?t)). id_of ?h p \<le> 0"
    "0 + int (length (all_ports (t_nodes ?t))) < 2 ^ 31 - 1" "ids_unique ?h (all_ports (t_nodes ?t))"
    using fit by (simp_all add: zero nodes built_ports [OF b] ids_unique_def)
  have ty: "port_type (h1 p) = port_type (?h p)" for p
    using assign_port_ids_numbers [OF none ids] num by simp
  have types: "\<forall>t \<in> insert zero_port_type (node_types ns). \<forall>s. port_byte_size t m = Ok s \<longrightarrow> 0 \<le> s \<and> s \<le> M"
    using fit by blast
  have size: "\<forall>p. \<forall>s. port_byte_size (port_type (h1 p)) m = Ok s \<longrightarrow> 0 \<le> s \<and> s \<le> M"
  proof (intro allI impI)
    fix p s assume "port_byte_size (port_type (h1 p)) m = Ok s"
    moreover have "port_type (?h p) \<in> insert zero_port_type (node_types ns)" using b by (simp add: built_def)
    ultimately show "0 \<le> s \<and> s \<le> M" using bspec [OF types, of "port_type (?h p)"] by (simp only: ty)
  qed
  have M: "0 \<le> M" using fit by blast
  note tot = interval_total [OF live pos M size]
  have "(M + a) * int (length (all_ports (t_nodes ?t))) + a \<le> (M + a) * (int (port_refs ns) + 1)"
    using pos M by (simp add: nodes built_ports [OF b] algebra_simps)
  with tot(2) fit have sum: "(\<Sum>iv \<leftarrow> ivs. round_up (iv_size iv) a) + a < 2 ^ 63" by linarith
  note spec = plan_workspace_spec [OF a_def al none ids num live tot(1) sum]
  show "t_nodes t = map Some (br_nodes b)" by (rule tn)
  have out: "port_type (?h (nb + i)) = gn_output_type (ns ! i)" if "i < length ns" for i
    using b that by (simp add: built_def)
  have mem: "nb + i \<in> refs (all_ports (t_nodes ?t))" if i: "i < length ns" for i
  proof -
    have "n_outputs (br_nodes b ! i) = [Some (nb + i)]" using b i by (simp add: built_def wired_def)
    moreover have "br_nodes b ! i \<in> set (br_nodes b)" using i l by simp
    ultimately show ?thesis unfolding nodes all_ports_def by (force simp: node_ports_def)
  qed
  have fin: "t' = t \<and> h' = h" if "plan_workspace (Some ?t) ?h m align = Ok (t', h')" for t' h'
    using that run by simp
  have placed: "\<forall>p \<in> refs (all_ports (t_nodes ?t)). \<exists>b s. port_base h p = Some b
      \<and> port_byte_size (port_type (?h p)) m = Ok s \<and> a dvd b \<and> 0 \<le> b \<and> b + s \<le> ws_size (t_workspace t)"
    and apart: "\<forall>p \<in> refs (all_ports (t_nodes ?t)). \<forall>q \<in> refs (all_ports (t_nodes ?t)). \<forall>i j k b c s s'.
          p \<noteq> q \<and> produced_at (t_nodes ?t) p i \<and> read_at (t_nodes ?t) p k
          \<and> produced_at (t_nodes ?t) q j \<and> i \<le> j \<and> j \<le> k
          \<and> port_base h p = Some b \<and> port_byte_size (port_type (?h p)) m = Ok s
          \<and> port_base h q = Some c \<and> port_byte_size (port_type (?h q)) m = Ok s'
          \<longrightarrow> b + s \<le> c \<or> c + s' \<le> b"
    using spec by (elim exE conjE, drule_tac fin, simp only:)+
  show "\<exists>lo s. port_base h (nb + i) = Some lo \<and> port_byte_size (gn_output_type (ns ! i)) m = Ok s
      \<and> (if align \<le> 0 then 64 else align) dvd lo \<and> 0 \<le> lo \<and> lo + s \<le> ws_size (t_workspace t)" if i: "i < length ns"
    using bspec [OF placed mem [OF i]] by (simp only: out [OF i] a_def)
  show "lo + s \<le> lo' \<or> lo' + s' \<le> lo"
    if k: "i < k" "k < length ns" "gn_id (ns ! i) \<in> set (gn_inputs (ns ! k))" and j: "i \<le> j" "j \<le> k" "j \<noteq> i"
      and at: "port_base h (nb + i) = Some lo" "port_byte_size (gn_output_type (ns ! i)) m = Ok s"
        "port_base h (nb + j) = Some lo'" "port_byte_size (gn_output_type (ns ! j)) m = Ok s'"
  proof -
    have i: "i < length ns" and jl: "j < length ns" using k j by simp_all
    have at': "port_byte_size (port_type (?h (nb + i))) m = Ok s" "port_byte_size (port_type (?h (nb + j))) m = Ok s'"
      using at by (simp_all add: out [OF i] out [OF jl])
    have ev: "produced_at (t_nodes ?t) (nb + i) (int i)" "read_at (t_nodes ?t) (nb + i) (int k)"
      "produced_at (t_nodes ?t) (nb + j) (int j)"
      unfolding nodes using built_produced [OF b i] built_read_at [OF b d k] built_produced [OF b jl] by simp_all
    have ne: "nb + i \<noteq> nb + j" and le: "int i \<le> int j" "int j \<le> int k" using j by simp_all
    from bspec [OF bspec [OF apart mem [OF i]] mem [OF jl]] ne ev le at(1,3) at' show ?thesis by blast
  qed
qed

lemma attach_graph_io_ports_keeps:
  "attach_graph_io_ports t h g b = Ok t' \<Longrightarrow> t_nodes t' = t_nodes t \<and> t_workspace t' = t_workspace t"
  by (auto simp: attach_graph_io_ports_def)

text \<open>
  C1. Planning a graph end to end. Take a graph without alias operations whose port counts and byte sizes
  stay in range. If \<open>PlanGraph\<close> succeeds, the nodes of the plan are those of the graph in the
  normalised order; the value of every node has an aligned byte range inside the workspace; and when a
  later node \<open>k\<close> reads the value of node \<open>i\<close>, no node from \<open>i\<close> to \<open>k\<close> other than \<open>i\<close> writes any byte of that
  value, and \<open>k\<close> runs on the stream of \<open>i\<close> or waits for an event signalled on it at or after \<open>i\<close>.
\<close>

theorem plan_graph_safe:
  assumes run: "plan_graph order (Some g) opts = Ok (t, h, g')"
    and noalias: "\<forall>n \<in> set (g_nodes g). \<not> planning_alias_op (gn_op n)"
    and perm: "\<And>xs. mset (order xs) = mset xs" and mx: "po_max_streams opts < 2 ^ 31"
    and fits: "plan_fits (g_nodes g) (plan_bindings opts g) (plan_align opts) M"
  shows "mset (g_nodes g') = mset (g_nodes g) \<and> length (t_nodes t) = length (g_nodes g')
    \<and> (\<forall>i < length (g_nodes g'). \<exists>lo hi. value_bytes t h (plan_bindings opts g) (g_nodes g') i = Some (lo, hi)
         \<and> plan_align opts dvd lo \<and> 0 \<le> lo \<and> hi \<le> ws_size (t_workspace t))
    \<and> (\<forall>i k. i < k \<and> k < length (g_nodes g') \<and> gn_id (g_nodes g' ! i) \<in> set (gn_inputs (g_nodes g' ! k)) \<longrightarrow>
         synced (t_nodes t) k i
         \<and> (\<forall>j. i \<le> j \<and> j \<le> k \<and> j \<noteq> i \<longrightarrow>
              bytes_apart (value_bytes t h (plan_bindings opts g) (g_nodes g') i)
                (value_bytes t h (plan_bindings opts g) (g_nodes g') j)))"
proof -
  define m where "m = plan_bindings opts g"
  from run obtain b t0 t1 where norm: "normalize_graph (Some g) = Ok g'"
    and bld: "build_planning_topology (po_registry opts) (Some g') = Ok b"
    and ws0: "plan_workspace (Some (bridge_topology b)) (br_heap b)
        (case po_bindings opts of None \<Rightarrow> g_bindings g' | Some m \<Rightarrow> m) (if po_align opts \<le> 0 then 64 else po_align opts) = Ok (t0, h)"
    and att: "attach_graph_io_ports t0 h g' b = Ok t1"
    and sched: "schedule_streams order (Some t1) (po_max_streams opts) = Ok t"
    by (auto simp: plan_graph_def Let_def)
  have ng: "mset (g_nodes g') = mset (g_nodes g)" "g' = g\<lparr>g_nodes := g_nodes g'\<rparr>" "distinct (node_ids (g_nodes g'))"
    using conjunct1 [OF normalize_graph_spec [of g]] norm by blast+
  have bind: "g_bindings g' = g_bindings g" by (subst ng(2)) simp
  have ws: "plan_workspace (Some (bridge_topology b)) (br_heap b) m (plan_align opts) = Ok (t0, h)"
    using ws0 unfolding m_def plan_bindings_def plan_align_def bind .
  let ?ns = "g_nodes g'"
  have "\<forall>n \<in> set ?ns. \<not> planning_alias_op (gn_op n)" using noalias mset_eq_setD [OF ng(1)] by simp
  from build_planning_built [OF bld ng(3) this] obtain nb where b: "built ?ns nb b" by blast
  have al: "(if plan_align opts \<le> 0 then 64 else plan_align opts) = plan_align opts" by (simp add: plan_align_def)
  have fit: "plan_fits ?ns m (if plan_align opts \<le> 0 then 64 else plan_align opts) M"
    using fits plan_fits_perm [OF ng(1)] by (simp add: m_def al)
  note place = built_workspace [OF b ng(3) fit ws]
  have t1: "t_nodes t1 = map Some (br_nodes b)" "t_workspace t1 = t_workspace t0"
    using attach_graph_io_ports_keeps [OF att] place(1) by simp_all
  have l: "length (br_nodes b) = length ?ns" using b by (simp add: built_def)
  show ?thesis
  proof (cases "?ns = []")
    case True
    with l t1(1) have "t_nodes t1 = []" by simp
    with sched t1 True ng(1) show ?thesis by (auto simp: schedule_streams_def)
  next
    case False
    have pre: "t_nodes t1 \<noteq> []" "int (length (t_nodes t1)) < 2 ^ 31 - 1"
      "\<forall>n \<in> set (t_nodes t1). \<forall>x. n = Some x \<longrightarrow> fresh_node x" "producers_first (t_nodes t1)"
      "input_count (t_nodes t1) (length (t_nodes t1)) < 2 ^ 31 - 1"
    proof -
      show "t_nodes t1 \<noteq> []" using False l t1(1) by auto
      note port_refs_length [of ?ns]
      moreover have "int (port_refs ?ns) < 2 ^ 31 - 1" using fit by (simp add: plan_fits_def)
      ultimately show "int (length (t_nodes t1)) < 2 ^ 31 - 1" "input_count (t_nodes t1) (length (t_nodes t1)) < 2 ^ 31 - 1"
        using l built_ports(2) [OF b] by (simp_all add: t1(1))
    qed (use built_schedulable [OF b] t1(1) in simp_all)
    from schedule_streams_spec [OF pre(1,2) mx pre(3,4) perm pre(5)] sched
    have len: "length (t_nodes t) = length ?ns"
      and sync: "\<forall>k < length ?ns. \<forall>n a j. t_nodes t1 ! k = Some n \<and> Some a \<in> set (n_inputs n)
          \<and> build_producer_index (t_nodes t1) a = Some j \<longrightarrow> synced (t_nodes t) k j"
      using l by (auto simp: t1(1))
    from schedule_streams_wiring [OF pre(1,2) mx pre(3,4) perm pre(5) sched]
    have wiring: "\<forall>i < length ?ns. rel_option same_wiring (t_nodes t ! i) (t_nodes t1 ! i)"
      and wsz: "t_workspace t = t_workspace t0" using l by (simp_all add: t1)
    have out: "\<exists>x. t_nodes t ! i = Some x \<and> n_outputs x = [Some (nb + i)]" if "i < length ?ns" for i
    proof -
      have "t_nodes t1 ! i = Some (br_nodes b ! i)" "n_outputs (br_nodes b ! i) = [Some (nb + i)]"
        using that l b by (simp_all add: t1(1) built_def wired_def)
      moreover have "rel_option same_wiring (t_nodes t ! i) (t_nodes t1 ! i)" using wiring that by blast
      ultimately show ?thesis by (cases "t_nodes t ! i") (simp_all add: same_wiring_def)
    qed
    have bytes: "value_bytes t h m ?ns i = (case port_byte_size (gn_output_type (?ns ! i)) m of
        Inl _ \<Rightarrow> None | Inr s \<Rightarrow> map_option (\<lambda>lo. (lo, lo + s)) (port_base h (nb + i)))" if "i < length ?ns" for i
      using out [OF that] by (auto simp: value_bytes_def)
    have ranges: "\<exists>lo hi. value_bytes t h m ?ns i = Some (lo, hi)
         \<and> plan_align opts dvd lo \<and> 0 \<le> lo \<and> hi \<le> ws_size (t_workspace t)" if i: "i < length ?ns" for i
      using place(2) [OF i] by (auto simp: bytes [OF i] al wsz)
    have reads: "synced (t_nodes t) k i \<and> (\<forall>j. i \<le> j \<and> j \<le> k \<and> j \<noteq> i \<longrightarrow>
        bytes_apart (value_bytes t h m ?ns i) (value_bytes t h m ?ns j))"
      if k: "i < k" "k < length ?ns" "gn_id (?ns ! i) \<in> set (gn_inputs (?ns ! k))" for i k
    proof (intro conjI allI impI, goal_cases)
      case 1
      have "t_nodes t1 ! k = Some (br_nodes b ! k)" using k l by (simp add: t1(1))
      moreover have "Some (nb + i) \<in> set (n_inputs (br_nodes b ! k))" using b ng(3) k by (rule built_reads)
      moreover have "build_producer_index (t_nodes t1) (nb + i) = Some i"
        using k by (simp add: t1(1) built_producer_index [OF b])
      ultimately show ?case using sync k(2) by blast
    next
      case (2 j)
      then have j: "i \<le> j" "j \<le> k" "j \<noteq> i" by simp_all
      with k have il: "i < length ?ns" "j < length ?ns" by simp_all
      from place(3) [OF k j] show ?case
        by (auto simp: bytes_apart_def bytes [OF il(1)] bytes [OF il(2)] split: sum.splits option.splits)
    qed
    show ?thesis using ng(1) len ranges reads unfolding m_def by blast
  qed
qed

section \<open>What a plan does not protect\<close>

definition vector_type :: port_type where
  "vector_type = zero_port_type\<lparr>pt_dtype := Float32, pt_shape := [new_static_dimension 4]\<rparr>"

definition negation :: "string \<Rightarrow> string \<Rightarrow> int graph_node" where
  "negation i x = \<lparr>gn_id = i, gn_op = ''math.neg'', gn_inputs = [x], gn_attrs = Map.empty, gn_meta = Map.empty,
     gn_input_types = [vector_type], gn_output_type = vector_type, gn_value = zero_value_type, gn_weights = None\<rparr>"

definition plain_options :: plan_graph_options where
  "plain_options = \<lparr>po_registry = None, po_bindings = None, po_align = 0, po_max_streams = 0\<rparr>"

definition fan_graph :: "int ast_graph" where
  "fan_graph = \<lparr>g_nodes = [negation ''a'' ''x'', negation ''b'' ''x''], g_inputs = [''x''],
     g_outputs = [(''o'', ''a''), (''p'', ''b'')], g_dtype = Float32, g_bindings = Map.empty\<rparr>"

definition source :: "string \<Rightarrow> int graph_node" where
  "source i = (negation i [])\<lparr>gn_op := ''random.normal'', gn_inputs := [], gn_input_types := []\<rparr>"

definition two_chains :: "int ast_graph" where
  "two_chains = \<lparr>g_nodes = [source ''a'', negation ''b'' ''a'', source ''c'', negation ''d'' ''c''], g_inputs = [],
     g_outputs = [(''o'', ''b''), (''p'', ''d'')], g_dtype = Float32, g_bindings = Map.empty\<rparr>"


definition planned :: "int ast_graph \<Rightarrow> (topology \<Rightarrow> port_heap \<Rightarrow> int graph_node list \<Rightarrow> bool) \<Rightarrow> bool" where
  "planned g P = (case plan_graph id (Some g) plain_options of
     Inl _ \<Rightarrow> False | Inr (t, h, g') \<Rightarrow> P t h (g_nodes g'))"

lemma planned_iff: "planned g P \<longleftrightarrow> (\<exists>t h g'. plan_graph id (Some g) plain_options = Ok (t, h, g') \<and> P t h (g_nodes g'))"
  by (auto simp: planned_def split: sum.splits)

text \<open>Two outputs of a graph can share their bytes, since no read keeps the first one alive.\<close>

theorem graph_outputs_share_bytes:
  "planned fan_graph (\<lambda>t h ns. t_output_ports t ''o'' = Some 0 \<and> t_output_ports t ''p'' = Some 0)"
  by code_simp

text \<open>
  C33. Reuse of bytes follows the order of the steps, which the streams do not. In two independent chains
  of a source and a negation the first value \<open>a\<close> is read by the third step on stream 0, and the fourth step on stream 1 writes the bytes
  of \<open>a\<close>; neither waits for any event, so the write may come before the read.
\<close>

theorem streams_race_on_reused_bytes:
  "planned two_chains (\<lambda>t h ns. \<exists>n m. t_nodes t ! 2 = Some n \<and> t_nodes t ! 3 = Some m
     \<and> gn_inputs (ns ! 2) = [gn_id (ns ! 0)]
     \<and> value_bytes t h Map.empty ns 0 = Some (0, 16) \<and> value_bytes t h Map.empty ns 3 = Some (0, 16)
     \<and> n_stream n \<noteq> n_stream m \<and> n_sync n = [] \<and> n_sync m = [])"
proof -
  have "planned two_chains (\<lambda>t h ns. case t_nodes t ! 2 of Some n \<Rightarrow> n_stream n = 0 \<and> n_sync n = [] | None \<Rightarrow> False)"
    and "planned two_chains (\<lambda>t h ns. case t_nodes t ! 3 of Some n \<Rightarrow> n_stream n = 1 \<and> n_sync n = [] | None \<Rightarrow> False)"
    and "planned two_chains (\<lambda>t h ns. gn_inputs (ns ! 2) = [''a''] \<and> gn_id (ns ! 0) = ''a'')"
    and "planned two_chains (\<lambda>t h ns. value_bytes t h Map.empty ns 0 = Some (0, 16))"
    and "planned two_chains (\<lambda>t h ns. value_bytes t h Map.empty ns 3 = Some (0, 16))"
    by code_simp+
  then show ?thesis by (auto simp: planned_iff split: option.splits)
qed


theorem plan_graph_safe_witness:
  "\<exists>t h g'. plan_graph id (Some two_chains) plain_options = Ok (t, h, g')
    \<and> synced (t_nodes t) 2 0 \<and> bytes_apart (value_bytes t h Map.empty (g_nodes g') 0) (value_bytes t h Map.empty (g_nodes g') 1)"
proof -
  have "planned two_chains (\<lambda>t h ns. length ns = 4 \<and> gn_inputs (ns ! 2) = [''a''] \<and> gn_id (ns ! 0) = ''a'')" by code_simp
  then obtain t h g' where run: "plan_graph id (Some two_chains) plain_options = Ok (t, h, g')"
    and g': "length (g_nodes g') = 4" "gn_id (g_nodes g' ! 0) \<in> set (gn_inputs (g_nodes g' ! 2))"
    unfolding planned_iff by auto
  have noalias: "\<forall>n \<in> set (g_nodes two_chains). \<not> planning_alias_op (gn_op n)"
    by (simp add: two_chains_def source_def negation_def planning_alias_op_def)
  have size: "port_byte_size vector_type Map.empty = Ok 16" by code_simp
  have zero: "case port_byte_size zero_port_type Map.empty of Inl _ \<Rightarrow> True | Inr s \<Rightarrow> 0 \<le> s \<and> s \<le> 16" by code_simp
  have types: "node_types (g_nodes two_chains) = {vector_type}"
    by (auto simp: node_types_def two_chains_def source_def negation_def)
  have m: "plan_bindings plain_options two_chains = Map.empty" "plan_align plain_options = 64"
    by (simp_all add: plan_bindings_def plan_align_def plain_options_def two_chains_def)
  have refs: "port_refs (g_nodes two_chains) = 6" by (simp add: port_refs_def two_chains_def source_def negation_def)
  have fits: "plan_fits (g_nodes two_chains) (plan_bindings plain_options two_chains) (plan_align plain_options) 16"
    unfolding plan_fits_def types refs m using size zero by (auto split: sum.splits)
  have mx: "po_max_streams plain_options < 2 ^ 31" by (simp add: plain_options_def)
  have "mset (id xs) = mset xs" for xs :: "(int \<times> int) list" by simp
  note safe = plan_graph_safe [OF run noalias this mx fits, unfolded m(1), THEN conjunct2, THEN conjunct2, THEN conjunct2]
  have "synced (t_nodes t) 2 0 \<and> (\<forall>j. 0 \<le> j \<and> j \<le> 2 \<and> j \<noteq> 0 \<longrightarrow>
      bytes_apart (value_bytes t h Map.empty (g_nodes g') 0) (value_bytes t h Map.empty (g_nodes g') j))"
    using g' by (intro spec [OF spec [OF safe], THEN mp]) simp
  then have "synced (t_nodes t) 2 0"
    "bytes_apart (value_bytes t h Map.empty (g_nodes g') 0) (value_bytes t h Map.empty (g_nodes g') 1)" by auto
  with run show ?thesis by blast
qed

end
