(* ===== verification/Half_Floats.thy ===== *)
theory Half_Floats
  imports Small_Floats
begin

unbundle bit_operations_syntax

text \<open>
  IEEE 754 binary16 (\<open>dtype/float16.go\<close>), bit for bit. A Go \<open>float32\<close> is its bit pattern; the exponent
  arithmetic of the narrowing is in \<open>int32\<close> and cannot overflow, so it is in \<open>int\<close> here.
\<close>

type_synonym f16 = "16 word"

section \<open>Conversions\<close>

text \<open>The loop that normalises a subnormal shifts at most ten times; \<open>normalize_loop\<close> counts the shifts.\<close>

definition f16_to_f32 :: "f16 \<Rightarrow> f32 option" where
  "f16_to_f32 x =
     (let sign = push_bit 16 (ucast (x AND 0x8000) :: 32 word);
          exp = drop_bit 10 (ucast (x AND 0x7c00) :: 32 word);
          coef = push_bit 13 (ucast (x AND 0x03ff) :: 32 word)
      in
      if exp = 0x1f then
        (if coef = 0 then Some (sign OR 0x7f800000 OR coef) else Some (sign OR 0x7fc00000 OR coef))
      else if exp = 0 \<and> coef = 0 then Some sign
      else map_option (\<lambda>(exp, coef). sign OR push_bit 23 (exp + (0x7f - 0xf)) OR coef)
        (if exp = 0
         then map_option (\<lambda>(c, shifts). (exp + 1 - shifts, c AND 0x007fffff)) (normalize_loop 32 0x7f800000 coef 0)
         else Some (exp, coef)))"

definition f32_to_f16 :: "f32 \<Rightarrow> f16" where
  "f32_to_f16 u =
     (let sign = u AND 0x80000000; exp = u AND 0x7f800000; coef = u AND 0x007fffff in
      if exp = 0x7f800000 then
        ucast (drop_bit 16 sign OR 0x7c00 OR (if coef \<noteq> 0 then 0x0200 else 0) OR drop_bit 13 coef)
      else
        let half_sign = drop_bit 16 sign;
            half_exp = uint (drop_bit 23 exp) - 127 + 15
        in
        if half_exp \<ge> 0x1f then ucast (half_sign OR 0x7c00)
        else if half_exp \<le> 0 then
          (if 14 - half_exp > 24 then ucast half_sign
           else
             let c = coef OR 0x00800000;
                 half_coef = drop_bit (nat (14 - half_exp)) c;
                 round_bit = push_bit (nat (13 - half_exp)) 1 :: 32 word
             in if c AND round_bit \<noteq> 0 \<and> c AND (3 * round_bit - 1) \<noteq> 0
                then ucast (half_sign OR (half_coef + 1)) else ucast (half_sign OR half_coef))
        else
          let u_half_exp = push_bit 10 (word_of_int half_exp :: 32 word);
              half_coef = drop_bit 13 coef
          in if coef AND 0x1000 \<noteq> 0 \<and> coef AND (3 * 0x1000 - 1) \<noteq> 0
             then ucast ((half_sign OR u_half_exp OR half_coef) + 1)
             else ucast (half_sign OR u_half_exp OR half_coef))"

datatype precision = PrecisionExact | PrecisionUnknown | PrecisionInexact | PrecisionUnderflow | PrecisionOverflow

definition precision_from_f32 :: "f32 \<Rightarrow> precision" where
  "precision_from_f32 u =
     (if u = 0 \<or> u = 0x80000000 then PrecisionExact
      else
        let exp = uint (drop_bit 23 (u AND 0x7f800000)) - 127; coef = u AND 0x7fffff in
        if exp = 128 then PrecisionExact
        else if exp < - 24 then PrecisionUnderflow
        else if exp > 15 then PrecisionOverflow
        else if coef AND drop_bit 10 0x7fffff \<noteq> 0 then PrecisionInexact
        else if exp < - 14 then PrecisionUnknown
        else PrecisionExact)"

text \<open>The second component is \<open>ErrInvalidNaNValue\<close>.\<close>

definition from_nan32ps :: "f32 \<Rightarrow> f16 \<times> bool" where
  "from_nan32ps u =
     (let sign = u AND 0x80000000; exp = u AND 0x7f800000; coef = u AND 0x007fffff in
      if exp \<noteq> 0x7f800000 \<or> coef = 0 then (0x7c01, True)
      else let x = (ucast (drop_bit 16 sign OR 0x7c00 OR drop_bit 13 coef) :: f16) in
        (if x AND 0x03ff = 0 then x OR 0x0001 else x, False))"

section \<open>Classification\<close>

definition f16_nan :: f16 where "f16_nan = 0x7e01"

definition f16_inf :: "int \<Rightarrow> f16" where
  "f16_inf sign = (if sign \<ge> 0 then 0x7c00 else 0x8000 OR 0x7c00)"

definition is_nan_f16 :: "f16 \<Rightarrow> bool" where
  "is_nan_f16 x \<longleftrightarrow> x AND 0x7c00 = 0x7c00 \<and> x AND 0x03ff \<noteq> 0"

definition is_quiet_nan_f16 :: "f16 \<Rightarrow> bool" where
  "is_quiet_nan_f16 x \<longleftrightarrow> x AND 0x7c00 = 0x7c00 \<and> x AND 0x03ff \<noteq> 0 \<and> x AND 0x0200 \<noteq> 0"

definition is_inf_f16 :: "f16 \<Rightarrow> int \<Rightarrow> bool" where
  "is_inf_f16 x sign \<longleftrightarrow> x = 0x7c00 \<and> sign \<ge> 0 \<or> x = 0xfc00 \<and> sign \<le> 0"

definition is_finite_f16 :: "f16 \<Rightarrow> bool" where
  "is_finite_f16 x \<longleftrightarrow> x AND 0x7c00 \<noteq> 0x7c00"

definition is_normal_f16 :: "f16 \<Rightarrow> bool" where
  "is_normal_f16 x \<longleftrightarrow> x AND 0x7c00 \<noteq> 0x7c00 \<and> x AND 0x7c00 \<noteq> 0"

definition signbit_f16 :: "f16 \<Rightarrow> bool" where
  "signbit_f16 x \<longleftrightarrow> x AND 0x8000 \<noteq> 0"

section \<open>Fields of a pattern\<close>

lemma masks:
  "(0x8000 :: 16 word) = push_bit 15 (mask 1)" "(0x7c00 :: 16 word) = push_bit 10 (mask 5)" "(0x03ff :: 16 word) = push_bit 0 (mask 10)"
  "(0x80000000 :: 32 word) = push_bit 31 (mask 1)" "(0x7f800000 :: 32 word) = push_bit 23 (mask 8)"
  "(0x007fffff :: 32 word) = push_bit 0 (mask 23)" "(0x7fc00000 :: 32 word) = push_bit 22 (mask 9)" "(0x00800000 :: 32 word) = push_bit 23 (mask 1)"
  "(0x1000 :: 32 word) = push_bit 12 (mask 1)" "(0x7c00 :: 32 word) = push_bit 10 (mask 5)" "(0x0200 :: 32 word) = push_bit 9 (mask 1)"
  "(0x0200 :: 16 word) = push_bit 9 (mask 1)" "(0x1f :: 32 word) = push_bit 0 (mask 5)" "(0xff :: 32 word) = push_bit 0 (mask 8)" "(0x00400000 :: 32 word) = push_bit 22 (mask 1)"
  by (simp_all add: mask_eq_exp_minus_1 push_bit_eq_mult)

lemma bit_field: "bit (push_bit k (mask m) :: 'a :: len word) n \<longleftrightarrow> k \<le> n \<and> n < k + m \<and> n < LENGTH('a)"
  by (auto simp: bit_simps)

lemma mask_bits:
  "bit (0x8000 :: 16 word) n \<longleftrightarrow> n = 15" "bit (0x7c00 :: 16 word) n \<longleftrightarrow> 10 \<le> n \<and> n < 15" "bit (0x03ff :: 16 word) n \<longleftrightarrow> n < 10"
  "bit (0x80000000 :: 32 word) n \<longleftrightarrow> n = 31" "bit (0x7f800000 :: 32 word) n \<longleftrightarrow> 23 \<le> n \<and> n < 31"
  "bit (0x007fffff :: 32 word) n \<longleftrightarrow> n < 23" "bit (0x7fc00000 :: 32 word) n \<longleftrightarrow> 22 \<le> n \<and> n < 31" "bit (0x00800000 :: 32 word) n \<longleftrightarrow> n = 23"
  "bit (0x1000 :: 32 word) n \<longleftrightarrow> n = 12" "bit (0x7c00 :: 32 word) n \<longleftrightarrow> 10 \<le> n \<and> n < 15" "bit (0x0200 :: 32 word) n \<longleftrightarrow> n = 9"
  "bit (0x0200 :: 16 word) n \<longleftrightarrow> n = 9" "bit (0x1f :: 32 word) n \<longleftrightarrow> n < 5" "bit (0xff :: 32 word) n \<longleftrightarrow> n < 8" "bit (0x00400000 :: 32 word) n \<longleftrightarrow> n = 22"
  unfolding masks bit_field by auto

lemma normalize_loop_shifts:
  "j < n \<Longrightarrow> \<forall>i < j. push_bit i m AND stop = 0 \<Longrightarrow> push_bit j m AND stop \<noteq> 0
    \<Longrightarrow> normalize_loop n stop m sh = Some (push_bit j m, sh + of_nat j)"
proof (induction j arbitrary: n m sh)
  case 0
  then obtain k where "n = Suc k" by (cases n) auto
  with 0 show ?case by simp
next
  case (Suc j)
  from Suc.prems(1) obtain k where n: "n = Suc k" "j < k" by (cases n) auto
  have z: "m AND stop = 0" using Suc.prems(2) by force
  have "normalize_loop k stop (push_bit 1 m) (sh + 1) = Some (push_bit j (push_bit 1 m), sh + 1 + of_nat j)"
    using Suc.prems by (intro Suc.IH n) (auto simp: push_bit_push_bit)
  with n z show ?case by (simp add: push_bit_push_bit add.assoc)
qed

lemma high_fields:
  fixes F :: "32 word"
  assumes "\<forall>n. bit F n \<longrightarrow> n < 8" and "\<forall>n. bit S n \<longrightarrow> n = 31" and "\<forall>n. bit C n \<longrightarrow> n < 23"
  shows "(S OR push_bit 23 F OR C) AND 0x80000000 = S" "(S OR push_bit 23 F OR C) AND 0x7f800000 = push_bit 23 F"
    "(S OR push_bit 23 F OR C) AND 0x007fffff = C"
proof -
  have g: "bit F (n - 23) \<longrightarrow> n - 23 < 8" "bit S n \<longrightarrow> n = 31" "bit C n \<longrightarrow> n < 23" for n using assms by blast+
  have "bit (S OR push_bit 23 F OR C) n \<and> n = 31 \<longleftrightarrow> bit S n"
    "bit (S OR push_bit 23 F OR C) n \<and> 23 \<le> n \<and> n < 31 \<longleftrightarrow> bit (push_bit 23 F) n"
    "bit (S OR push_bit 23 F OR C) n \<and> n < 23 \<longleftrightarrow> bit C n" if "n < 32" for n
    using g [of n] that by (auto simp: bit_or_iff bit_push_bit_iff)
  then show "(S OR push_bit 23 F OR C) AND 0x80000000 = S" "(S OR push_bit 23 F OR C) AND 0x7f800000 = push_bit 23 F"
    "(S OR push_bit 23 F OR C) AND 0x007fffff = C"
    by (auto intro!: bit_word_eqI simp: bit_and_iff mask_bits simp del: bit_numeral_word_iff)
qed

definition sign_part :: "f16 \<Rightarrow> f32" where "sign_part x = push_bit 16 (ucast (x AND 0x8000))"
definition exp_part :: "f16 \<Rightarrow> f32" where "exp_part x = drop_bit 10 (ucast (x AND 0x7c00))"
definition coef_part :: "f16 \<Rightarrow> f32" where "coef_part x = push_bit 13 (ucast (x AND 0x03ff))"

lemma part_bits:
  "bit (sign_part x) n \<longleftrightarrow> n = 31 \<and> bit x 15"
  "bit (exp_part x) n \<longleftrightarrow> n < 5 \<and> bit x (n + 10)"
  "bit (coef_part x) n \<longleftrightarrow> 13 \<le> n \<and> n < 23 \<and> bit x (n - 13)"
  by (auto simp: sign_part_def exp_part_def coef_part_def bit_push_bit_iff bit_drop_bit_eq bit_ucast_iff bit_and_iff mask_bits add.commute
    simp del: bit_numeral_word_iff)

lemma bit_small: "uint (F :: 32 word) < 256 \<Longrightarrow> bit F n \<Longrightarrow> n < 8"
proof (rule ccontr)
  assume a: "uint F < 256" "bit F n" "\<not> n < 8"
  then have "take_bit 8 (uint F) = uint F" by (simp add: take_bit_int_eq_self)
  then have "take_bit 8 F = F" by (metis take_bit_word_eq_self unsigned_take_bit_eq word_uint_eq_iff)
  with a(2,3) show False by (metis bit_take_bit_iff)
qed

lemma exp_part_range: "uint (exp_part x) < 32"
proof -
  have "take_bit 5 (exp_part x) = exp_part x" by (rule bit_word_eqI) (auto simp: bit_take_bit_iff part_bits)
  then have "uint (exp_part x) = take_bit 5 (uint (exp_part x))" by (metis unsigned_take_bit_eq)
  moreover have "take_bit 5 (uint (exp_part x)) < 2 ^ 5" by (rule take_bit_int_less_exp)
  ultimately show ?thesis by simp
qed

lemma join_parts: "ucast (drop_bit 16 (sign_part x) OR push_bit 10 (exp_part x) OR drop_bit 13 (coef_part x)) = x"
proof (rule bit_word_eqI)
  fix n assume "n < LENGTH(16)"
  then have n: "n < 16" by simp
  then consider "n = 15" | "10 \<le> n" "n < 15" | "n < 10" by linarith
  then show "bit (ucast (drop_bit 16 (sign_part x) OR push_bit 10 (exp_part x) OR drop_bit 13 (coef_part x)) :: f16) n = bit x n"
    using n by cases (auto simp: bit_ucast_iff bit_or_iff bit_drop_bit_eq bit_push_bit_iff part_bits)
qed

text \<open>Narrowing a pattern given by its fields.\<close>

lemma drop_push:
  fixes F :: "32 word"
  assumes "uint F < 256"
  shows "drop_bit 23 (push_bit 23 F) = F"
proof (rule bit_word_eqI)
  fix n
  show "bit (drop_bit 23 (push_bit 23 F)) n = bit F n"
    using bit_small [OF assms, of n] by (auto simp: bit_drop_bit_eq bit_push_bit_iff)
qed

lemma narrow_fields:
  fixes S F C :: "32 word"
  assumes F: "uint F < 255" and S: "\<forall>n. bit S n \<longrightarrow> n = 31" and C: "\<forall>n. bit C n \<longrightarrow> n < 23"
  defines "h \<equiv> uint F - 127 + 15"
  shows "f32_to_f16 (S OR push_bit 23 F OR C) =
     (if h \<ge> 31 then ucast (drop_bit 16 S OR 0x7c00)
      else if h \<le> 0 then
        (if 14 - h > 24 then ucast (drop_bit 16 S)
         else if (C OR 0x00800000) AND push_bit (nat (13 - h)) 1 \<noteq> 0 \<and> (C OR 0x00800000) AND (3 * push_bit (nat (13 - h)) 1 - 1) \<noteq> 0
           then ucast (drop_bit 16 S OR (drop_bit (nat (14 - h)) (C OR 0x00800000) + 1))
           else ucast (drop_bit 16 S OR drop_bit (nat (14 - h)) (C OR 0x00800000)))
      else if C AND 0x1000 \<noteq> 0 \<and> C AND (3 * 0x1000 - 1) \<noteq> 0
        then ucast ((drop_bit 16 S OR push_bit 10 (word_of_int h) OR drop_bit 13 C) + 1)
        else ucast (drop_bit 16 S OR push_bit 10 (word_of_int h) OR drop_bit 13 C))"
proof -
  have f: "uint F < 256" using F by simp
  have "\<forall>n. bit F n \<longrightarrow> n < 8" using bit_small [OF f] by blast
  note parts = high_fields [OF this S C]
  have ne: "push_bit 23 F \<noteq> 0x7f800000"
  proof
    assume "push_bit 23 F = 0x7f800000"
    then have "F = drop_bit 23 0x7f800000" using drop_push [OF f] by metis
    with F show False by simp
  qed
  show ?thesis
    unfolding f32_to_f16_def Let_def parts drop_push [OF f] h_def if_not_P [OF ne] by (rule refl)
qed

lemma narrow_normal:
  assumes "0 < uint (exp_part x)" and "uint (exp_part x) < 31"
  shows "f32_to_f16 (sign_part x OR push_bit 23 (exp_part x + 112) OR coef_part x) = x"
proof -
  have u: "uint (exp_part x + 112) = uint (exp_part x) + 112"
    using assms by (simp add: uint_word_ariths)
  have c: "coef_part x AND 0x1000 = 0"
    by (rule bit_word_eqI) (auto simp: bit_and_iff part_bits mask_bits simp del: bit_numeral_word_iff)
  have "f32_to_f16 (sign_part x OR push_bit 23 (exp_part x + 112) OR coef_part x)
    = ucast (drop_bit 16 (sign_part x) OR push_bit 10 (exp_part x) OR drop_bit 13 (coef_part x))"
    using assms u c by (subst narrow_fields) (auto simp: part_bits)
  then show ?thesis by (simp add: join_parts)
qed

lemma narrow_subnormal:
  assumes e: "exp_part x = 0" and k: "k < 10" "bit x k" "\<forall>n. k < n \<and> n < 10 \<longrightarrow> \<not> bit x n"
  defines "D \<equiv> push_bit (10 - k) (coef_part x) AND 0x007fffff"
  shows "normalize_loop 32 0x7f800000 (coef_part x) 0 = Some (push_bit (10 - k) (coef_part x), of_nat (10 - k))"
    and "f32_to_f16 (sign_part x OR push_bit 23 (1 - of_nat (10 - k) + 112) OR D) = x"
proof -
  let ?c = "ucast (x AND 0x03ff) :: 32 word"
  have c: "bit ?c n \<longleftrightarrow> n < 10 \<and> bit x n" for n by (auto simp: bit_ucast_iff bit_and_iff mask_bits simp del: bit_numeral_word_iff)
  have shifted: "bit (push_bit i (coef_part x)) n \<longleftrightarrow> 13 + i \<le> n \<and> n < 23 + i \<and> n < 32 \<and> bit x (n - 13 - i)" for i n
    by (auto simp: bit_push_bit_iff part_bits diff_commute less_diff_conv2 add.commute)
  have "push_bit i (coef_part x) AND 0x7f800000 = 0" if "i < 10 - k" for i
  proof (rule bit_word_eqI)
    fix n assume "n < LENGTH(32)"
    have "\<not> bit x (n - 13 - i)" if "23 \<le> n" "n < 23 + i" 
    proof -
      have "k < n - 13 - i" "n - 13 - i < 10" using that \<open>i < 10 - k\<close> by linarith+
      with k(3) show ?thesis by blast
    qed
    then show "bit (push_bit i (coef_part x) AND 0x7f800000) n = bit 0 n"
      by (auto simp: bit_and_iff shifted mask_bits simp del: bit_numeral_word_iff)
  qed
  moreover have "push_bit (10 - k) (coef_part x) AND 0x7f800000 \<noteq> 0"
  proof
    assume "push_bit (10 - k) (coef_part x) AND 0x7f800000 = 0"
    then have "\<not> bit (push_bit (10 - k) (coef_part x) AND 0x7f800000) 23" by simp
    with k show False by (simp add: bit_and_iff shifted mask_bits del: bit_numeral_word_iff)
  qed
  ultimately show "normalize_loop 32 0x7f800000 (coef_part x) 0 = Some (push_bit (10 - k) (coef_part x), of_nat (10 - k))"
    using normalize_loop_shifts [of "10 - k" 32 "coef_part x" "0x7f800000" 0] by simp
  have F: "1 - of_nat (10 - k) + 112 = (of_nat (103 + k) :: 32 word)"
  proof -
    have "(of_nat (10 - k) :: 32 word) = 10 - of_nat k" using k(1) by (simp add: of_nat_diff)
    then show ?thesis by (simp only: of_nat_add) (simp add: algebra_simps)
  qed
  have u: "uint (of_nat (103 + k) :: 32 word) = 103 + int k"
  proof -
    have t: "take_bit LENGTH(32) (103 + k) = 103 + k" using k(1) by (simp add: take_bit_nat_eq_self)
    show ?thesis by (simp only: unsigned_of_nat t) 
  qed
  have D: "bit D n \<longleftrightarrow> bit (push_bit (10 - k) (coef_part x)) n \<and> n < 23" for n
    by (simp add: D_def bit_and_iff mask_bits del: bit_numeral_word_iff)
  have Ds: "bit D n \<longleftrightarrow> 23 - k \<le> n \<and> n < 23 \<and> bit x (n - (23 - k))" for n
  proof -
    have "n - 13 - (10 - k) = n - (23 - k)" "13 + (10 - k) = 23 - k" using k(1) by linarith+
    then show ?thesis unfolding D shifted by auto
  qed
  have m: "D OR 0x00800000 = push_bit (23 - k) ?c"
  proof (rule bit_word_eqI)
    fix n assume "n < LENGTH(32)"
    then consider "n < 23" | "n = 23" | "23 < n" "n < 32" by fastforce
    then show "bit (D OR 0x00800000) n = bit (push_bit (23 - k) ?c) n"
    proof cases
      case 1 then show ?thesis using k(1)
        by (auto simp: bit_or_iff Ds mask_bits bit_push_bit_iff c simp del: bit_numeral_word_iff)
    next
      case 2 then show ?thesis using k(1,2)
        by (simp add: bit_or_iff D mask_bits bit_push_bit_iff c del: bit_numeral_word_iff)
    next
      case 3
      then have "\<not> (n - (23 - k) < 10 \<and> bit x (n - (23 - k)))" using k(1,3) by simp
      with 3 show ?thesis by (simp add: bit_or_iff D mask_bits bit_push_bit_iff c del: bit_numeral_word_iff)
    qed
  qed
  have r: "(D OR 0x00800000) AND push_bit (22 - k) 1 = 0"
    unfolding m using k(1) by (intro bit_word_eqI) (auto simp: bit_and_iff bit_push_bit_iff bit_1_iff bit_exp_iff)
  have d: "drop_bit (23 - k) (D OR 0x00800000) = ?c"
  proof (unfold m, rule bit_word_eqI)
    fix n
    have "n \<le> k" if "n < 10" "bit x n" using k(3) that by (meson not_le)
    with k(1) show "bit (drop_bit (23 - k) (push_bit (23 - k) ?c)) n = bit ?c n"
      by (auto simp: bit_drop_bit_eq bit_push_bit_iff c)
  qed
  have n: "nat (13 - (103 + int k - 127 + 15)) = 22 - k" "nat (14 - (103 + int k - 127 + 15)) = 23 - k" using k(1) by auto
  have D23: "\<forall>n. bit D n \<longrightarrow> n < 23" by (simp add: D)
  have s31: "\<forall>n. bit (sign_part x) n \<longrightarrow> n = 31" by (simp add: part_bits)
  have "f32_to_f16 (sign_part x OR push_bit 23 (of_nat (103 + k)) OR D) = ucast (drop_bit 16 (sign_part x) OR ?c)"
    using k(1) narrow_fields [of "of_nat (103 + k)", OF _ s31 D23] unfolding u n r d by simp
  moreover have "?c = drop_bit 13 (coef_part x)" unfolding coef_part_def
    by (intro bit_word_eqI) (auto simp: bit_drop_bit_eq bit_push_bit_iff c)
  ultimately show "f32_to_f16 (sign_part x OR push_bit 23 (1 - of_nat (10 - k) + 112) OR D) = x"
    unfolding F using join_parts [of x] e by simp
qed

lemma leading_bit:
  assumes "x AND 0x03ff \<noteq> (0 :: f16)"
  shows "\<exists>k < 10. bit x k \<and> (\<forall>n. k < n \<and> n < 10 \<longrightarrow> \<not> bit x n)"
proof -
  let ?A = "{n. n < 10 \<and> bit x n}"
  have "?A \<noteq> {}"
  proof
    assume "?A = {}"
    then have "x AND 0x03ff = 0" by (intro bit_word_eqI) (auto simp: bit_and_iff mask_bits simp del: bit_numeral_word_iff)
    with assms show False by simp
  qed
  then have "Max ?A \<in> ?A" by (intro Max_in) auto
  moreover have "n \<le> Max ?A" if "n \<in> ?A" for n using that by (intro Max_ge) auto
  ultimately show ?thesis by (intro exI [of _ "Max ?A"]) fastforce
qed

lemma coef_part_zero: "coef_part x = 0 \<longleftrightarrow> x AND 0x03ff = 0"
proof
  assume "coef_part x = 0"
  then have "\<not> bit (coef_part x) (n + 13)" for n by simp
  then show "x AND 0x03ff = 0"
    by (intro bit_word_eqI) (auto simp: part_bits bit_and_iff mask_bits simp del: bit_numeral_word_iff)
qed (simp add: coef_part_def)

lemma exp_part_full: "exp_part x = 0x1f \<longleftrightarrow> x AND 0x7c00 = 0x7c00"
proof
  assume a: "exp_part x = 0x1f"
  have "bit x n" if "10 \<le> n" "n < 15" for n
  proof -
    have "n - 10 < 5" "n - 10 + 10 = n" using that by linarith+
    then show ?thesis using part_bits(2) [of x "n - 10"] unfolding a by (simp add: mask_bits del: bit_numeral_word_iff)
  qed
  then show "x AND 0x7c00 = 0x7c00"
    by (intro bit_word_eqI) (auto simp: bit_and_iff mask_bits simp del: bit_numeral_word_iff)
qed (simp add: exp_part_def)

lemma narrow_special:
  assumes "\<forall>n. bit S n \<longrightarrow> n = 31" and "\<forall>n. bit C n \<longrightarrow> n < 23"
  shows "f32_to_f16 (S OR 0x7f800000 OR C) = ucast (drop_bit 16 S OR 0x7c00 OR (if C \<noteq> 0 then 0x0200 else 0) OR drop_bit 13 C)"
proof -
  have "\<forall>n. bit (0xff :: 32 word) n \<longrightarrow> n < 8" by (simp add: mask_bits del: bit_numeral_word_iff)
  note parts = high_fields [OF this assms, simplified]
  show ?thesis unfolding f32_to_f16_def Let_def parts by simp
qed

lemma widen_infinity:
  assumes "exp_part x = 0x1f" and "coef_part x = 0"
  shows "f32_to_f16 (sign_part x OR 0x7f800000) = x"
  using narrow_special [of "sign_part x" 0] join_parts [of x] assms by (simp add: part_bits)

lemma or_shuffle: "a OR b OR c OR (c OR d) = (a OR b OR d) OR (c :: 'a :: len word)"
  by (rule bit_word_eqI) (auto simp: bit_or_iff)

lemma widen_nan:
  assumes "exp_part x = 0x1f"
  shows "f32_to_f16 (sign_part x OR 0x7fc00000 OR coef_part x) = x OR 0x0200"
proof -
  let ?C = "0x00400000 OR coef_part x"
  have "(0x7fc00000 :: 32 word) = 0x7f800000 OR 0x00400000" by simp
  then have y: "sign_part x OR 0x7fc00000 OR coef_part x = sign_part x OR 0x7f800000 OR ?C" by (simp only: or.assoc)
  have "bit ?C n \<Longrightarrow> n < 23" for n
    by (auto simp: bit_or_iff part_bits mask_bits simp del: bit_numeral_word_iff)
  then have C: "\<forall>n. bit ?C n \<longrightarrow> n < 23" by blast
  have "bit ?C 22" by (simp add: bit_or_iff)
  then have "?C \<noteq> 0" by force
  then have "f32_to_f16 (sign_part x OR 0x7fc00000 OR coef_part x)
      = ucast (drop_bit 16 (sign_part x) OR 0x7c00 OR 0x0200 OR drop_bit 13 ?C)"
    using narrow_special [OF _ C, of "sign_part x"] unfolding y by (simp add: part_bits)
  also have "\<dots> = ucast (drop_bit 16 (sign_part x) OR push_bit 10 (exp_part x) OR drop_bit 13 (coef_part x)) OR 0x0200"
  proof -
    have d: "drop_bit 13 ?C = 0x0200 OR drop_bit 13 (coef_part x)" by (simp add: drop_bit_or)
    have e: "push_bit 10 (exp_part x) = 0x7c00" by (simp add: assms)
    show ?thesis unfolding d e or_shuffle by (simp only: unsigned_or_eq) simp
  qed
  finally show ?thesis by (simp add: join_parts)
qed

lemma f16_widens:
  "\<exists>y. f16_to_f32 x = Some y \<and> f32_to_f16 y = (if is_nan_f16 x then x OR 0x0200 else x)"
proof -
  have widen: "f16_to_f32 x = (if exp_part x = 0x1f then
        (if coef_part x = 0 then Some (sign_part x OR 0x7f800000 OR coef_part x) else Some (sign_part x OR 0x7fc00000 OR coef_part x))
      else if exp_part x = 0 \<and> coef_part x = 0 then Some (sign_part x)
      else map_option (\<lambda>(exp, coef). sign_part x OR push_bit 23 (exp + (0x7f - 0xf)) OR coef)
        (if exp_part x = 0
         then map_option (\<lambda>(c, shifts). (exp_part x + 1 - shifts, c AND 0x007fffff)) (normalize_loop 32 0x7f800000 (coef_part x) 0)
         else Some (exp_part x, coef_part x)))"
    unfolding f16_to_f32_def Let_def sign_part_def exp_part_def coef_part_def ..
  have nan: "is_nan_f16 x \<longleftrightarrow> exp_part x = 0x1f \<and> coef_part x \<noteq> 0"
    by (simp add: is_nan_f16_def exp_part_full coef_part_zero)
  consider "exp_part x = 0x1f" | "exp_part x = 0" "coef_part x = 0" | "exp_part x = 0" "coef_part x \<noteq> 0"
    | "exp_part x \<noteq> 0x1f" "exp_part x \<noteq> 0" by blast
  then show ?thesis
  proof cases
    case 1
    then show ?thesis unfolding widen nan using widen_infinity [of x] widen_nan [of x] by simp
  next
    case 2
    have "f32_to_f16 (sign_part x OR push_bit 23 0 OR 0) = x"
      using 2 join_parts [of x] narrow_fields [of 0 "sign_part x" 0] by (simp add: part_bits)
    with 2 show ?thesis unfolding widen nan by simp
  next
    case 3
    then obtain k where k: "k < 10" "bit x k" "\<forall>n. k < n \<and> n < 10 \<longrightarrow> \<not> bit x n"
      using leading_bit coef_part_zero by blast
    from 3 narrow_subnormal [OF 3(1) k] show ?thesis unfolding widen nan by simp
  next
    case 4
    have "uint (exp_part x) \<noteq> 31"
    proof
      assume "uint (exp_part x) = 31"
      then have "exp_part x = word_of_int 31" by (metis word_of_int_uint)
      with 4(1) show False by simp
    qed
    moreover have "uint (exp_part x) \<noteq> 0" using 4(2) by (simp add: uint_0_iff)
    moreover have "0 \<le> uint (exp_part x)" by simp
    ultimately have "0 < uint (exp_part x)" "uint (exp_part x) < 31" using exp_part_range [of x] by linarith+
    from narrow_normal [OF this] 4 show ?thesis unfolding widen nan by simp
  qed
qed

text \<open>
  Half precision. Widening a binary16 value to float32 always returns, and narrowing the result again
  gives the value back, for every finite value including subnormals and signed zeros and for infinities; a NaN
  keeps its sign and payload and becomes quiet.
\<close>

theorem f16_widen_narrow:
  "\<exists>y. f16_to_f32 x = Some y \<and> f32_to_f16 y = (if is_nan_f16 x then x OR 0x0200 else x)"
  by (rule f16_widens)

end
