(* ===== verification/Float_Buffers.thy ===== *)
theory Float_Buffers
  imports Half_Floats
begin

unbundle bit_operations_syntax

text \<open>
  Buffers of numbers (\<open>dtype/convert/convert.go\<close> and \<open>decoders.go\<close>): little-endian bytes in one format become values
  of another. A Go \<open>float32\<close> or \<open>float64\<close> is its bit pattern; the conversions between the two widths and from
  integers, which the hardware does, are parameters. The element count of a buffer makes it as long as the loops
  read, so none of the decoders' length checks can fail.
\<close>

record float_hw =
  hw_narrow :: "64 word \<Rightarrow> f32"
  hw_widen :: "f32 \<Rightarrow> 64 word"
  hw_of_int :: "int \<Rightarrow> 64 word"
  hw_less :: "64 word \<Rightarrow> 64 word \<Rightarrow> bool"
  hw_to_int8 :: "64 word \<Rightarrow> 8 word"

datatype convert_error = BadBuffer dtype_error | UnsupportedSource dtype

section \<open>Little-endian words\<close>

fun words16 :: "8 word list \<Rightarrow> 16 word list" where
  "words16 (a # b # bs) = (ucast a OR push_bit 8 (ucast b)) # words16 bs"
| "words16 _ = []"

fun words32 :: "8 word list \<Rightarrow> 32 word list" where
  "words32 (a # b # c # d # bs) =
     (ucast a OR push_bit 8 (ucast b) OR push_bit 16 (ucast c) OR push_bit 24 (ucast d)) # words32 bs"
| "words32 _ = []"

fun words64 :: "8 word list \<Rightarrow> 64 word list" where
  "words64 (a # b # c # d # e # f # g # h # bs) =
     (ucast a OR push_bit 8 (ucast b) OR push_bit 16 (ucast c) OR push_bit 24 (ucast d)
       OR push_bit 32 (ucast e) OR push_bit 40 (ucast f) OR push_bit 48 (ucast g) OR push_bit 56 (ucast h)) # words64 bs"
| "words64 _ = []"

definition bytes16 :: "16 word \<Rightarrow> 8 word list" where
  "bytes16 w = [ucast w, ucast (drop_bit 8 w)]"

definition bytes32 :: "32 word \<Rightarrow> 8 word list" where
  "bytes32 w = [ucast w, ucast (drop_bit 8 w), ucast (drop_bit 16 w), ucast (drop_bit 24 w)]"

definition bytes64 :: "64 word \<Rightarrow> 8 word list" where
  "bytes64 w = map (\<lambda>i. ucast (drop_bit (8 * i) w)) [0..<8]"

section \<open>Decoding\<close>

definition decode_int4 :: "8 word list \<Rightarrow> int list" where
  "decode_int4 buf = concat (map (\<lambda>b. [sint (signed_drop_bit 4 (push_bit 4 b)), sint (signed_drop_bit 4 b)]) buf)"

definition bytes_to_f64 :: "float_hw \<Rightarrow> dtype \<Rightarrow> 8 word list \<Rightarrow> (convert_error, 64 word list) res" where
  "bytes_to_f64 H source buf = (case logical_elements source (int (length buf)) of
     Inl e \<Rightarrow> Err (BadBuffer e)
   | Inr _ \<Rightarrow> (case source of
       Float64 \<Rightarrow> Ok (words64 buf)
     | Float32 \<Rightarrow> Ok (map (hw_widen H) (words32 buf))
     | Float16 \<Rightarrow> Ok (map (\<lambda>w. hw_widen H (the (f16_to_f32 w))) (words16 buf))
     | BFloat16 \<Rightarrow> Ok (map (\<lambda>w. hw_widen H (bf16_to_f32 w)) (words16 buf))
     | Float8E4M3 \<Rightarrow> Ok (map (\<lambda>b. hw_widen H (the (f8e4m3_to_f32 b))) buf)
     | Float8E5M2 \<Rightarrow> Ok (map (\<lambda>b. hw_widen H (the (f8e5m2_to_f32 b))) buf)
     | Int64 \<Rightarrow> Ok (map (\<lambda>w. hw_of_int H (sint w)) (words64 buf))
     | Int32 \<Rightarrow> Ok (map (\<lambda>w. hw_of_int H (sint w)) (words32 buf))
     | Int16 \<Rightarrow> Ok (map (\<lambda>w. hw_of_int H (sint w)) (words16 buf))
     | Int8 \<Rightarrow> Ok (map (\<lambda>w. hw_of_int H (sint w)) buf)
     | Uint64 \<Rightarrow> Ok (map (\<lambda>w. hw_of_int H (uint w)) (words64 buf))
     | Uint32 \<Rightarrow> Ok (map (\<lambda>w. hw_of_int H (uint w)) (words32 buf))
     | Uint16 \<Rightarrow> Ok (map (\<lambda>w. hw_of_int H (uint w)) (words16 buf))
     | Uint8 \<Rightarrow> Ok (map (\<lambda>w. hw_of_int H (uint w)) buf)
     | Int4 \<Rightarrow> Ok (map (hw_of_int H) (decode_int4 buf))
     | _ \<Rightarrow> Err (UnsupportedSource source)))"

definition bytes_to_f32 :: "float_hw \<Rightarrow> dtype \<Rightarrow> 8 word list \<Rightarrow> (convert_error, f32 list) res" where
  "bytes_to_f32 H source buf = (case logical_elements source (int (length buf)) of
     Inl e \<Rightarrow> Err (BadBuffer e)
   | Inr _ \<Rightarrow> (case source of
       Float64 \<Rightarrow> Ok (map (hw_narrow H) (words64 buf))
     | Float32 \<Rightarrow> Ok (words32 buf)
     | Float16 \<Rightarrow> Ok (map (\<lambda>w. the (f16_to_f32 w)) (words16 buf))
     | BFloat16 \<Rightarrow> Ok (map bf16_to_f32 (words16 buf))
     | Float8E4M3 \<Rightarrow> Ok (map (\<lambda>b. the (f8e4m3_to_f32 b)) buf)
     | Float8E5M2 \<Rightarrow> Ok (map (\<lambda>b. the (f8e5m2_to_f32 b)) buf)
     | _ \<Rightarrow> rbind (bytes_to_f64 H source buf) (\<lambda>vs. Ok (map (hw_narrow H) vs))))"

definition bytes_to_bf16 :: "float_hw \<Rightarrow> dtype \<Rightarrow> 8 word list \<Rightarrow> (convert_error, 16 word list) res" where
  "bytes_to_bf16 H source buf = rbind (bytes_to_f32 H source buf) (\<lambda>vs. Ok (map f32_to_bf16 vs))"

definition bytes_to_f16 :: "float_hw \<Rightarrow> dtype \<Rightarrow> 8 word list \<Rightarrow> (convert_error, f16 list) res" where
  "bytes_to_f16 H source buf = rbind (bytes_to_f32 H source buf) (\<lambda>vs. Ok (map f32_to_f16 vs))"


definition bytes_to_f8e5m2 :: "float_hw \<Rightarrow> dtype \<Rightarrow> 8 word list \<Rightarrow> (convert_error, 8 word list) res" where
  "bytes_to_f8e5m2 H source buf = rbind (bytes_to_f32 H source buf) (\<lambda>vs. Ok (map f32_to_f8e5m2 vs))"

definition bytes_to_int8 :: "float_hw \<Rightarrow> dtype \<Rightarrow> 8 word list \<Rightarrow> (convert_error, 8 word list) res" where
  "bytes_to_int8 H source buf = rbind (bytes_to_f64 H source buf) (\<lambda>vs. Ok (map (\<lambda>v.
     if hw_less H v (hw_of_int H (- 128)) then word_of_int (- 128)
     else if hw_less H (hw_of_int H 127) v then 127
     else hw_to_int8 H v) vs))"

section \<open>Encoding\<close>

definition f64_to_bytes :: "64 word list \<Rightarrow> 8 word list" where
  "f64_to_bytes vs = concat (map bytes64 vs)"

definition f32_to_bytes :: "f32 list \<Rightarrow> 8 word list" where
  "f32_to_bytes vs = concat (map bytes32 vs)"

definition bf16_to_bytes :: "16 word list \<Rightarrow> 8 word list" where
  "bf16_to_bytes vs = concat (map bytes16 vs)"

definition f16_to_bytes :: "f16 list \<Rightarrow> 8 word list" where
  "f16_to_bytes vs = concat (map bytes16 vs)"

definition f8_to_bytes :: "8 word list \<Rightarrow> 8 word list" where
  "f8_to_bytes vs = vs"

section \<open>Lemmas\<close>

lemma words16_bytes16: "words16 (concat (map bytes16 ws)) = ws"
  by (induction ws) (simp_all add: bytes16_def bf16_bytes_join)

lemma bytes32_join:
  "ucast (ucast w :: 8 word) OR push_bit 8 (ucast (ucast (drop_bit 8 w) :: 8 word))
     OR push_bit 16 (ucast (ucast (drop_bit 16 w) :: 8 word)) OR push_bit 24 (ucast (ucast (drop_bit 24 w) :: 8 word))
   = (w :: 32 word)"
proof (rule bit_word_eqI)
  fix n assume "n < LENGTH(32)"
  then consider "n < 8" | "8 \<le> n" "n < 16" | "16 \<le> n" "n < 24" | "24 \<le> n" "n < 32" by (simp, linarith)
  then show "bit (ucast (ucast w :: 8 word) OR push_bit 8 (ucast (ucast (drop_bit 8 w) :: 8 word))
     OR push_bit 16 (ucast (ucast (drop_bit 16 w) :: 8 word)) OR push_bit 24 (ucast (ucast (drop_bit 24 w) :: 8 word)) :: 32 word) n
    = bit w n"
    by cases (auto simp: bit_simps)
qed

lemma words32_bytes32: "words32 (concat (map bytes32 ws)) = ws"
  by (induction ws) (simp_all add: bytes32_def bytes32_join)

lemma bytes_length: "length (concat (map bytes16 ws)) = 2 * length ws" "length (concat (map bytes32 vs)) = 4 * length vs"
  by (induction ws, simp_all add: bytes16_def, induction vs, simp_all add: bytes32_def)

lemma elements_ok:
  "logical_elements Float16 (2 * int (length ws)) = Ok (int (length ws))"
  "logical_elements BFloat16 (2 * int (length ws)) = Ok (int (length ws))"
  "logical_elements Float32 (4 * int (length vs)) = Ok (int (length vs))"
  by (simp_all add: logical_elements_def dtype_size_def sdiv_nonneg smod_nonneg)

text \<open>The decoders of the small formats never fail to normalise a subnormal.\<close>

lemma normalize_table:
  "list_all (\<lambda>m. normalize_loop 32 8 m 0 \<noteq> None) [1, 2, 3, 4, 5, 6, 7]"
  "list_all (\<lambda>m. normalize_loop 32 4 m 0 \<noteq> None) [1, 2, 3]"
  by code_simp+

lemma small_words:
  "(m :: 32 word) < 8 \<Longrightarrow> m \<noteq> 0 \<Longrightarrow> m \<in> set [1, 2, 3, 4, 5, 6, 7]"
  "(m :: 32 word) < 4 \<Longrightarrow> m \<noteq> 0 \<Longrightarrow> m \<in> set [1, 2, 3]"
proof -
  show "m \<in> set [1, 2, 3, 4, 5, 6, 7]" if "m < 8" "m \<noteq> 0"
  proof -
    have "unat m < 8" "unat m \<noteq> 0" using that by (simp_all add: word_less_nat_alt unat_eq_zero)
    then have "unat m \<in> {1, 2, 3, 4, 5, 6, 7}" by simp linarith
    then have "word_of_nat (unat m) \<in> {1, 2, 3, 4, 5, 6, 7 :: 32 word}" by fastforce
    then show ?thesis by simp
  qed
  show "m \<in> set [1, 2, 3]" if "m < 4" "m \<noteq> 0"
  proof -
    have "unat m < 4" "unat m \<noteq> 0" using that by (simp_all add: word_less_nat_alt unat_eq_zero)
    then have "unat m \<in> {1, 2, 3}" by simp linarith
    then have "word_of_nat (unat m) \<in> {1, 2, 3 :: 32 word}" by fastforce
    then show ?thesis by simp
  qed
qed

lemma low_bits:
  "(ucast (b AND 7 :: 8 word) :: 32 word) < 8" "(ucast (b AND 3 :: 8 word) :: 32 word) < 4"
proof -
  have "unat (b AND 7) \<le> 7" "unat (b AND 3) \<le> 3"
    using word_and_le1 [of b 7] word_and_le1 [of b 3] by (auto simp: word_le_nat_alt and.commute)
  then show "(ucast (b AND 7 :: 8 word) :: 32 word) < 8" "(ucast (b AND 3 :: 8 word) :: 32 word) < 4"
    by (simp_all add: word_less_nat_alt unsigned_ucast_eq take_bit_nat_eq_self)
qed

lemma fp8_decodes: "\<exists>y. f8e4m3_to_f32 b = Some y" "\<exists>y. f8e5m2_to_f32 b = Some y"
proof -
  have z: "b AND 127 = 0" if "b AND 7 = 0" "drop_bit 3 b AND 15 = 0"
  proof (rule bit_word_eqI)
    fix n assume "n < LENGTH(8)"
    have m: "(7 :: 8 word) = mask 3" "(15 :: 8 word) = mask 4" "(127 :: 8 word) = mask 7" by (simp_all add: mask_eq_exp_minus_1)
    have "\<not> bit (b AND 7) n" "\<not> bit (drop_bit 3 b AND 15) (n - 3)" using that by simp_all
    then show "bit (b AND 127) n = bit 0 n"
      unfolding m by (cases "n < 3") (auto simp: bit_and_iff bit_mask_iff bit_drop_bit_eq)
  qed
  have u: "ucast w = (0 :: 32 word) \<longleftrightarrow> w = 0" for w :: "8 word"
  proof
    assume "ucast w = (0 :: 32 word)"
    then have "bit (ucast w :: 32 word) n = bit (0 :: 32 word) n" for n by simp
    then show "w = 0" by (intro bit_word_eqI) (auto simp: bit_ucast_iff)
  qed simp
  show "\<exists>y. f8e4m3_to_f32 b = Some y"
  proof (cases "(ucast (b AND 7) :: 32 word) = 0")
    case False
    from small_words(1) [OF low_bits(1) this] normalize_table(1) have "normalize_loop 32 8 (ucast (b AND 7)) 0 \<noteq> None"
      unfolding list_all_iff by blast
    then show ?thesis by (auto simp: f8e4m3_to_f32_def Let_def)
  next
    case True
    then have "b AND 7 = 0" by (simp only: u)
    with z have "drop_bit 3 b AND 15 \<noteq> 0 \<or> b AND 127 = 0" by blast
    then show ?thesis by (auto simp: f8e4m3_to_f32_def Let_def u)
  qed
  show "\<exists>y. f8e5m2_to_f32 b = Some y"
  proof (cases "(ucast (b AND 3) :: 32 word) = 0")
    case False
    from small_words(2) [OF low_bits(2) this] normalize_table(2) have "normalize_loop 32 4 (ucast (b AND 3)) 0 \<noteq> None"
      unfolding list_all_iff by blast
    then show ?thesis by (auto simp: f8e5m2_to_f32_def Let_def)
  next
    case True
    then show ?thesis by (auto simp: f8e5m2_to_f32_def Let_def)
  qed
qed

text \<open>
  C28. Buffers in their own format. Decoding the bytes of float32 values gives them back; converting a buffer of
  binary16 or bfloat16 values to its own format, which goes through float32, changes no value except that
  a NaN becomes quiet. No buffer of whole elements is refused.
\<close>

theorem convert_roundtrip:
  "bytes_to_f32 H Float32 (f32_to_bytes xs) = Ok xs
   \<and> bytes_to_f16 H Float16 (f16_to_bytes hs) = Ok (map (\<lambda>x. if is_nan_f16 x then x OR 0x0200 else x) hs)
   \<and> bytes_to_bf16 H BFloat16 (bf16_to_bytes bs) = Ok (map (\<lambda>b. if is_nan_bf16 b then b OR 0x0040 else b) bs)"
proof -
  have f16: "f32_to_f16 (the (f16_to_f32 x)) = (if is_nan_f16 x then x OR 0x0200 else x)" for x
    using f16_widens [of x] by auto
  show ?thesis
    by (simp add: bytes_to_f32_def bytes_to_f16_def bytes_to_bf16_def f32_to_bytes_def f16_to_bytes_def bf16_to_bytes_def
      bytes_length elements_ok words16_bytes16 words32_bytes32 f16 bf16_narrow comp_def)
qed


end
