(* ===== verification/Runtime_State.thy ===== *)
theory Runtime_State
  imports Ast_Graph Float_Buffers "HOL-Library.AList" "HOL-Library.Sublist"
begin

text \<open>
  The values a running program works on, and the state store of \<open>runtime/state.go\<close>. A Go \<open>any\<close> is a
  \<open>rt_value\<close>; what is shared by reference (tensors, paged handles, page tables, the arrays under \<open>[]int\<close> and
  \<open>[]float32\<close> slices) is an address in a heap. A Go map is an association list with distinct keys. Both float
  widths have the type \<open>'f\<close>; their arithmetic, conversions (\<open>fp_round\<close> is \<open>float32\<close> of a \<open>float64\<close>) and the random
  numbers are parameters (\<open>float_prims\<close>): \<open>fp_muladd x y z\<close> is \<open>x * y + z\<close>, which Go may fuse, \<open>fp_mulsub x y z\<close> is \<open>z - x * y\<close>.
\<close>

section \<open>Values and the heap\<close>

record int_slice =
  sl_array :: nat
  sl_len :: nat

datatype 'f rt_value =
    VNil | VInt int | VInt32 int | VInt64 int | VFloat32 'f | VFloat64 'f
  | VInts int_slice | VInt32s "int list" | VInt64s "int list" | VFloat32s nat | VFloat64s "'f list"
  | VString string | VBool bool | VTensor nat | VPaged nat | VTable nat

record rt_tensor =
  te_dtype :: dtype
  te_dims :: "int list"
  te_host :: bool
  te_bytes :: "8 word list"
  te_open :: bool

record 'f paged_state =
  ps_shape :: "int list"
  ps_page_size :: int
  ps_page_count :: int
  ps_storage :: "'f rt_value"

record 'f page_table =
  pg_capacity :: int
  pg_pages :: "int list"
  pg_storage :: "'f rt_value"

record 'f rt_heap =
  hp_tensors :: "rt_tensor list"
  hp_ints :: "int list list"
  hp_floats :: "'f list list"
  hp_paged :: "'f paged_state list"
  hp_tables :: "'f page_table list"

type_synonym 'f bindings = "(string \<times> 'f rt_value) list"

record 'f float_prims =
  fp_to_int :: "'f \<Rightarrow> int"
  fp_to_int32 :: "'f \<Rightarrow> int"
  fp_of_int :: "int \<Rightarrow> 'f"
  fp_round :: "'f \<Rightarrow> 'f"
  fp_bits :: "'f \<Rightarrow> 32 word"
  fp_of_bits :: "32 word \<Rightarrow> 'f"
  fp_hw :: float_hw
  fp_literal :: "string \<Rightarrow> 'f"
  fp_parse :: "string \<Rightarrow> 'f option"
  fp_add :: "'f \<Rightarrow> 'f \<Rightarrow> 'f"
  fp_sub :: "'f \<Rightarrow> 'f \<Rightarrow> 'f"
  fp_mul :: "'f \<Rightarrow> 'f \<Rightarrow> 'f"
  fp_div :: "'f \<Rightarrow> 'f \<Rightarrow> 'f"
  fp_muladd :: "'f \<Rightarrow> 'f \<Rightarrow> 'f \<Rightarrow> 'f"
  fp_mulsub :: "'f \<Rightarrow> 'f \<Rightarrow> 'f \<Rightarrow> 'f"
  fp_less :: "'f \<Rightarrow> 'f \<Rightarrow> bool"
  fp_eq :: "'f \<Rightarrow> 'f \<Rightarrow> bool"
  fp_exp :: "'f \<Rightarrow> 'f"
  fp_pow :: "'f \<Rightarrow> 'f \<Rightarrow> 'f"
  fp_add64 :: "'f \<Rightarrow> 'f \<Rightarrow> 'f"
  fp_of_int64 :: "int \<Rightarrow> 'f"
  fp_mul64 :: "'f \<Rightarrow> 'f \<Rightarrow> 'f"
  fp_zero :: 'f
  fp_gaussian :: "int \<Rightarrow> nat \<Rightarrow> 'f list"

datatype rt_error =
    UnsupportedStateType string string | BadStateShape string | StatePanic
  | StateReferenceRequired | NotStateReference string | UnknownState string
  | UpdateTargetRequired | NotACounter string | UnsupportedUpdate string
  | PageSizeNotPositive | EmptyTokenBatch | NotScalar nat | UnsupportedScalar | TensorClosed | WrongDType
  | BackendRequired | UploadFailed | TokenOverflow int | UnsupportedTokens | UnsupportedFloats | WrongRank
  | PagedStateNil | PagedNotMaterialized | NotATensor
  | InputRequired string | ValueNotFound string | WrongValueType string | StoreRequired | HostRequired
  | HostFailed string | EndOfFile | LoopCountRequired | BadLoopCount string | AppendTargetRequired
  | GraphNameRequired | UnknownGraph string | GraphFailed string | UnsupportedOp string
  | ProgramRequired | AtStep string string rt_error | OpFailed string | OutOfFuel | NilLoop

text \<open>\<open>Close\<close> on a tensor; closing a closed tensor changes nothing.\<close>

definition close_tensor_at :: "nat \<Rightarrow> 'f rt_heap \<Rightarrow> 'f rt_heap" where
  "close_tensor_at a h = (if a < length (hp_tensors h)
     then h\<lparr>hp_tensors := (hp_tensors h)[a := (hp_tensors h ! a)\<lparr>te_open := False\<rparr>]\<rparr> else h)"

definition tensor_open :: "'f rt_heap \<Rightarrow> nat \<Rightarrow> bool" where
  "tensor_open h a \<longleftrightarrow> a < length (hp_tensors h) \<and> te_open (hp_tensors h ! a)"

section \<open>Slices of integers\<close>

text \<open>
  A \<open>[]int\<close> is the beginning of a backing array whose length is the slice's capacity. \<open>append\<close> writes into
  the backing array while there is capacity and else moves to a new array, whose capacity is up to the Go
  runtime: \<open>grow n\<close> is the spare capacity of an array made for \<open>n\<close> elements.
\<close>

definition read_ints :: "'f rt_heap \<Rightarrow> int_slice \<Rightarrow> int list" where
  "read_ints h s = take (sl_len s) (hp_ints h ! sl_array s)"

definition new_ints :: "(nat \<Rightarrow> nat) \<Rightarrow> int list \<Rightarrow> 'f rt_heap \<Rightarrow> int_slice \<times> 'f rt_heap" where
  "new_ints grow xs h = (\<lparr>sl_array = length (hp_ints h), sl_len = length xs\<rparr>,
     h\<lparr>hp_ints := hp_ints h @ [xs @ replicate (grow (length xs)) 0]\<rparr>)"

definition append_int :: "(nat \<Rightarrow> nat) \<Rightarrow> int_slice \<Rightarrow> int \<Rightarrow> 'f rt_heap \<Rightarrow> int_slice \<times> 'f rt_heap" where
  "append_int grow s x h =
     (if sl_len s < length (hp_ints h ! sl_array s)
      then (s\<lparr>sl_len := Suc (sl_len s)\<rparr>,
            h\<lparr>hp_ints := (hp_ints h)[sl_array s := (hp_ints h ! sl_array s)[sl_len s := x]]\<rparr>)
      else new_ints grow (read_ints h s @ [x]) h)"

text \<open>A \<open>[]float32\<close> never grows; the slice is its array.\<close>

definition read_floats :: "'f rt_heap \<Rightarrow> nat \<Rightarrow> 'f list" where
  "read_floats h a = hp_floats h ! a"

definition new_floats :: "'f list \<Rightarrow> 'f rt_heap \<Rightarrow> 'f rt_value \<times> 'f rt_heap" where
  "new_floats xs h = (VFloat32s (length (hp_floats h)), h\<lparr>hp_floats := hp_floats h @ [xs]\<rparr>)"

section \<open>Dynamic values of a declaration\<close>

definition int64_from_any :: "'f float_prims \<Rightarrow> 'f attr \<Rightarrow> int \<Rightarrow> int" where
  "int64_from_any P v fallback = (case v of AInt i \<Rightarrow> i | AInt64 i \<Rightarrow> i | AFloat64 x \<Rightarrow> fp_to_int P x | _ \<Rightarrow> fallback)"

definition int_from_map :: "'f float_prims \<Rightarrow> (string \<Rightarrow> 'f attr option) \<Rightarrow> string \<Rightarrow> int \<Rightarrow> int" where
  "int_from_map P m key fallback = (case m key of None \<Rightarrow> fallback | Some v \<Rightarrow> int64_from_any P v fallback)"

fun ints_from_any_slice :: "'f float_prims \<Rightarrow> 'f attr list \<Rightarrow> int list option" where
  "ints_from_any_slice P [] = Some []"
| "ints_from_any_slice P (v # vs) = (case v of
     AInt i \<Rightarrow> map_option ((#) i) (ints_from_any_slice P vs)
   | AInt64 i \<Rightarrow> map_option ((#) i) (ints_from_any_slice P vs)
   | AFloat64 x \<Rightarrow> map_option ((#) (fp_to_int P x)) (ints_from_any_slice P vs)
   | _ \<Rightarrow> None)"

definition state_element_count :: "'f float_prims \<Rightarrow> 'f attr list \<Rightarrow> int" where
  "state_element_count P shape = fold (\<lambda>d n. wrap64 (n * int64_from_any P d 1)) shape 1"

section \<open>The state store\<close>

record 'f state_declaration =
  sd_name :: string
  sd_type :: string
  sd_shape :: "'f attr list"
  sd_init :: string
  sd_seed :: "'f attr"
  sd_config :: "string \<Rightarrow> 'f attr option"

text \<open>A negative element count makes the \<open>make\<close> of the buffer panic.\<close>

definition initialize_tensor ::
  "'f float_prims \<Rightarrow> 'f state_declaration \<Rightarrow> 'f rt_heap \<Rightarrow> (rt_error, 'f rt_value \<times> 'f rt_heap) res" where
  "initialize_tensor P d h = (let n = state_element_count P (sd_shape d) in
     if sd_init d = ''gaussian'' then
       (if n < 0 then Err StatePanic
        else Ok (new_floats (fp_gaussian P (int64_from_any P (sd_seed d) 0) (nat n)) h))
     else if sd_init d = ''runtime'' then Ok (VNil, h)
     else if n < 0 then Err StatePanic
     else Ok (new_floats (replicate (nat n) (fp_zero P)) h))"

definition initialize_paged_tensor ::
  "'f float_prims \<Rightarrow> 'f state_declaration \<Rightarrow> 'f rt_heap \<Rightarrow> (rt_error, 'f rt_value \<times> 'f rt_heap) res" where
  "initialize_paged_tensor P d h = (case ints_from_any_slice P (sd_shape d) of
     None \<Rightarrow> Err (BadStateShape (sd_name d))
   | Some shape \<Rightarrow> Ok (VPaged (length (hp_paged h)),
       h\<lparr>hp_paged := hp_paged h @ [\<lparr>ps_shape = shape, ps_page_size = int_from_map P (sd_config d) ''page_size'' 0,
          ps_page_count = int_from_map P (sd_config d) ''page_count'' 0, ps_storage = VNil\<rparr>]\<rparr>))"

definition initialize_page_table ::
  "'f float_prims \<Rightarrow> 'f state_declaration \<Rightarrow> 'f rt_heap \<Rightarrow> (rt_error, 'f rt_value \<times> 'f rt_heap) res" where
  "initialize_page_table P d h = Ok (VTable (length (hp_tables h)),
     h\<lparr>hp_tables := hp_tables h @ [\<lparr>pg_capacity = int_from_map P (sd_config d) ''capacity'' 0, pg_pages = [],
        pg_storage = VNil\<rparr>]\<rparr>)"

definition state_initialize ::
  "'f float_prims \<Rightarrow> 'f state_declaration \<Rightarrow> 'f rt_heap \<Rightarrow> (rt_error, 'f rt_value \<times> 'f rt_heap) res" where
  "state_initialize P d h =
     (if sd_type d = ''counter'' then Ok (VInt64 0, h)
      else if sd_type d = ''scalar'' then Ok (VInt64 (int64_from_any P (sd_seed d) 0), h)
      else if sd_type d = ''tensor'' then initialize_tensor P d h
      else if sd_type d = ''paged_tensor'' then initialize_paged_tensor P d h
      else if sd_type d = ''page_table'' then initialize_page_table P d h
      else Err (UnsupportedStateType (sd_name d) (sd_type d)))"

definition new_state_store ::
  "'f float_prims \<Rightarrow> 'f state_declaration list \<Rightarrow> 'f rt_heap \<Rightarrow> (rt_error, 'f bindings \<times> 'f rt_heap) res" where
  "new_state_store P ds h =
     fold_res (\<lambda>d (slots, h). rbind (state_initialize P d h) (\<lambda>(v, h). Ok (AList.update (sd_name d) v slots, h)))
       ds ([], h)"

definition state_prefix :: string where "state_prefix = ''state.''"

definition is_state_ref :: "string \<Rightarrow> bool" where
  "is_state_ref ref \<longleftrightarrow> prefix state_prefix ref"

definition state_name :: "string \<Rightarrow> string" where
  "state_name ref = drop (length state_prefix) ref"

definition store_get :: "'f bindings \<Rightarrow> string \<Rightarrow> 'f rt_value option" where
  "store_get slots x = map_of slots x"

definition store_set :: "string \<Rightarrow> 'f rt_value \<Rightarrow> 'f bindings \<Rightarrow> 'f bindings" where
  "store_set x v slots = AList.update x v slots"

definition close_replaced :: "'f rt_value option \<Rightarrow> 'f rt_value \<Rightarrow> 'f rt_heap \<Rightarrow> 'f rt_heap" where
  "close_replaced previous v h = (case previous of
     Some (VTensor a) \<Rightarrow> (case v of VTensor b \<Rightarrow> if a = b then h else close_tensor_at a h | _ \<Rightarrow> close_tensor_at a h)
   | _ \<Rightarrow> h)"

definition set_reference ::
  "string \<Rightarrow> 'f rt_value \<Rightarrow> 'f bindings \<times> 'f rt_heap \<Rightarrow> (rt_error, 'f bindings \<times> 'f rt_heap) res" where
  "set_reference ref v = (\<lambda>(slots, h).
     if \<not> is_state_ref ref then Err (NotStateReference ref)
     else Ok (store_set (state_name ref) v slots, close_replaced (map_of slots (state_name ref)) v h))"

definition resolve_reference :: "string \<Rightarrow> 'f bindings \<Rightarrow> (rt_error, 'f rt_value) res" where
  "resolve_reference ref slots =
     (if ref = [] then Err StateReferenceRequired
      else if \<not> is_state_ref ref then Err (NotStateReference ref)
      else case store_get slots (state_name ref) of
          None \<Rightarrow> Err (UnknownState (state_name ref)) | Some v \<Rightarrow> Ok v)"

definition state_update :: "string \<Rightarrow> string \<Rightarrow> 'f bindings \<Rightarrow> (rt_error, 'f bindings) res" where
  "state_update upd target slots =
     (let x = (if is_state_ref target then state_name target else target) in
      if x = [] then Err UpdateTargetRequired
      else case store_get slots x of
          None \<Rightarrow> Err (UnknownState x)
        | Some v \<Rightarrow>
            if upd = ''increment''
            then (case v of VInt64 c \<Rightarrow> Ok (store_set x (VInt64 (wrap64 (c + 1))) slots) | _ \<Rightarrow> Err (NotACounter x))
            else Err (UnsupportedUpdate upd))"

end
