(* ===== verification/Paged_Plan.thy ===== *)
theory Paged_Plan
  imports Runtime_State
begin

text \<open>
  The write plan of a paged key-value cache (\<open>runtime/paged_plan.go\<close>) and the launch bindings of a graph call
  (\<open>runtime/launch_bindings.go\<close>). The tensor backend of the state is the interface \<open>tensor.Backend\<close>: the
  model takes from it whether it keeps its tensors on the host, which tensors it can download, and which uploads it
  accepts; an accepted upload is a new open tensor with the given bytes.
\<close>

unbundle bit_operations_syntax

section \<open>Uploading integers\<close>

record upload_backend =
  ub_host :: bool
  ub_readable :: "rt_tensor \<Rightarrow> bool"
  ub_accepts :: "int list \<Rightarrow> dtype \<Rightarrow> 8 word list \<Rightarrow> bool"

definition backend_upload ::
  "upload_backend \<Rightarrow> int list \<Rightarrow> dtype \<Rightarrow> 8 word list \<Rightarrow> 'f rt_heap \<Rightarrow> (rt_error, 'f rt_value \<times> 'f rt_heap) res" where
  "backend_upload B dims d bytes h =
     (if \<not> ub_accepts B dims d bytes then Err UploadFailed
      else Ok (VTensor (length (hp_tensors h)),
        h\<lparr>hp_tensors := hp_tensors h @ [\<lparr>te_dtype = d, te_dims = dims, te_host = ub_host B, te_bytes = bytes, te_open = True\<rparr>]\<rparr>))"

definition int32_bytes :: "int \<Rightarrow> 8 word list" where
  "int32_bytes i = (let w = (word_of_int i :: 32 word) in
     [ucast w, ucast (drop_bit 8 w), ucast (drop_bit 16 w), ucast (drop_bit 24 w)])"

fun int32_of_bytes :: "8 word list \<Rightarrow> int" where
  "int32_of_bytes [a, b, c, d] = sint ((ucast a :: 32 word) OR push_bit 8 (ucast b) OR push_bit 16 (ucast c) OR push_bit 24 (ucast d))"
| "int32_of_bytes _ = 0"

fun int32s_of_bytes :: "8 word list \<Rightarrow> int list" where
  "int32s_of_bytes (a # b # c # d # bs) = int32_of_bytes [a, b, c, d] # int32s_of_bytes bs"
| "int32s_of_bytes _ = []"

definition upload_int32_vector ::
  "upload_backend option \<Rightarrow> int list \<Rightarrow> 'f rt_heap \<Rightarrow> (rt_error, 'f rt_value \<times> 'f rt_heap) res" where
  "upload_int32_vector B xs h = (case B of
     None \<Rightarrow> Err BackendRequired
   | Some B \<Rightarrow> backend_upload B [int (length xs)] Int32 (concat (map int32_bytes xs)) h)"

section \<open>Reading a scalar position\<close>

definition int32_scalar_from_raw_tensor :: "rt_tensor \<Rightarrow> (rt_error, int) res" where
  "int32_scalar_from_raw_tensor t =
     (if \<not> te_open t then Err TensorClosed
      else if te_dtype t \<noteq> Int32 then Err WrongDType
      else if length (te_bytes t) \<noteq> 4 then Err (NotScalar (length (te_bytes t)))
      else Ok (int32_of_bytes (te_bytes t)))"

definition int32_native :: "rt_tensor \<Rightarrow> (rt_error, int list) res" where
  "int32_native t =
     (if \<not> te_open t then Err TensorClosed
      else if te_dtype t \<noteq> Int32 then Err WrongDType
      else Ok (int32s_of_bytes (te_bytes t)))"

definition only :: "'a list \<Rightarrow> (rt_error, 'a) res" where
  "only xs = (case xs of [x] \<Rightarrow> Ok x | _ \<Rightarrow> Err (NotScalar (length xs)))"

definition scalar_int32_value :: "'f float_prims \<Rightarrow> 'f rt_heap \<Rightarrow> 'f rt_value \<Rightarrow> (rt_error, int) res" where
  "scalar_int32_value P h v = (case v of
     VInt i \<Rightarrow> Ok (wrap32 i)
   | VInt32 i \<Rightarrow> Ok i
   | VInt64 i \<Rightarrow> Ok (wrap32 i)
   | VInts s \<Rightarrow> rbind (only (read_ints h s)) (\<lambda>i. Ok (wrap32 i))
   | VInt32s xs \<Rightarrow> only xs
   | VFloat32s a \<Rightarrow> rbind (only (read_floats h a)) (\<lambda>x. Ok (fp_to_int32 P x))
   | VTensor a \<Rightarrow> (let t = hp_tensors h ! a in
       if te_host t then rbind (int32_native t) only else int32_scalar_from_raw_tensor t)
   | _ \<Rightarrow> Err UnsupportedScalar)"

section \<open>The plan of one step\<close>

record paged_plan_result =
  pp_write_page_ids :: "int list"
  pp_write_offsets :: "int list"
  pp_page_table :: "int list"
  pp_kv_length :: int

text \<open>\<open>int(startPosition) + i\<close> cannot leave 64 bits. The table starts with \<open>make([]int32, 0, finalPageID+1)\<close>.\<close>

definition build_paged_plan :: "(rt_error, int) res \<Rightarrow> nat \<Rightarrow> int \<Rightarrow> (rt_error, paged_plan_result) res" where
  "build_paged_plan position count page_size =
     (if page_size \<le> 0 then Err PageSizeNotPositive
      else rbind position (\<lambda>start.
        if count = 0 then Err EmptyTokenBatch
        else
          let at = map (\<lambda>i. start + int i) [0..<count];
              kv = start + int count;
              last_page = wrap32 ((kv - 1) sdiv page_size) in
          if wrap32 (last_page + 1) < 0 then Err StatePanic
          else Ok \<lparr>pp_write_page_ids = map (\<lambda>p. wrap32 (p sdiv page_size)) at,
                 pp_write_offsets = map (\<lambda>p. wrap32 (p smod page_size)) at,
                 pp_page_table = map int [0..<nat (last_page + 1)],
                 pp_kv_length = kv\<rparr>))"

section \<open>Launch bindings\<close>

definition token_sequence_length :: "'f rt_heap \<Rightarrow> 'f rt_value \<Rightarrow> int option" where
  "token_sequence_length h v =
     (let some_length = (\<lambda>n. if n = 0 then None else Some (int n)) in case v of
     VInts s \<Rightarrow> some_length (sl_len s)
   | VInt32s xs \<Rightarrow> some_length (length xs)
   | VInt64s xs \<Rightarrow> some_length (length xs)
   | VInt _ \<Rightarrow> Some 1 | VInt32 _ \<Rightarrow> Some 1 | VInt64 _ \<Rightarrow> Some 1
   | VTensor a \<Rightarrow> (let t = hp_tensors h ! a in
       if te_dtype t \<noteq> Int32 then None
       else case te_dims t of
           [n] \<Rightarrow> if n = 0 then None else Some n
         | [m, n] \<Rightarrow> if m = 0 \<or> n = 0 then None else Some n
         | _ \<Rightarrow> None)
   | _ \<Rightarrow> None)"

fun first_length :: "'f rt_heap \<Rightarrow> 'f rt_value list \<Rightarrow> int" where
  "first_length h [] = 0"
| "first_length h (v # vs) = (case token_sequence_length h v of Some n \<Rightarrow> n | None \<Rightarrow> first_length h vs)"

definition input_value :: "'f bindings \<Rightarrow> string \<Rightarrow> 'f rt_value" where
  "input_value m x = (case map_of m x of None \<Rightarrow> VNil | Some v \<Rightarrow> v)"

definition derive_launch_bindings ::
  "'f float_prims \<Rightarrow> 'f rt_heap \<Rightarrow> string list \<Rightarrow> 'f bindings \<Rightarrow> symbol_map option" where
  "derive_launch_bindings P h graph_inputs inputs =
     (let n0 = first_length h (map (input_value inputs) graph_inputs);
          n = (if n0 = 0 then first_length h (map snd inputs) else n0) in
      if n = 0 then None
      else let position = (case scalar_int32_value P h (input_value inputs ''position_offset'') of Inl _ \<Rightarrow> 0 | Inr p \<Rightarrow> p) in
        Some [''N'' \<mapsto> n, ''T'' \<mapsto> n, ''KV'' \<mapsto> wrap64 (position + n)])"

end
