(* ===== verification/Graph_Inputs.thy ===== *)
theory Graph_Inputs
  imports Paged_Plan
begin

text \<open>
  The boundary of a graph call (\<open>runtime/state_inputs.go\<close>): values of the program become the tensors a graph
  expects, and the graph's outputs go back into the state. Paged handles are never nil here.
\<close>

definition resolve_paged_tensor_input :: "'f rt_heap \<Rightarrow> nat \<Rightarrow> (rt_error, 'f rt_value) res" where
  "resolve_paged_tensor_input h a = (case ps_storage (hp_paged h ! a) of
     VTensor t \<Rightarrow> Ok (VTensor t) | _ \<Rightarrow> Err PagedNotMaterialized)"

text \<open>An empty table uploads through the backend without a check, which panics on a nil backend.\<close>

definition resolve_page_table_input ::
  "upload_backend option \<Rightarrow> nat \<Rightarrow> 'f rt_heap \<Rightarrow> (rt_error, 'f rt_value \<times> 'f rt_heap) res" where
  "resolve_page_table_input B a h = (let pages = pg_pages (hp_tables h ! a) in
     case B of
       None \<Rightarrow> if pages = [] then Err StatePanic else Err BackendRequired
     | Some B \<Rightarrow> backend_upload B [int (length pages)] Int32 (concat (map int32_bytes pages)) h)"

definition resolve_graph_input ::
  "upload_backend option \<Rightarrow> 'f rt_value \<Rightarrow> 'f rt_heap \<Rightarrow> (rt_error, 'f rt_value \<times> 'f rt_heap) res" where
  "resolve_graph_input B v h = (case v of
     VPaged a \<Rightarrow> rbind (resolve_paged_tensor_input h a) (\<lambda>v. Ok (v, h))
   | VTable a \<Rightarrow> resolve_page_table_input B a h
   | _ \<Rightarrow> Ok (v, h))"

section \<open>What the graph expects\<close>

fun input_slot_type :: "string \<Rightarrow> string list \<Rightarrow> port_type list \<Rightarrow> port_type option" where
  "input_slot_type x (i # is) (t # ts) = (if i = x then Some t else input_slot_type x is ts)"
| "input_slot_type x _ _ = None"

fun boundary_type_in :: "string \<Rightarrow> 'v graph_node list \<Rightarrow> port_type option" where
  "boundary_type_in x [] = None"
| "boundary_type_in x (n # ns) = (case input_slot_type x (gn_inputs n) (gn_input_types n) of
     Some t \<Rightarrow> Some t | None \<Rightarrow> boundary_type_in x ns)"

definition graph_boundary_input_type :: "'v ast_graph option \<Rightarrow> string \<Rightarrow> port_type option" where
  "graph_boundary_input_type g x = Option.bind g (\<lambda>g. boundary_type_in x (g_nodes g))"

definition graph_input_expects_batched_tokens :: "'v ast_graph option \<Rightarrow> string \<Rightarrow> bool" where
  "graph_input_expects_batched_tokens g x = (case graph_boundary_input_type g x of
     None \<Rightarrow> False | Some t \<Rightarrow> pt_kind t = ''TokenIndex'' \<and> length (pt_shape t) = 2)"

definition graph_input_expects_float_vector :: "'v ast_graph option \<Rightarrow> string \<Rightarrow> bool" where
  "graph_input_expects_float_vector g x = (case graph_boundary_input_type g x of
     None \<Rightarrow> False | Some t \<Rightarrow> pt_dtype t = Float32 \<and> length (pt_shape t) = 1)"

section \<open>Tokens and floats\<close>

definition checked_token :: "int \<Rightarrow> (rt_error, int) res" where
  "checked_token i = (if i < - (2 ^ 31) \<or> i > 2 ^ 31 - 1 then Err (TokenOverflow i) else Ok i)"

definition int32_token_vector :: "'f rt_heap \<Rightarrow> 'f rt_value \<Rightarrow> (rt_error, int list) res" where
  "int32_token_vector h v = (case v of
     VInts s \<Rightarrow> traverse checked_token (read_ints h s)
   | VInt32s xs \<Rightarrow> Ok xs
   | VInt64s xs \<Rightarrow> traverse checked_token xs
   | VInt i \<Rightarrow> traverse checked_token [i]
   | VInt32 i \<Rightarrow> Ok [i]
   | VInt64 i \<Rightarrow> traverse checked_token [i]
   | _ \<Rightarrow> Err UnsupportedTokens)"

definition batched_token_tensor ::
  "upload_backend option \<Rightarrow> 'f rt_value \<Rightarrow> 'f rt_heap \<Rightarrow> (rt_error, 'f rt_value \<times> 'f rt_heap) res" where
  "batched_token_tensor B v h = (case v of
     VTensor a \<Rightarrow> (let t = hp_tensors h ! a in
       if te_dtype t \<noteq> Int32 then Err WrongDType
       else if length (te_dims t) \<noteq> 2 then Err WrongRank else Ok (v, h))
   | _ \<Rightarrow> rbind (int32_token_vector h v) (\<lambda>tokens. case B of
       None \<Rightarrow> Err BackendRequired
     | Some B \<Rightarrow> backend_upload B [1, int (length tokens)] Int32 (concat (map int32_bytes tokens)) h))"

definition float32_vector_value :: "'f float_prims \<Rightarrow> 'f rt_heap \<Rightarrow> 'f rt_value \<Rightarrow> (rt_error, 'f list) res" where
  "float32_vector_value P h v = (case v of
     VFloat32s a \<Rightarrow> Ok (read_floats h a) | VFloat64s xs \<Rightarrow> Ok (map (fp_round P) xs)
   | VFloat32 x \<Rightarrow> Ok [x] | VFloat64 x \<Rightarrow> Ok [fp_round P x]
   | VInt i \<Rightarrow> Ok [fp_of_int P i] | VInt64 i \<Rightarrow> Ok [fp_of_int P i] | _ \<Rightarrow> Err UnsupportedFloats)"

definition float32_bytes :: "'f float_prims \<Rightarrow> 'f \<Rightarrow> 8 word list" where
  "float32_bytes P x = int32_bytes (uint (fp_bits P x))"

definition float32_tensor_vector ::
  "'f float_prims \<Rightarrow> upload_backend option \<Rightarrow> 'f rt_value \<Rightarrow> 'f rt_heap
     \<Rightarrow> (rt_error, 'f rt_value \<times> 'f rt_heap) res" where
  "float32_tensor_vector P B v h = (case v of
     VTensor a \<Rightarrow> (let t = hp_tensors h ! a in
       if \<not> is_float (te_dtype t) then Err WrongDType
       else if length (te_dims t) \<noteq> 1 then Err WrongRank else Ok (v, h))
   | _ \<Rightarrow> rbind (float32_vector_value P h v) (\<lambda>xs. case B of
       None \<Rightarrow> Err BackendRequired
     | Some B \<Rightarrow> backend_upload B [int (length xs)] Float32 (concat (map (float32_bytes P) xs)) h))"

definition resolve_graph_input_for_graph ::
  "'f float_prims \<Rightarrow> upload_backend option \<Rightarrow> 'v ast_graph option \<Rightarrow> string \<Rightarrow> 'f rt_value \<Rightarrow> 'f rt_heap
     \<Rightarrow> (rt_error, 'f rt_value \<times> 'f rt_heap) res" where
  "resolve_graph_input_for_graph P B g x v h =
     rbind (resolve_graph_input B v h) (\<lambda>(v, h).
       if \<not> graph_input_expects_batched_tokens g x
       then (if \<not> graph_input_expects_float_vector g x then Ok (v, h) else float32_tensor_vector P B v h)
       else batched_token_tensor B v h)"

section \<open>Committing outputs\<close>

definition as_tensor :: "'f rt_value \<Rightarrow> (rt_error, 'f rt_value) res" where
  "as_tensor v = (case v of VTensor a \<Rightarrow> Ok v | _ \<Rightarrow> Err NotATensor)"

definition set_paged_storage :: "nat \<Rightarrow> 'f rt_value \<Rightarrow> 'f rt_heap \<Rightarrow> 'f rt_heap" where
  "set_paged_storage a v h = h\<lparr>hp_paged := (hp_paged h)[a := (hp_paged h ! a)\<lparr>ps_storage := v\<rparr>]\<rparr>"

definition update_table :: "nat \<Rightarrow> ('f page_table \<Rightarrow> 'f page_table) \<Rightarrow> 'f rt_heap \<Rightarrow> 'f rt_heap" where
  "update_table a f h = h\<lparr>hp_tables := (hp_tables h)[a := f (hp_tables h ! a)]\<rparr>"

definition commit_graph_state_output ::
  "'f rt_value \<Rightarrow> 'f rt_value \<Rightarrow> 'f rt_heap \<Rightarrow> (rt_error, 'f rt_value \<times> 'f rt_heap) res" where
  "commit_graph_state_output previous output h = (case previous of
     VPaged a \<Rightarrow> (case output of
       VPaged b \<Rightarrow> (let s = ps_storage (hp_paged h ! b) in
         Ok (previous, if s = VNil then h else set_paged_storage a s h))
     | _ \<Rightarrow> rbind (as_tensor output) (\<lambda>s. Ok (previous, set_paged_storage a s h)))
   | VTable a \<Rightarrow> (case output of
       VTable b \<Rightarrow> (let u = hp_tables h ! b;
           h1 = (if pg_storage u = VNil then h else update_table a (\<lambda>t. t\<lparr>pg_storage := pg_storage u\<rparr>) h);
           h2 = (if pg_pages u = [] then h1 else update_table a (\<lambda>t. t\<lparr>pg_pages := pg_pages u\<rparr>) h1)
         in Ok (previous, h2))
     | _ \<Rightarrow> rbind (as_tensor output) (\<lambda>s. Ok (previous, update_table a (\<lambda>t. t\<lparr>pg_storage := s\<rparr>) h)))
   | _ \<Rightarrow> Ok (output, h))"

end
