(* ===== verification/Executor_Base.thy ===== *)
theory Executor_Base
  imports Graph_Inputs Go_Text Tensor_Shape
begin

text \<open>
  What the program executor of \<open>runtime/executor.go\<close> works on: the steps of a program (\<open>ast/program.go\<close>), the
  environment with its interfaces (\<open>runtime/hostops.go\<close>), and the reading and writing of values. A step that fails
  returns the state it leaves behind, since the loop until end of file goes on from it. Go maps that the executor
  walks (the inputs and outputs of a step) are lists in the order of the walk. The host, standard input, the graph
  backend and the random source are functions of the environment on a world \<open>'w\<close>; \<open>ex_sort\<close> is \<open>sort.Slice\<close> by descending
  value, which may order equal values in any way, and \<open>ex_axpy\<close> the optional in-place operation of the tensor backend.
\<close>

section \<open>Programs\<close>

record loop_spec =
  lp_over :: string
  lp_as :: string
  lp_repeat :: string
  lp_until :: string

datatype 'f prog_step =
  Step (ps_id: string) (ps_op: string) (ps_in: "(string \<times> string) list") (ps_out: "(string \<times> string) list")
    (ps_graph: string) (ps_config: "string \<Rightarrow> 'f attr option") (ps_loop: "loop_spec option")
    (ps_body: "'f prog_step list")

record ('f, 'w) rt_state =
  rs_values :: "'f bindings"
  rs_slots :: "'f bindings option"
  rs_heap :: "'f rt_heap"
  rs_world :: 'w

type_synonym ('f, 'w) outcome = "(rt_error \<times> ('f, 'w) rt_state, ('f, 'w) rt_state) res"

record encode_request =
  er_tokenizer :: string
  er_file :: string
  er_text :: string
  er_chat_template :: bool
  er_continuation :: bool
  er_max_length :: int
  er_pad :: int

record emit_request =
  em_tokenizer :: string
  em_file :: string
  em_token :: int

record 'f image_request =
  im_path :: string
  im_tensor :: "'f rt_value"
  im_width :: int
  im_height :: int
  im_channels :: int
  im_layout :: string
  im_range :: string

record 'f graph_call =
  gc_name :: string
  gc_inputs :: "'f bindings"
  gc_state_outputs :: "string list"
  gc_launch :: "symbol_map option"

text \<open>An error of an interface is \<open>io.EOF\<close> or any other.\<close>

datatype host_error = HostEof | HostFailure string

definition from_host :: "host_error \<Rightarrow> rt_error" where
  "from_host e = (case e of HostEof \<Rightarrow> EndOfFile | HostFailure m \<Rightarrow> HostFailed m)"

record ('f, 'w) host_ops =
  ho_read_line :: "'w \<Rightarrow> (host_error, string) res \<times> 'w"
  ho_emit_token :: "emit_request \<Rightarrow> 'w \<Rightarrow> (host_error, unit) res \<times> 'w"
  ho_write_image :: "'f image_request \<Rightarrow> 'f rt_heap \<Rightarrow> 'w \<Rightarrow> (host_error, unit) res \<times> 'w"
  ho_encode :: "encode_request \<Rightarrow> 'w \<Rightarrow> (host_error, int list) res \<times> 'w"

record ('f, 'v, 'w) exec_env =
  ex_prims :: "'f float_prims"
  ex_grow :: "nat \<Rightarrow> nat"
  ex_memory :: "upload_backend option"
  ex_graphs :: "string \<Rightarrow> 'v ast_graph option"
  ex_backend :: "('f graph_call \<Rightarrow> 'f rt_heap \<Rightarrow> 'w \<Rightarrow> (host_error, 'f bindings \<times> 'f rt_heap) res \<times> 'w) option"
  ex_host :: "('f, 'w) host_ops option"
  ex_stdin :: "('w \<Rightarrow> (string, string) res \<times> 'w) option"
  ex_dtype :: dtype
  ex_axpy :: "(rt_tensor \<Rightarrow> rt_tensor \<Rightarrow> 'f \<Rightarrow> 8 word list) option"
  ex_random :: "'w \<Rightarrow> 'f \<times> 'w"
  ex_sort :: "(int \<times> 'f) list \<Rightarrow> (int \<times> 'f) list"
  ex_initial :: "'f bindings"

section \<open>Values and configuration\<close>

definition trying :: "(rt_error, 'a) res \<Rightarrow> ('f, 'w) rt_state \<Rightarrow> ('a \<Rightarrow> ('f, 'w) outcome) \<Rightarrow> ('f, 'w) outcome" where
  "trying r s k = (case r of Inl e \<Rightarrow> Err (e, s) | Inr x \<Rightarrow> k x)"

lemma trying_simps [simp]: "trying (Inl e) s k = Inl (e, s)" "trying (Inr x) s k = k x"
  by (simp_all add: trying_def)

definition in_world ::
  "(host_error, 'a) res \<times> 'w \<Rightarrow> ('f, 'w) rt_state \<Rightarrow> ('a \<Rightarrow> ('f, 'w) rt_state \<Rightarrow> ('f, 'w) outcome) \<Rightarrow> ('f, 'w) outcome" where
  "in_world r s k = (let s' = s\<lparr>rs_world := snd r\<rparr> in trying (map_err from_host (fst r)) s' (\<lambda>x. k x s'))"

definition put_value :: "string \<Rightarrow> 'f rt_value \<Rightarrow> ('f, 'w) rt_state \<Rightarrow> ('f, 'w) rt_state" where
  "put_value x v s = s\<lparr>rs_values := AList.update x v (rs_values s)\<rparr>"

definition drop_value :: "string \<Rightarrow> ('f, 'w) rt_state \<Rightarrow> ('f, 'w) rt_state" where
  "drop_value x s = s\<lparr>rs_values := AList.delete x (rs_values s)\<rparr>"

definition value_at :: "('f, 'w) rt_state \<Rightarrow> string \<Rightarrow> 'f rt_value" where
  "value_at s x = input_value (rs_values s) x"

definition put_outputs :: "(string \<times> string) list \<Rightarrow> 'f rt_value \<Rightarrow> ('f, 'w) rt_state \<Rightarrow> ('f, 'w) rt_state" where
  "put_outputs outs v s = fold (\<lambda>(_, ref). put_value ref v) outs s"

definition set_runtime_value :: "string \<Rightarrow> 'f rt_value \<Rightarrow> ('f, 'w) rt_state \<Rightarrow> ('f, 'w) rt_state" where
  "set_runtime_value ref v s = put_value ref v
     (s\<lparr>rs_heap := close_replaced (map_of (rs_values s) ref) v (rs_heap s)\<rparr>)"

definition store_reference :: "string \<Rightarrow> 'f rt_value \<Rightarrow> ('f, 'w) rt_state \<Rightarrow> ('f, 'w) outcome" where
  "store_reference ref v s = (case rs_slots s of
     None \<Rightarrow> Err (StoreRequired, s)
   | Some slots \<Rightarrow> trying (set_reference ref v (slots, rs_heap s)) s
       (\<lambda>(slots, h). Ok (s\<lparr>rs_slots := Some slots, rs_heap := h\<rparr>)))"

definition resolve_value :: "string \<Rightarrow> ('f, 'w) rt_state \<Rightarrow> (rt_error, 'f rt_value) res" where
  "resolve_value ref s = (case rs_slots s of
     Some slots \<Rightarrow> if is_state_ref ref then resolve_reference ref slots
       else (case map_of (rs_values s) ref of None \<Rightarrow> Err (ValueNotFound ref) | Some v \<Rightarrow> Ok v)
   | None \<Rightarrow> (case map_of (rs_values s) ref of None \<Rightarrow> Err (ValueNotFound ref) | Some v \<Rightarrow> Ok v))"

definition config_string :: "(string \<Rightarrow> 'f attr option) \<Rightarrow> string \<Rightarrow> string" where
  "config_string c key = (case c key of Some (AString s) \<Rightarrow> s | _ \<Rightarrow> [])"

definition config_bool :: "(string \<Rightarrow> 'f attr option) \<Rightarrow> string \<Rightarrow> bool" where
  "config_bool c key = (case c key of Some (ABool b) \<Rightarrow> b | _ \<Rightarrow> False)"

definition int_from_config :: "'f float_prims \<Rightarrow> (string \<Rightarrow> 'f attr option) \<Rightarrow> string \<Rightarrow> int \<Rightarrow> int" where
  "int_from_config P c key fallback = int_from_map P c key fallback"

definition int_slice_from_config :: "'f float_prims \<Rightarrow> (string \<Rightarrow> 'f attr option) \<Rightarrow> string \<Rightarrow> int list" where
  "int_slice_from_config P c key = (case c key of
     Some (AInts xs) \<Rightarrow> xs | Some (AList vs) \<Rightarrow> map (\<lambda>v. int64_from_any P v 0) vs | _ \<Rightarrow> [])"

definition token_id_from_value :: "'f float_prims \<Rightarrow> 'f rt_value \<Rightarrow> (rt_error, int) res" where
  "token_id_from_value P v = (case v of
     VInt i \<Rightarrow> Ok i | VInt64 i \<Rightarrow> Ok i | VFloat64 x \<Rightarrow> Ok (fp_to_int P x) | _ \<Rightarrow> Err UnsupportedTokens)"

definition int_vector_from_value :: "'f rt_heap \<Rightarrow> 'f rt_value \<Rightarrow> int list option" where
  "int_vector_from_value h v = (case v of
     VInts s \<Rightarrow> Some (read_ints h s) | VInt32s xs \<Rightarrow> Some xs
   | VInt i \<Rightarrow> Some [i] | VInt32 i \<Rightarrow> Some [i] | VInt64 i \<Rightarrow> Some [i] | _ \<Rightarrow> None)"

end
