(* ===== verification/Executor_Math.thy ===== *)
theory Executor_Math
  imports Executor_Base
begin

text \<open>
  The numeric steps of a program: \<open>runtime/executor_math.go\<close>, \<open>runtime/executor_schedule.go\<close>, \<open>runtime/axpy.go\<close> and the sampling
  of a token in \<open>runtime/executor.go\<close>. Their float arithmetic is a parameter; what they check, the vectors they build, where
  they write them and what they update in place is the model.
\<close>

section \<open>Reading numbers\<close>

definition float32_from_any :: "'f float_prims \<Rightarrow> 'f rt_value \<Rightarrow> 'f \<Rightarrow> 'f" where
  "float32_from_any P v fallback = (case v of
     VFloat32 x \<Rightarrow> x | VFloat64 x \<Rightarrow> fp_round P x | VInt i \<Rightarrow> fp_of_int P i | VInt64 i \<Rightarrow> fp_of_int P i | _ \<Rightarrow> fallback)"

definition float32_from_config :: "'f float_prims \<Rightarrow> (string \<Rightarrow> 'f attr option) \<Rightarrow> string \<Rightarrow> 'f \<Rightarrow> 'f" where
  "float32_from_config P c key fallback = (case c key of
     Some (AFloat64 x) \<Rightarrow> fp_round P x | Some (AFloat32 x) \<Rightarrow> x | Some (AInt i) \<Rightarrow> fp_of_int P i | _ \<Rightarrow> fallback)"

definition required_float32_from_config ::
  "'f float_prims \<Rightarrow> (string \<Rightarrow> 'f attr option) \<Rightarrow> string \<Rightarrow> (rt_error, 'f) res" where
  "required_float32_from_config P c key = (case c key of
     None \<Rightarrow> Err (InputRequired key)
   | Some (AFloat32 x) \<Rightarrow> Ok x
   | Some (AFloat64 x) \<Rightarrow> Ok (fp_round P x)
   | Some (AInt i) \<Rightarrow> Ok (fp_of_int P i)
   | Some (AInt64 i) \<Rightarrow> Ok (fp_of_int P i)
   | Some (AString t) \<Rightarrow> (case fp_parse P t of None \<Rightarrow> Err (WrongValueType key) | Some x \<Rightarrow> Ok x)
   | Some _ \<Rightarrow> Err (WrongValueType key))"

definition required_int_from_any :: "'f float_prims \<Rightarrow> 'f attr \<Rightarrow> (rt_error, int) res" where
  "required_int_from_any P v = (case v of
     AInt i \<Rightarrow> Ok i | AInt64 i \<Rightarrow> Ok i | AFloat64 x \<Rightarrow> Ok (fp_to_int P x)
   | AString t \<Rightarrow> (case parse_int64 t of None \<Rightarrow> Err (OpFailed t) | Some i \<Rightarrow> Ok i)
   | _ \<Rightarrow> Err (OpFailed ''expected integer''))"

definition required_int_from_config ::
  "'f float_prims \<Rightarrow> (string \<Rightarrow> 'f attr option) \<Rightarrow> string \<Rightarrow> (rt_error, int) res" where
  "required_int_from_config P c key = (case c key of
     None \<Rightarrow> Err (InputRequired key) | Some v \<Rightarrow> required_int_from_any P v)"

definition required_int64_from_config ::
  "'f float_prims \<Rightarrow> (string \<Rightarrow> 'f attr option) \<Rightarrow> string \<Rightarrow> (rt_error, int) res" where
  "required_int64_from_config P c key = (case c key of
     None \<Rightarrow> Err (InputRequired key)
   | Some (AInt i) \<Rightarrow> Ok i
   | Some (AInt64 i) \<Rightarrow> Ok i
   | Some (AFloat64 x) \<Rightarrow> Ok (fp_to_int P x)
   | Some (AString t) \<Rightarrow> (case parse_int64 t of None \<Rightarrow> Err (WrongValueType key) | Some i \<Rightarrow> Ok i)
   | Some _ \<Rightarrow> Err (WrongValueType key))"

definition dimensions_from_any :: "'f float_prims \<Rightarrow> 'f attr \<Rightarrow> (rt_error, int list) res" where
  "dimensions_from_any P v = (case v of
     AInts xs \<Rightarrow> Ok xs | AList vs \<Rightarrow> traverse (required_int_from_any P) vs | _ \<Rightarrow> Err (OpFailed ''expected []int or []any''))"

definition checked_shape :: "int list \<Rightarrow> (rt_error, tensor_shape) res" where
  "checked_shape dims = map_err (\<lambda>_. OpFailed ''invalid shape'') (new_shape dims)"

definition required_shape_from_config ::
  "'f float_prims \<Rightarrow> (string \<Rightarrow> 'f attr option) \<Rightarrow> string \<Rightarrow> (rt_error, tensor_shape) res" where
  "required_shape_from_config P c key = (case c key of
     None \<Rightarrow> Err (InputRequired key)
   | Some v \<Rightarrow> rbind (dimensions_from_any P v) checked_shape)"

definition float_dtype_from_config :: "(string \<Rightarrow> 'f attr option) \<Rightarrow> dtype \<Rightarrow> (rt_error, dtype) res" where
  "float_dtype_from_config c fallback = (case c ''dtype'' of
     None \<Rightarrow> Ok fallback
   | Some (AString t) \<Rightarrow> rbind (map_err (\<lambda>_. OpFailed t) (parse_dtype t)) (\<lambda>d.
       if is_float d then Ok d else Err (OpFailed ''dtype is not floating point''))
   | Some _ \<Rightarrow> Err (OpFailed ''dtype must be a string''))"

definition default_float_dtype :: "('f, 'v, 'w) exec_env \<Rightarrow> dtype" where
  "default_float_dtype E = (if is_float (ex_dtype E) then ex_dtype E else Float32)"

definition source_float_dtype :: "'f rt_heap \<Rightarrow> 'f rt_value \<Rightarrow> dtype" where
  "source_float_dtype h v = (case v of
     VTensor a \<Rightarrow> if is_float (te_dtype (hp_tensors h ! a)) then te_dtype (hp_tensors h ! a) else Float32
   | _ \<Rightarrow> Float32)"

definition shape_from_runtime_value :: "'f rt_heap \<Rightarrow> 'f rt_value \<Rightarrow> nat \<Rightarrow> (rt_error, int list) res" where
  "shape_from_runtime_value h v n = (case v of
     VTensor a \<Rightarrow> Ok (te_dims (hp_tensors h ! a))
   | _ \<Rightarrow> rbind (checked_shape [int n]) (\<lambda>shape. Ok (ts_dims shape)))"

section \<open>Vectors\<close>

definition decode_floats :: "'f float_prims \<Rightarrow> dtype \<Rightarrow> 8 word list \<Rightarrow> (rt_error, 'f list) res" where
  "decode_floats P d bytes = rbind (map_err (\<lambda>_. WrongDType) (bytes_to_f32 (fp_hw P) d bytes)) (\<lambda>ws. Ok (map (fp_of_bits P) ws))"

definition float32_vector_from_raw_tensor :: "'f float_prims \<Rightarrow> rt_tensor \<Rightarrow> (rt_error, 'f list) res" where
  "float32_vector_from_raw_tensor P t =
     (if \<not> te_open t then Err TensorClosed else decode_floats P (te_dtype t) (te_bytes t))"

definition float32_vector :: "'f float_prims \<Rightarrow> 'f rt_heap \<Rightarrow> 'f rt_value \<Rightarrow> (rt_error, 'f list) res" where
  "float32_vector P h v = (case v of
     VFloat32s a \<Rightarrow> Ok (read_floats h a)
   | VFloat64s xs \<Rightarrow> Ok (map (fp_round P) xs)
   | VTensor a \<Rightarrow> (let t = hp_tensors h ! a in
       if \<not> is_float (te_dtype t) then Err WrongDType
       else if \<not> te_open t then Err TensorClosed
       else if te_host t \<and> te_dtype t = Float32 then Ok (map (fp_of_bits P) (words32 (te_bytes t)))
       else float32_vector_from_raw_tensor P t)
   | _ \<Rightarrow> Err UnsupportedFloats)"

definition runtime_scalar_float32 :: "'f float_prims \<Rightarrow> 'f rt_heap \<Rightarrow> 'f rt_value \<Rightarrow> (rt_error, 'f) res" where
  "runtime_scalar_float32 P h v = rbind (float32_vector_value P h v) only"

definition float32_as_dtype_bytes :: "'f float_prims \<Rightarrow> 'f list \<Rightarrow> dtype \<Rightarrow> 8 word list" where
  "float32_as_dtype_bytes P xs d = (case d of
     BFloat16 \<Rightarrow> bf16_to_bytes (map (\<lambda>x. f32_to_bf16 (fp_bits P x)) xs)
   | Float16 \<Rightarrow> f16_to_bytes (map (\<lambda>x. f32_to_f16 (fp_bits P x)) xs)
   | _ \<Rightarrow> f32_to_bytes (map (fp_bits P) xs))"

definition float32_vector_bytes :: "'f float_prims \<Rightarrow> dtype \<Rightarrow> 'f list \<Rightarrow> 8 word list" where
  "float32_vector_bytes P d xs = (case d of
     Float32 \<Rightarrow> f32_to_bytes (map (fp_bits P) xs)
   | Float16 \<Rightarrow> f16_to_bytes (map (\<lambda>x. f32_to_f16 (fp_bits P x)) xs)
   | BFloat16 \<Rightarrow> bf16_to_bytes (map (\<lambda>x. f32_to_bf16 (fp_bits P x)) xs)
   | _ \<Rightarrow> f32_to_bytes (map (fp_bits P) xs))"

section \<open>Writing vectors\<close>

record 'f vector_output =
  vo_dims :: "int list"
  vo_values :: "'f list"
  vo_format :: dtype

definition close_runtime_value :: "'f rt_value \<Rightarrow> ('f, 'w) rt_state \<Rightarrow> ('f, 'w) rt_state" where
  "close_runtime_value v s = (case v of VTensor a \<Rightarrow> s\<lparr>rs_heap := close_tensor_at a (rs_heap s)\<rparr> | _ \<Rightarrow> s)"

definition store_or_close :: "string \<Rightarrow> 'f rt_value \<Rightarrow> ('f, 'w) rt_state \<Rightarrow> ('f, 'w) outcome" where
  "store_or_close ref v s = (case store_reference ref v s of
     Inl (e, s) \<Rightarrow> Err (e, close_runtime_value v s) | Inr s \<Rightarrow> Ok s)"

definition write_float32_vector_output ::
  "('f, 'v, 'w) exec_env \<Rightarrow> 'f vector_output \<Rightarrow> string \<times> string \<Rightarrow> ('f, 'w) rt_state \<Rightarrow> ('f, 'w) outcome" where
  "write_float32_vector_output E payload out s =
     (let ref = snd out; (copied, h) = new_floats (vo_values payload) (rs_heap s); s' = s\<lparr>rs_heap := h\<rparr> in
      if \<not> is_state_ref ref then Ok (set_runtime_value ref copied s')
      else if rs_slots s = None then Err (StoreRequired, s)
      else case ex_memory E of
          None \<Rightarrow> store_or_close ref copied s'
        | Some B \<Rightarrow> trying (backend_upload B (vo_dims payload) (vo_format payload)
              (float32_as_dtype_bytes (ex_prims E) (vo_values payload) (vo_format payload)) h) s
            (\<lambda>(v, h). store_or_close ref v (s\<lparr>rs_heap := h\<rparr>)))"

definition write_float32_vector_outputs ::
  "('f, 'v, 'w) exec_env \<Rightarrow> 'f vector_output \<Rightarrow> (string \<times> string) list \<Rightarrow> ('f, 'w) rt_state \<Rightarrow> ('f, 'w) outcome" where
  "write_float32_vector_outputs E payload outs s =
     (if outs = [] then Err (OpFailed ''runtime vector output requires at least one target'', s)
      else fold_res (write_float32_vector_output E payload) outs s)"

definition set_values :: "(string \<times> string) list \<Rightarrow> 'f rt_value \<Rightarrow> ('f, 'w) rt_state \<Rightarrow> ('f, 'w) rt_state" where
  "set_values outs v s = fold (\<lambda>(_, ref). set_runtime_value ref v) outs s"

text \<open>An input that the step requires by name.\<close>

definition required_input ::
  "'f prog_step \<Rightarrow> string \<Rightarrow> ('f, 'w) rt_state \<Rightarrow> (string \<Rightarrow> ('f, 'w) outcome) \<Rightarrow> ('f, 'w) outcome" where
  "required_input step name s k = (case map_of (ps_in step) name of None \<Rightarrow> Err (InputRequired name, s) | Some ref \<Rightarrow> k ref)"

section \<open>Steps that build a vector\<close>

definition run_random_normal :: "('f, 'v, 'w) exec_env \<Rightarrow> 'f prog_step \<Rightarrow> ('f, 'w) rt_state \<Rightarrow> ('f, 'w) outcome" where
  "run_random_normal E step s = (let c = ps_config step; P = ex_prims E in
     trying (required_shape_from_config P c ''shape'') s (\<lambda>shape.
     trying (required_int64_from_config P c ''seed'') s (\<lambda>seed.
     trying (float_dtype_from_config c (default_float_dtype E)) s (\<lambda>format.
     write_float32_vector_outputs E \<lparr>vo_dims = ts_dims shape,
       vo_values = fp_gaussian P seed (nat (ts_elements shape)), vo_format = format\<rparr> (ps_out step) s))))"

definition linspace_values :: "'f float_prims \<Rightarrow> 'f \<Rightarrow> 'f \<Rightarrow> nat \<Rightarrow> bool \<Rightarrow> 'f list" where
  "linspace_values P start stop count endpoint =
     (if count = 1 then [start]
      else let intervals = (if endpoint then count - 1 else count);
               step = fp_div P (fp_sub P stop start) (fp_of_int P (int intervals));
               xs = map (\<lambda>i. fp_muladd P (fp_of_int P (int i)) step start) [0..<count]
           in if intervals = count - 1 then xs[0 := start, count - 1 := stop] else xs)"

definition write_linspace_output ::
  "('f, 'v, 'w) exec_env \<Rightarrow> 'f prog_step \<Rightarrow> 'f list \<Rightarrow> ('f, 'w) rt_state \<Rightarrow> ('f, 'w) outcome" where
  "write_linspace_output E step xs s =
     trying (checked_shape [int (length xs)]) s (\<lambda>shape.
     trying (float_dtype_from_config (ps_config step) Float32) s (\<lambda>format.
     write_float32_vector_outputs E \<lparr>vo_dims = ts_dims shape, vo_values = xs, vo_format = format\<rparr> (ps_out step) s))"

definition run_linspace :: "('f, 'v, 'w) exec_env \<Rightarrow> 'f prog_step \<Rightarrow> ('f, 'w) rt_state \<Rightarrow> ('f, 'w) outcome" where
  "run_linspace E step s = (let c = ps_config step; P = ex_prims E in
     trying (required_float32_from_config P c ''start'') s (\<lambda>start.
     trying (required_float32_from_config P c ''stop'') s (\<lambda>stop.
     trying (required_int_from_config P c ''count'') s (\<lambda>count.
     if count \<le> 0 then Err (OpFailed ''count must be positive'', s)
     else write_linspace_output E step
       (linspace_values P start stop (nat count) (c ''endpoint'' \<noteq> Some (ABool False))) s))))"

definition apply_scalar_broadcast :: "'f float_prims \<Rightarrow> 'f list \<Rightarrow> 'f \<Rightarrow> string \<Rightarrow> (rt_error, 'f list) res" where
  "apply_scalar_broadcast P xs scalar operation =
     (if operation = ''add'' then Ok (map (\<lambda>x. fp_add P x scalar) xs)
      else if operation = ''sub'' then Ok (map (\<lambda>x. fp_sub P x scalar) xs)
      else if operation = ''mul'' then Ok (map (\<lambda>x. fp_mul P x scalar) xs)
      else if operation = ''div'' then
        (if fp_eq P scalar (fp_zero P) then Err (OpFailed ''scalar divisor must be nonzero'')
         else Ok (map (\<lambda>x. fp_div P x scalar) xs))
      else Err (UnsupportedOp operation))"

definition run_scalar_broadcast :: "('f, 'v, 'w) exec_env \<Rightarrow> 'f prog_step \<Rightarrow> ('f, 'w) rt_state \<Rightarrow> ('f, 'w) outcome" where
  "run_scalar_broadcast E step s = (let c = ps_config step; P = ex_prims E in
     required_input step ''x'' s (\<lambda>ref.
     trying (resolve_value ref s) s (\<lambda>source.
     trying (float32_vector P (rs_heap s) source) s (\<lambda>xs.
     trying (required_float32_from_config P c ''scalar'') s (\<lambda>scalar.
     if config_string c ''op'' = [] then Err (InputRequired ''op'', s)
     else trying (apply_scalar_broadcast P xs scalar (config_string c ''op'')) s (\<lambda>ys.
     trying (shape_from_runtime_value (rs_heap s) source (length xs)) s (\<lambda>dims.
     trying (float_dtype_from_config c (source_float_dtype (rs_heap s) source)) s (\<lambda>format.
     write_float32_vector_outputs E \<lparr>vo_dims = dims, vo_values = ys, vo_format = format\<rparr> (ps_out step) s))))))))"

section \<open>Schedules\<close>

record 'f empirical_mu_config =
  mu_low_step :: 'f
  mu_high_step :: 'f
  mu_threshold :: 'f
  mu_low_slope :: 'f
  mu_low_intercept :: 'f
  mu_high_slope :: 'f
  mu_high_intercept :: 'f

definition empirical_mu :: "'f float_prims \<Rightarrow> 'f \<Rightarrow> 'f \<Rightarrow> 'f empirical_mu_config \<Rightarrow> (rt_error, 'f) res" where
  "empirical_mu P len steps c =
     (if fp_eq P (mu_high_step c) (mu_low_step c) then Err (OpFailed ''high_step and low_step must differ'')
      else let high = fp_muladd P (mu_high_slope c) len (mu_high_intercept c) in
        if fp_less P (mu_threshold c) len then Ok high
        else let low = fp_muladd P (mu_low_slope c) len (mu_low_intercept c);
                 slope = fp_div P (fp_sub P high low) (fp_sub P (mu_high_step c) (mu_low_step c));
                 intercept = fp_mulsub P (mu_high_step c) slope high
             in Ok (fp_muladd P slope steps intercept))"

definition run_empirical_mu :: "('f, 'v, 'w) exec_env \<Rightarrow> 'f prog_step \<Rightarrow> ('f, 'w) rt_state \<Rightarrow> ('f, 'w) outcome" where
  "run_empirical_mu E step s =
     (let P = ex_prims E; c = ps_config step; get = (\<lambda>key text. float32_from_config P c key (fp_literal P text)) in
     trying (required_float32_from_config P c ''image_seq_len'') s (\<lambda>len.
     trying (required_float32_from_config P c ''num_steps'') s (\<lambda>steps.
     trying (empirical_mu P len steps \<lparr>mu_low_step = get ''low_step'' ''10'', mu_high_step = get ''high_step'' ''200'',
         mu_threshold = get ''threshold'' ''4300'', mu_low_slope = get ''low_slope'' ''8.73809524e-05'',
         mu_low_intercept = get ''low_intercept'' ''1.89833333'', mu_high_slope = get ''high_slope'' ''0.00016927'',
         mu_high_intercept = get ''high_intercept'' ''0.45666666''\<rparr>) s (\<lambda>mu.
     Ok (set_values (ps_out step) (VFloat32 mu) s)))))"

definition time_shift_value :: "'f float_prims \<Rightarrow> 'f \<Rightarrow> 'f \<Rightarrow> string \<Rightarrow> 'f \<Rightarrow> (rt_error, 'f) res" where
  "time_shift_value P mu sigma mode x =
     (let one = fp_literal P ''1'';
          powered = fp_round P (fp_pow P (fp_sub P (fp_div P one x) one) sigma) in
      if fp_less P x (fp_zero P) \<or> fp_less P one x then Err (OpFailed ''value outside [0,1]'')
      else if fp_eq P x (fp_zero P) then Ok (fp_zero P)
      else if mode = [] \<or> mode = ''exponential'' then
        (let e = fp_round P (fp_exp P mu) in Ok (fp_div P e (fp_add P e powered)))
      else if mode = ''linear'' then Ok (fp_div P mu (fp_add P mu powered))
      else Err (UnsupportedOp mode))"

definition time_shift_values :: "'f float_prims \<Rightarrow> 'f list \<Rightarrow> 'f \<Rightarrow> 'f \<Rightarrow> string \<Rightarrow> (rt_error, 'f list) res" where
  "time_shift_values P xs mu sigma mode = traverse (time_shift_value P mu sigma mode) xs"

definition run_time_shift :: "('f, 'v, 'w) exec_env \<Rightarrow> 'f prog_step \<Rightarrow> ('f, 'w) rt_state \<Rightarrow> ('f, 'w) outcome" where
  "run_time_shift E step s = (let c = ps_config step; P = ex_prims E in
     required_input step ''x'' s (\<lambda>xref.
     required_input step ''mu'' s (\<lambda>mref.
     trying (resolve_value xref s) s (\<lambda>source.
     trying (float32_vector P (rs_heap s) source) s (\<lambda>xs.
     trying (resolve_value mref s) s (\<lambda>mv.
     trying (runtime_scalar_float32 P (rs_heap s) mv) s (\<lambda>mu.
     trying (time_shift_values P xs mu (float32_from_config P c ''sigma'' (fp_literal P ''1'')) (config_string c ''mode'')) s (\<lambda>ys.
     trying (shape_from_runtime_value (rs_heap s) source (length xs)) s (\<lambda>dims.
     write_float32_vector_outputs E \<lparr>vo_dims = dims, vo_values = ys,
       vo_format = source_float_dtype (rs_heap s) source\<rparr> (ps_out step) s)))))))))"

definition scheduler_delta :: "'f float_prims \<Rightarrow> 'f list \<Rightarrow> int \<Rightarrow> 'f \<Rightarrow> (rt_error, 'f) res" where
  "scheduler_delta P schedule i terminal =
     (if schedule = [] then Err (OpFailed ''schedule is empty'')
      else if i < 0 \<or> i \<ge> int (length schedule) then Err (OpFailed ''step index outside schedule'')
      else let next_value = (if i + 1 < int (length schedule) then schedule ! nat (i + 1) else terminal)
           in Ok (fp_sub P next_value (schedule ! nat i)))"

definition int_from_runtime_scalar :: "'f float_prims \<Rightarrow> 'f rt_value \<Rightarrow> (rt_error, int) res" where
  "int_from_runtime_scalar P v = (case v of
     VInt i \<Rightarrow> Ok i | VInt64 i \<Rightarrow> Ok i
   | VFloat32 x \<Rightarrow> (let i = fp_to_int P x in
       if fp_eq P (fp_of_int P i) x then Ok i else Err (OpFailed ''non-integral scalar''))
   | VFloat64 x \<Rightarrow> (let i = fp_to_int P x in
       if fp_eq P (fp_of_int64 P i) x then Ok i else Err (OpFailed ''non-integral scalar''))
   | _ \<Rightarrow> Err UnsupportedScalar)"

definition run_scheduler_delta :: "('f, 'v, 'w) exec_env \<Rightarrow> 'f prog_step \<Rightarrow> ('f, 'w) rt_state \<Rightarrow> ('f, 'w) outcome" where
  "run_scheduler_delta E step s = (let c = ps_config step; P = ex_prims E in
     required_input step ''schedule'' s (\<lambda>sref.
     required_input step ''step_index'' s (\<lambda>iref.
     trying (resolve_value sref s) s (\<lambda>sv.
     trying (float32_vector P (rs_heap s) sv) s (\<lambda>schedule.
     trying (resolve_value iref s) s (\<lambda>iv.
     trying (int_from_runtime_scalar P iv) s (\<lambda>i.
     trying (scheduler_delta P schedule i (float32_from_config P c ''terminal'' (fp_literal P ''0''))) s (\<lambda>d.
     Ok (set_values (ps_out step) (VFloat32 d) s)))))))))"

section \<open>The in-place update\<close>

definition tensor_length :: "rt_tensor \<Rightarrow> int" where
  "tensor_length t = prod_list (te_dims t)"

text \<open>\<open>None\<close> says that the backend has no operation of its own for these values.\<close>

definition axpy_onto_resident ::
  "('f, 'v, 'w) exec_env \<Rightarrow> 'f rt_value \<Rightarrow> 'f rt_value \<Rightarrow> 'f \<Rightarrow> 'f rt_heap \<Rightarrow> (rt_error, 'f rt_value \<times> 'f rt_heap) res option" where
  "axpy_onto_resident E y x alpha h = (case (ex_memory E, ex_axpy E, y, x) of
     (Some B, Some f, VTensor a, VTensor b) \<Rightarrow>
       (let t = hp_tensors h ! a; u = hp_tensors h ! b in
        Some (if te_host t \<noteq> ub_host B \<or> te_host u \<noteq> ub_host B then Err (OpFailed ''tensor location does not match backend'')
          else if te_dtype t \<noteq> te_dtype u then Err WrongDType
          else if tensor_length t \<noteq> tensor_length u then Err (OpFailed ''lengths do not match'')
          else Ok (VTensor a, h\<lparr>hp_tensors := (hp_tensors h)[a := t\<lparr>te_bytes := f t u alpha\<rparr>]\<rparr>)))
   | _ \<Rightarrow> None)"

definition axpy_values :: "'f float_prims \<Rightarrow> 'f \<Rightarrow> 'f list \<Rightarrow> 'f list \<Rightarrow> 'f list" where
  "axpy_values P alpha ys xs = map2 (\<lambda>y x. fp_muladd P alpha x y) ys xs"

definition axpy_onto_host ::
  "('f, 'v, 'w) exec_env \<Rightarrow> 'f rt_value \<Rightarrow> 'f list \<Rightarrow> 'f \<Rightarrow> 'f rt_heap \<Rightarrow> (rt_error, 'f rt_value \<times> 'f rt_heap) res" where
  "axpy_onto_host E y xs alpha h =
     (if xs = [] then Err (OpFailed ''addend vector is empty'')
      else case y of
          VFloat32s a \<Rightarrow>
            if length (read_floats h a) \<noteq> length xs then Err (OpFailed ''lengths do not match'')
            else Ok (VFloat32s a, h\<lparr>hp_floats := (hp_floats h)[a := axpy_values (ex_prims E) alpha (read_floats h a) xs]\<rparr>)
        | VTensor a \<Rightarrow> (let t = hp_tensors h ! a in case ex_memory E of
            None \<Rightarrow> Err BackendRequired
          | Some B \<Rightarrow>
              if \<not> te_open t then Err TensorClosed
              else if \<not> ub_readable B t then Err (OpFailed ''download'')
              else rbind (decode_floats (ex_prims E) (te_dtype t) (te_bytes t)) (\<lambda>ys.
                if length ys \<noteq> length xs then Err (OpFailed ''lengths do not match'')
                else rbind (backend_upload B (te_dims t) (te_dtype t)
                    (float32_vector_bytes (ex_prims E) (te_dtype t) (axpy_values (ex_prims E) alpha ys xs)) h)
                  (\<lambda>(v, h). Ok (v, close_tensor_at a h))))
        | _ \<Rightarrow> Err UnsupportedFloats)"

definition axpy_onto ::
  "('f, 'v, 'w) exec_env \<Rightarrow> 'f rt_value \<Rightarrow> 'f rt_value \<Rightarrow> 'f \<Rightarrow> 'f rt_heap \<Rightarrow> (rt_error, 'f rt_value \<times> 'f rt_heap) res" where
  "axpy_onto E y x alpha h = (case axpy_onto_resident E y x alpha h of
     Some r \<Rightarrow> r
   | None \<Rightarrow> rbind (float32_vector (ex_prims E) h x) (\<lambda>xs. axpy_onto_host E y xs alpha h))"

definition axpy_output :: "'f rt_value \<Rightarrow> string \<times> string \<Rightarrow> ('f, 'w) rt_state \<Rightarrow> ('f, 'w) outcome" where
  "axpy_output v out s = (let ref = snd out in
     if is_state_ref ref \<and> rs_slots s \<noteq> None then store_reference ref v s else Ok (set_runtime_value ref v s))"

definition run_axpy :: "('f, 'v, 'w) exec_env \<Rightarrow> 'f prog_step \<Rightarrow> ('f, 'w) rt_state \<Rightarrow> ('f, 'w) outcome" where
  "run_axpy E step s =
     required_input step ''y'' s (\<lambda>yref.
     required_input step ''x'' s (\<lambda>xref.
     required_input step ''alpha'' s (\<lambda>aref.
     trying (resolve_value yref s) s (\<lambda>y.
     trying (resolve_value xref s) s (\<lambda>x.
     trying (resolve_value aref s) s (\<lambda>av.
     trying (axpy_onto E y x (float32_from_any (ex_prims E) av (fp_zero (ex_prims E))) (rs_heap s)) s (\<lambda>(v, h).
     fold_res (axpy_output v) (ps_out step) (s\<lparr>rs_heap := h\<rparr>))))))))"

section \<open>Sampling\<close>

definition top_k_weights :: "'f float_prims \<Rightarrow> (int \<times> 'f) list \<Rightarrow> 'f \<Rightarrow> 'f list \<times> 'f" where
  "top_k_weights P candidates temperature =
     (let weights = map (\<lambda>(_, v). fp_exp P (fp_div P (fp_sub P v (snd (hd candidates))) temperature)) candidates
      in (weights, foldl (fp_add64 P) (fp_zero P) weights))"

fun pick_candidate :: "'f float_prims \<Rightarrow> 'f \<Rightarrow> 'f \<Rightarrow> (int \<times> 'f) list \<Rightarrow> 'f list \<Rightarrow> int option" where
  "pick_candidate P threshold acc (c # cs) (w # ws) =
     (let acc = fp_add64 P acc w in
      if fp_less P threshold acc \<or> fp_eq P acc threshold then Some (fst c) else pick_candidate P threshold acc cs ws)"
| "pick_candidate P threshold acc _ _ = None"

definition sample_top_k :: "('f, 'v, 'w) exec_env \<Rightarrow> 'f list \<Rightarrow> 'f \<Rightarrow> int \<Rightarrow> 'w \<Rightarrow> (host_error, int) res \<times> 'w" where
  "sample_top_k E logits temperature k w = (let P = ex_prims E in
     if logits = [] then (Err (HostFailure ''logits are empty''), w)
     else if \<not> fp_less P (fp_zero P) temperature then (Err (HostFailure ''temperature must be positive''), w)
     else let k = (if k \<le> 0 \<or> k > int (length logits) then length logits else nat k);
              candidates = take k (ex_sort E (zip (map int [0..<length logits]) logits));
              (weights, total) = top_k_weights P candidates temperature;
              (r, w) = ex_random E w
          in (Ok (case pick_candidate P (fp_mul64 P r total) (fp_zero P) candidates weights of
                Some token \<Rightarrow> token | None \<Rightarrow> fst (last candidates)), w))"

definition run_topk_sample :: "('f, 'v, 'w) exec_env \<Rightarrow> 'f prog_step \<Rightarrow> ('f, 'w) rt_state \<Rightarrow> ('f, 'w) outcome" where
  "run_topk_sample E step s =
     (let P = ex_prims E; c = ps_config step;
          ref = (case map_of (ps_in step) ''value'' of Some r \<Rightarrow> r
                 | None \<Rightarrow> (case ps_in step of [] \<Rightarrow> [] | (_, r) # _ \<Rightarrow> r)) in
      case map_of (rs_values s) ref of
        None \<Rightarrow> Err (ValueNotFound ref, s)
      | Some lv \<Rightarrow> trying (float32_vector P (rs_heap s) lv) s (\<lambda>logits.
          let vocab = int_from_config P c ''vocab_size'' 0;
              logits = (if vocab > 0 \<and> int (length logits) > vocab then drop (length logits - nat vocab) logits else logits)
          in in_world (sample_top_k E logits (float32_from_config P c ''temperature'' (fp_literal P ''1.0''))
                 (int_from_config P c ''top_k'' 50) (rs_world s)) s (\<lambda>token s.
               let s' = (if token \<in> set (int_slice_from_config P c ''stop_token_ids'')
                         then put_value ''__loop_break__'' (VBool True) s else s)
               in Ok (put_outputs (ps_out step) (VInt token) s'))))"

end
