(* ===== verification/Executor.thy ===== *)
theory Executor
  imports Executor_Math
begin

text \<open>
  The program executor of \<open>runtime/executor.go\<close> and \<open>runtime/paged_executor.go\<close>: an interpreter of manifest steps
  over a map of values, a state store and a heap. Only the loop until end of file can fail to end; \<open>fuel\<close> bounds
  its rounds and \<open>OutOfFuel\<close> reports that they were used up.
\<close>

section \<open>Host operations\<close>

definition run_read_line :: "('f, 'v, 'w) exec_env \<Rightarrow> 'f prog_step \<Rightarrow> ('f, 'w) rt_state \<Rightarrow> ('f, 'w) outcome" where
  "run_read_line E step s = (case ex_host E of
     Some host \<Rightarrow> in_world (ho_read_line host (rs_world s)) s (\<lambda>text s.
       Ok (put_outputs (ps_out step) (VString text) s))
   | None \<Rightarrow> (case ex_stdin E of
       Some stdin \<Rightarrow> in_world (apfst (map_err HostFailure) (stdin (rs_world s))) s (\<lambda>text s.
         Ok (put_outputs (ps_out step) (VString (trim_space text)) s))
     | None \<Rightarrow> Err (HostRequired, s)))"

definition existing_ints :: "('f, 'w) rt_state \<Rightarrow> string \<Rightarrow> int list option" where
  "existing_ints s ref = (case value_at s ref of VInts sl \<Rightarrow> Some (read_ints (rs_heap s) sl) | _ \<Rightarrow> None)"

definition run_encode :: "('f, 'v, 'w) exec_env \<Rightarrow> 'f prog_step \<Rightarrow> ('f, 'w) rt_state \<Rightarrow> ('f, 'w) outcome" where
  "run_encode E step s =
     (let c = ps_config step;
          ref = (case map_of (ps_in step) ''text'' of Some r \<Rightarrow> r
                 | None \<Rightarrow> (case map_of (ps_in step) ''value'' of Some r \<Rightarrow> r | None \<Rightarrow> []));
          append_to = config_string c ''append_to'';
          existing = (if append_to = [] then None else existing_ints s append_to)
      in case value_at s ref of
          VString text \<Rightarrow> (case ex_host E of
            None \<Rightarrow> Err (HostRequired, s)
          | Some host \<Rightarrow> in_world (ho_encode host \<lparr>er_tokenizer = config_string c ''tokenizer'',
                er_file = config_string c ''tokenizer_file'', er_text = text,
                er_chat_template = config_bool c ''apply_chat_template'',
                er_continuation = (case existing of None \<Rightarrow> False | Some xs \<Rightarrow> xs \<noteq> []),
                er_max_length = int_from_config (ex_prims E) c ''max_length'' 0,
                er_pad = int_from_config (ex_prims E) c ''pad_token_id'' 0\<rparr> (rs_world s)) s (\<lambda>tokens s.
              let all = (case existing of None \<Rightarrow> tokens | Some xs \<Rightarrow> xs @ tokens);
                  (sl, h) = new_ints (ex_grow E) all (rs_heap s)
              in Ok (put_outputs (ps_out step) (VInts sl) (s\<lparr>rs_heap := h\<rparr>))))
        | _ \<Rightarrow> Err (WrongValueType ref, s))"

definition emit_one :: "('f, 'v, 'w) exec_env \<Rightarrow> 'f prog_step \<Rightarrow> string \<times> string \<Rightarrow> ('f, 'w) rt_state \<Rightarrow> ('f, 'w) outcome" where
  "emit_one E step inp s = trying (token_id_from_value (ex_prims E) (value_at s (snd inp))) s (\<lambda>token.
     case ex_host E of
       None \<Rightarrow> Err (HostRequired, s)
     | Some host \<Rightarrow> in_world (ho_emit_token host \<lparr>em_tokenizer = config_string (ps_config step) ''tokenizer'',
           em_file = config_string (ps_config step) ''tokenizer_file'', em_token = token\<rparr> (rs_world s)) s (\<lambda>_. Ok))"

definition run_emit_token :: "('f, 'v, 'w) exec_env \<Rightarrow> 'f prog_step \<Rightarrow> ('f, 'w) rt_state \<Rightarrow> ('f, 'w) outcome" where
  "run_emit_token E step s = fold_res (emit_one E step) (ps_in step) s"

definition run_write_image :: "('f, 'v, 'w) exec_env \<Rightarrow> 'f prog_step \<Rightarrow> ('f, 'w) rt_state \<Rightarrow> ('f, 'w) outcome" where
  "run_write_image E step s = (case ex_host E of
     None \<Rightarrow> Err (HostRequired, s)
   | Some host \<Rightarrow> (case map_of (ps_in step) ''image'' of
       None \<Rightarrow> Err (InputRequired ''image'', s)
     | Some ref \<Rightarrow> (let c = ps_config step; P = ex_prims E in
         in_world (ho_write_image host \<lparr>im_path = config_string c ''path'', im_tensor = value_at s ref,
           im_width = int_from_config P c ''width'' 0, im_height = int_from_config P c ''height'' 0,
           im_channels = int_from_config P c ''channels'' 0, im_layout = config_string c ''layout'',
           im_range = config_string c ''range''\<rparr> (rs_heap s) (rs_world s)) s (\<lambda>_. Ok))))"

section \<open>Values and state\<close>

definition run_assign :: "'f prog_step \<Rightarrow> ('f, 'w) rt_state \<Rightarrow> ('f, 'w) outcome" where
  "run_assign step s = Ok (fold (\<lambda>(_, ref) s. put_outputs (ps_out step) (value_at s ref) s) (ps_in step) s)"

definition append_one ::
  "('f, 'v, 'w) exec_env \<Rightarrow> string \<times> string \<Rightarrow> 'f rt_value \<times> ('f, 'w) rt_state
     \<Rightarrow> (rt_error \<times> ('f, 'w) rt_state, 'f rt_value \<times> ('f, 'w) rt_state) res" where
  "append_one E inp = (\<lambda>(target, s). case target of
     VInts sl \<Rightarrow> (case token_id_from_value (ex_prims E) (value_at s (snd inp)) of
       Inl e \<Rightarrow> Err (e, s)
     | Inr token \<Rightarrow> let (sl', h) = append_int (ex_grow E) sl token (rs_heap s) in Ok (VInts sl', s\<lparr>rs_heap := h\<rparr>))
   | _ \<Rightarrow> Err (WrongValueType (snd inp), s))"

text \<open>An element that was appended in place stays in the backing array also when a later one fails.\<close>

definition run_append :: "('f, 'v, 'w) exec_env \<Rightarrow> 'f prog_step \<Rightarrow> ('f, 'w) rt_state \<Rightarrow> ('f, 'w) outcome" where
  "run_append E step s = (case ps_config step ''target'' of
     Some (AString target) \<Rightarrow> (case map_of (rs_values s) target of
         None \<Rightarrow> Err (ValueNotFound target, s)
       | Some v \<Rightarrow> rbind (fold_res (append_one E) (ps_in step) (v, s)) (\<lambda>(v, s).
           Ok (put_outputs (ps_out step) v (put_value target v s))))
   | _ \<Rightarrow> Err (AppendTargetRequired, s))"

definition run_state_update :: "'f prog_step \<Rightarrow> ('f, 'w) rt_state \<Rightarrow> ('f, 'w) outcome" where
  "run_state_update step s = (case rs_slots s of
     None \<Rightarrow> Err (StoreRequired, s)
   | Some slots \<Rightarrow> trying (state_update (config_string (ps_config step) ''update'') (config_string (ps_config step) ''target'') slots) s
       (\<lambda>slots. Ok (s\<lparr>rs_slots := Some slots\<rparr>)))"

definition set_paged_plan_output :: "string \<Rightarrow> 'f rt_value \<Rightarrow> ('f, 'w) rt_state \<Rightarrow> ('f, 'w) outcome" where
  "set_paged_plan_output ref v s =
     (if is_state_ref ref \<and> rs_slots s \<noteq> None then store_reference ref v s else Ok (set_runtime_value ref v s))"

text \<open>For a reference outside the state the pages are written to a map that nobody keeps.\<close>

definition set_page_table_reference :: "string \<Rightarrow> int list \<Rightarrow> ('f, 'w) rt_state \<Rightarrow> ('f, 'w) outcome" where
  "set_page_table_reference ref pages s = (case rs_slots s of
     None \<Rightarrow> Err (StoreRequired, s)
   | Some slots \<Rightarrow>
       if \<not> is_state_ref ref then Ok s
       else (case store_get slots (state_name ref) of
           None \<Rightarrow> Err (UnknownState (state_name ref), s)
         | Some (VTable a) \<Rightarrow> store_reference ref (VTable a)
             (s\<lparr>rs_heap := update_table a (\<lambda>t. t\<lparr>pg_pages := pages\<rparr>) (rs_heap s)\<rparr>)
         | Some _ \<Rightarrow> Err (WrongValueType (state_name ref), s)))"

definition plan_output ::
  "'f rt_value \<Rightarrow> 'f rt_value \<Rightarrow> int list \<Rightarrow> string \<times> string \<Rightarrow> ('f, 'w) rt_state \<Rightarrow> ('f, 'w) outcome" where
  "plan_output page_ids offsets table out s = (let ref = snd out in
     if ref = ''write_page_ids'' \<or> suffix ''.write_page_ids'' ref then set_paged_plan_output ref page_ids s
     else if ref = ''write_offsets'' \<or> suffix ''.write_offsets'' ref then set_paged_plan_output ref offsets s
     else if suffix ''key_page_table'' ref then set_page_table_reference ref table s
     else if suffix ''value_page_table'' ref then set_page_table_reference ref table s
     else set_paged_plan_output ref page_ids s)"

definition plan_token_ref :: "'f prog_step \<Rightarrow> ('f, 'w) rt_state \<Rightarrow> string" where
  "plan_token_ref step s = (case map_of (ps_in step) ''token_ids'' of
     Some ref \<Rightarrow> ref
   | None \<Rightarrow> (case find (\<lambda>(_, ref). token_sequence_length (rs_heap s) (value_at s ref) \<noteq> None) (ps_in step) of
       Some (_, ref) \<Rightarrow> ref | None \<Rightarrow> []))"

definition run_paged_plan :: "('f, 'v, 'w) exec_env \<Rightarrow> 'f prog_step \<Rightarrow> ('f, 'w) rt_state \<Rightarrow> ('f, 'w) outcome" where
  "run_paged_plan E step s =
     (let size = int_from_config (ex_prims E) (ps_config step) ''page_size'' 0; ref = plan_token_ref step s in
      if size \<le> 0 then Err (PageSizeNotPositive, s)
      else case map_of (rs_values s) ref of
          None \<Rightarrow> Err (ValueNotFound ref, s)
        | Some tv \<Rightarrow> (case int_vector_from_value (rs_heap s) tv of
            None \<Rightarrow> Err (EmptyTokenBatch, s)
          | Some tokens \<Rightarrow>
              if tokens = [] then Err (EmptyTokenBatch, s)
              else case map_of (ps_in step) ''position_offset'' of
                  None \<Rightarrow> Err (InputRequired ''position_offset'', s)
                | Some pref \<Rightarrow> trying (resolve_value pref s) s (\<lambda>pv.
                    trying (build_paged_plan (scalar_int32_value (ex_prims E) (rs_heap s) pv) (length tokens) size) s (\<lambda>plan.
                    trying (upload_int32_vector (ex_memory E) (pp_write_page_ids plan) (rs_heap s)) s (\<lambda>(ids, h).
                    trying (upload_int32_vector (ex_memory E) (pp_write_offsets plan) h) (s\<lparr>rs_heap := h\<rparr>) (\<lambda>(offs, h).
                    fold_res (plan_output ids offs (pp_page_table plan)) (ps_out step) (s\<lparr>rs_heap := h\<rparr>)))))))"

definition advance_output :: "'f rt_value \<Rightarrow> string \<times> string \<Rightarrow> ('f, 'w) rt_state \<Rightarrow> ('f, 'w) outcome" where
  "advance_output v out s = (let ref = snd out in
     if is_state_ref ref then store_reference ref v s else Ok (set_runtime_value ref v s))"

definition run_advance_position :: "('f, 'v, 'w) exec_env \<Rightarrow> 'f prog_step \<Rightarrow> ('f, 'w) rt_state \<Rightarrow> ('f, 'w) outcome" where
  "run_advance_position E step s = (case rs_slots s of
     None \<Rightarrow> Err (StoreRequired, s)
   | Some _ \<Rightarrow> (case map_of (ps_in step) ''position_offset'' of
       None \<Rightarrow> Err (InputRequired ''position_offset'', s)
     | Some pref \<Rightarrow> trying (resolve_value pref s) s (\<lambda>pv.
         trying (scalar_int32_value (ex_prims E) (rs_heap s) pv) s (\<lambda>current.
         case map_of (ps_in step) ''token_ids'' of
           None \<Rightarrow> Err (InputRequired ''token_ids'', s)
         | Some tref \<Rightarrow> (case map_of (rs_values s) tref of
             None \<Rightarrow> Err (ValueNotFound tref, s)
           | Some tv \<Rightarrow> (case int_vector_from_value (rs_heap s) tv of
               None \<Rightarrow> Err (WrongValueType tref, s)
             | Some tokens \<Rightarrow>
                 trying (upload_int32_vector (ex_memory E) [wrap32 (current + wrap32 (int (length tokens)))] (rs_heap s)) s
                   (\<lambda>(v, h). fold_res (advance_output v) (ps_out step) (s\<lparr>rs_heap := h\<rparr>))))))))"

section \<open>Graph calls\<close>

definition resolve_call_input ::
  "('f, 'v, 'w) exec_env \<Rightarrow> 'v ast_graph \<Rightarrow> string \<times> string \<Rightarrow> 'f bindings \<times> ('f, 'w) rt_state
     \<Rightarrow> (rt_error \<times> ('f, 'w) rt_state, 'f bindings \<times> ('f, 'w) rt_state) res" where
  "resolve_call_input E g inp = (\<lambda>(inputs, s).
     case (if is_state_ref (snd inp) \<and> rs_slots s \<noteq> None then resolve_reference (snd inp) (the (rs_slots s))
           else Ok (value_at s (snd inp))) of
       Inl e \<Rightarrow> Err (e, s)
     | Inr v \<Rightarrow> (case resolve_graph_input_for_graph (ex_prims E) (ex_memory E) (Some g) (fst inp) v (rs_heap s) of
         Inl e \<Rightarrow> Err (e, s)
       | Inr (v, h) \<Rightarrow> Ok (AList.update (fst inp) v inputs, s\<lparr>rs_heap := h\<rparr>)))"

definition call_output :: "'f bindings \<Rightarrow> string \<times> string \<Rightarrow> ('f, 'w) rt_state \<Rightarrow> ('f, 'w) outcome" where
  "call_output outputs out s = (case map_of outputs (fst out) of
     None \<Rightarrow> Ok s
   | Some v \<Rightarrow>
       if is_state_ref (snd out) \<and> rs_slots s \<noteq> None
       then (let previous = (case resolve_reference (snd out) (the (rs_slots s)) of Inl _ \<Rightarrow> VNil | Inr p \<Rightarrow> p) in
         trying (commit_graph_state_output previous v (rs_heap s)) s (\<lambda>(v, h).
           store_reference (snd out) v (s\<lparr>rs_heap := h\<rparr>)))
       else Ok (set_runtime_value (snd out) v s))"

definition state_outputs_for_step :: "'f prog_step \<Rightarrow> string list" where
  "state_outputs_for_step step = map fst (filter (\<lambda>(_, ref). is_state_ref ref) (ps_out step))"

definition run_graph_call :: "('f, 'v, 'w) exec_env \<Rightarrow> 'f prog_step \<Rightarrow> ('f, 'w) rt_state \<Rightarrow> ('f, 'w) outcome" where
  "run_graph_call E step s =
     (let name = (if ps_graph step = [] then config_string (ps_config step) ''graph'' else ps_graph step) in
      if name = [] then Err (GraphNameRequired, s)
      else case ex_graphs E name of
          None \<Rightarrow> Err (UnknownGraph name, s)
        | Some g \<Rightarrow> (case ex_backend E of
            None \<Rightarrow> Err (BackendRequired, s)
          | Some call \<Rightarrow> rbind (fold_res (resolve_call_input E g) (ps_in step) ([], s)) (\<lambda>(inputs, s).
              in_world (call \<lparr>gc_name = name, gc_inputs = inputs, gc_state_outputs = state_outputs_for_step step,
                gc_launch = derive_launch_bindings (ex_prims E) (rs_heap s) (g_inputs g) inputs\<rparr> (rs_heap s) (rs_world s)) s
                (\<lambda>(outputs, h) s. fold_res (call_output outputs) (ps_out step) (s\<lparr>rs_heap := h\<rparr>)))))"

section \<open>Loops\<close>

type_synonym ('f, 'w) child = "string \<times> (('f, 'w) rt_state \<Rightarrow> ('f, 'w) outcome)"

definition run_children :: "('f, 'w) child list \<Rightarrow> ('f, 'w) rt_state \<Rightarrow> ('f, 'w) outcome" where
  "run_children kids s = fold_res (\<lambda>(_, run). run) kids s"

text \<open>Ranging over a slice reads each element when its round begins.\<close>

definition each_round ::
  "string \<Rightarrow> ('f, 'w) child list \<Rightarrow> nat \<Rightarrow> nat \<Rightarrow> ('f, 'w) rt_state \<Rightarrow> ('f, 'w) outcome" where
  "each_round item kids a i s = run_children kids (put_value item (VFloat32 (read_floats (rs_heap s) a ! i)) s)"

definition run_loop_each :: "'f prog_step \<Rightarrow> ('f, 'w) child list \<Rightarrow> ('f, 'w) rt_state \<Rightarrow> ('f, 'w) outcome" where
  "run_loop_each step kids s = (case ps_loop step of
     None \<Rightarrow> Err (NilLoop, s)
   | Some l \<Rightarrow>
      (let source = (if lp_over l \<noteq> [] then lp_over l
                     else case map_of (ps_in step) ''source'' of Some r \<Rightarrow> r | None \<Rightarrow> []);
           item = (if lp_as l = [] then ''timestep'' else lp_as l)
       in case map_of (rs_values s) source of
           None \<Rightarrow> Err (ValueNotFound source, s)
         | Some (VFloat32s a) \<Rightarrow> fold_res (each_round item kids a) [0..<length (read_floats (rs_heap s) a)] s
         | Some _ \<Rightarrow> Err (WrongValueType source, s)))"

text \<open>\<open>Sscanf\<close> with \<open>%d\<close> reads an optional sign and the digits after it, and leaves the rest of the text unread.\<close>

definition is_digit :: "char \<Rightarrow> bool" where
  "is_digit c \<longleftrightarrow> digit_value c \<noteq> None"

definition scan_int :: "string \<Rightarrow> int option" where
  "scan_int s = (case s of
     [] \<Rightarrow> None
   | c # cs \<Rightarrow> if c = CHR ''-'' \<or> c = CHR ''+'' then parse_int64 (c # takeWhile is_digit cs)
               else parse_int64 (takeWhile is_digit s))"

definition parse_repeat_count :: "string \<Rightarrow> (rt_error, int) res" where
  "parse_repeat_count text = (let t = trim_space text in
     if t = [] then Err LoopCountRequired
     else case scan_int t of None \<Rightarrow> Err (BadLoopCount t) | Some n \<Rightarrow> Ok n)"

fun count_rounds :: "('f, 'w) child list \<Rightarrow> int list \<Rightarrow> ('f, 'w) rt_state \<Rightarrow> ('f, 'w) outcome" where
  "count_rounds kids [] s = Ok s"
| "count_rounds kids (i # is) s =
     rbind (run_children kids (put_value ''__loop_index__'' (VInt i) s)) (\<lambda>s.
       if map_of (rs_values s) ''__loop_break__'' = Some (VBool True)
       then Ok (drop_value ''__loop_break__'' s)
       else count_rounds kids is s)"

definition run_loop_count :: "'f prog_step \<Rightarrow> ('f, 'w) child list \<Rightarrow> ('f, 'w) rt_state \<Rightarrow> ('f, 'w) outcome" where
  "run_loop_count step kids s =
     trying (parse_repeat_count (case ps_loop step of None \<Rightarrow> [] | Some l \<Rightarrow> lp_repeat l)) s (\<lambda>n.
       count_rounds kids (map int [0..<nat n]) (drop_value ''__loop_break__'' s))"

text \<open>The result of one round until end of file: the loop is over, or goes on.\<close>

definition line_is_empty :: "('f, 'w) rt_state \<Rightarrow> bool" where
  "line_is_empty s \<longleftrightarrow> map_of (rs_values s) ''user_text'' = Some (VString [])"

fun eof_round ::
  "('f, 'w) child list \<Rightarrow> ('f, 'w) rt_state \<Rightarrow> (rt_error \<times> ('f, 'w) rt_state, bool \<times> ('f, 'w) rt_state) res" where
  "eof_round [] s = Ok (False, s)"
| "eof_round ((op, run) # kids) s = (case run s of
     Inl (e, s') \<Rightarrow> if e = EndOfFile then Ok (True, s') else Err (e, s')
   | Inr s' \<Rightarrow> if op = ''io.read_line'' \<and> line_is_empty s' then Ok (True, s') else eof_round kids s')"

fun run_loop_until_eof :: "nat \<Rightarrow> ('f, 'w) child list \<Rightarrow> ('f, 'w) rt_state \<Rightarrow> ('f, 'w) outcome" where
  "run_loop_until_eof 0 kids s = Err (OutOfFuel, s)"
| "run_loop_until_eof (Suc fuel) kids s =
     rbind (eof_round kids s) (\<lambda>(over, s').
       if over \<or> length (rs_values s') = length (rs_values s) \<or> line_is_empty s' then Ok s'
       else run_loop_until_eof fuel kids s')"

section \<open>Steps and programs\<close>

definition run_step_plain ::
  "nat \<Rightarrow> ('f, 'v, 'w) exec_env \<Rightarrow> 'f prog_step \<Rightarrow> ('f, 'w) child list \<Rightarrow> ('f, 'w) rt_state \<Rightarrow> ('f, 'w) outcome" where
  "run_step_plain fuel E step kids s = (let op = ps_op step in
     if op = ''graph.call'' then run_graph_call E step s
     else if op = ''io.read_line'' then run_read_line E step s
     else if op = ''io.emit_token'' then run_emit_token E step s
     else if op = ''io.write_image'' then run_write_image E step s
     else if op = ''tokenizer.encode'' then run_encode E step s
     else if op = ''sampling.topk_sample'' then run_topk_sample E step s
     else if op = ''value.assign'' then run_assign step s
     else if op = ''value.append'' then run_append E step s
     else if op = ''state.update'' then run_state_update step s
     else if op = ''state.paged_plan'' then run_paged_plan E step s
     else if op = ''state.advance_position'' then run_advance_position E step s
     else if op = ''control.loop_each'' then run_loop_each step kids s
     else if op = ''control.loop_count'' then run_loop_count step kids s
     else if op = ''control.loop_until_eof'' then run_loop_until_eof fuel kids s
     else if op = ''math.axpy'' then run_axpy E step s
     else if op = ''math.linspace'' then run_linspace E step s
     else if op = ''math.empirical_mu'' then run_empirical_mu E step s
     else if op = ''math.time_shift'' then run_time_shift E step s
     else if op = ''math.scalar_broadcast'' then run_scalar_broadcast E step s
     else if op = ''math.scheduler_delta'' then run_scheduler_delta E step s
     else if op = ''random.normal'' then run_random_normal E step s
     else Err (UnsupportedOp op, s))"

definition run_step_with_body ::
  "nat \<Rightarrow> 'f prog_step \<Rightarrow> ('f, 'w) child list \<Rightarrow> ('f, 'w) rt_state \<Rightarrow> ('f, 'w) outcome" where
  "run_step_with_body fuel step kids s = (let op = ps_op step in
     if op = ''control.loop_each'' then run_loop_each step kids s
     else if (op = ''control.loop_count'' \<or> op = []) \<and> (case ps_loop step of None \<Rightarrow> False | Some l \<Rightarrow> lp_repeat l \<noteq> [])
     then run_loop_count step kids s
     else if op = ''control.loop_until_eof'' then run_loop_until_eof fuel kids s
     else run_children kids s)"

function run_step :: "nat \<Rightarrow> ('f, 'v, 'w) exec_env \<Rightarrow> 'f prog_step \<Rightarrow> ('f, 'w) rt_state \<Rightarrow> ('f, 'w) outcome" where
  "run_step fuel E (Step i op ins outs g c l body) s =
     (let step = Step i op ins outs g c l body; kids = map (\<lambda>k. (ps_op k, run_step fuel E k)) body in
      if body \<noteq> [] then run_step_with_body fuel step kids s else run_step_plain fuel E step kids s)"
  by pat_completeness auto
termination
  by (relation "measure (\<lambda>(fuel, E, step, s). size step)") (auto simp: size_list_estimation less_Suc_eq_le intro: size_list_estimation')

definition state_tensors :: "('f, 'w) rt_state \<Rightarrow> nat list" where
  "state_tensors s = (case rs_slots s of None \<Rightarrow> []
     | Some slots \<Rightarrow> concat (map (\<lambda>(_, v). case v of VTensor a \<Rightarrow> [a] | _ \<Rightarrow> []) slots))"

definition close_runtime_values :: "('f, 'v, 'w) exec_env \<Rightarrow> ('f, 'w) rt_state \<Rightarrow> ('f, 'w) rt_state" where
  "close_runtime_values E s = s\<lparr>rs_heap := fold (\<lambda>(ref, v) h. case v of
       VTensor a \<Rightarrow> if ref \<in> set (map fst (ex_initial E)) \<or> a \<in> set (state_tensors s) then h else close_tensor_at a h
     | _ \<Rightarrow> h) (rs_values s) (rs_heap s)\<rparr>"

definition run_named_step ::
  "nat \<Rightarrow> ('f, 'v, 'w) exec_env \<Rightarrow> 'f prog_step \<Rightarrow> ('f, 'w) rt_state \<Rightarrow> ('f, 'w) outcome" where
  "run_named_step fuel E step s = (case run_step fuel E step s of
     Inl (e, s') \<Rightarrow> Err (AtStep (ps_id step) (ps_op step) e, s') | Inr s' \<Rightarrow> Ok s')"

definition run_program ::
  "nat \<Rightarrow> ('f, 'v, 'w) exec_env \<Rightarrow> 'f prog_step list option \<Rightarrow> ('f, 'w) rt_state \<Rightarrow> ('f, 'w) outcome" where
  "run_program fuel E prog s = (case prog of
     None \<Rightarrow> Err (ProgramRequired, s)
   | Some steps \<Rightarrow> (case fold_res (run_named_step fuel E) steps (s\<lparr>rs_values := ex_initial E\<rparr>) of
       Inl (e, s') \<Rightarrow> Err (e, close_runtime_values E s')
     | Inr s' \<Rightarrow> Ok (close_runtime_values E s')))"

end
