(* ===== verification/Paged_Plan_Safe.thy ===== *)
theory Paged_Plan_Safe
  imports Graph_Inputs
begin

text \<open>
  What the write plan of the paged cache guarantees: integers survive the upload as bytes, every position of a
  batch gets a slot of its own in a page of the table, and planning a sequence in two batches writes the
  slots that planning it in one batch writes.
\<close>

unbundle bit_operations_syntax

section \<open>Bytes of integers\<close>

lemma int32_bytes_join:
  "ucast (ucast w :: 8 word) OR push_bit 8 (ucast (ucast (drop_bit 8 w) :: 8 word))
     OR push_bit 16 (ucast (ucast (drop_bit 16 w) :: 8 word)) OR push_bit 24 (ucast (ucast (drop_bit 24 w) :: 8 word))
   = (w :: 32 word)"
proof (rule bit_word_eqI)
  fix n assume "n < LENGTH(32)"
  then have n: "n < 32" by simp
  consider "n < 8" | "8 \<le> n" "n < 16" | "16 \<le> n" "n < 24" | "24 \<le> n" by linarith
  then show "bit (ucast (ucast w :: 8 word) OR push_bit 8 (ucast (ucast (drop_bit 8 w) :: 8 word))
     OR push_bit 16 (ucast (ucast (drop_bit 16 w) :: 8 word)) OR push_bit 24 (ucast (ucast (drop_bit 24 w) :: 8 word)) :: 32 word) n
    = bit w n"
    using n by cases (auto simp: bit_simps)
qed

lemma int32_of_int32_bytes: "in32 i \<Longrightarrow> int32_of_bytes (int32_bytes i) = i"
proof -
  assume "in32 i"
  then have "sint (word_of_int i :: 32 word) = i"
    by (simp add: signed_of_int signed_take_bit_int_eq_self in32_def)
  then show ?thesis by (simp add: int32_bytes_def Let_def int32_bytes_join)
qed

lemma int32_bytes_length: "length (int32_bytes i) = 4"
  by (simp add: int32_bytes_def Let_def)

lemma int32s_of_int32_bytes: "\<forall>i \<in> set xs. in32 i \<Longrightarrow> int32s_of_bytes (concat (map int32_bytes xs)) = xs"
proof (induction xs)
  case (Cons i js)
  obtain a b c d where b: "int32_bytes i = [a, b, c, d]" by (simp add: int32_bytes_def Let_def)
  with Cons int32_of_int32_bytes [of i] show ?case by simp
qed simp


section \<open>The plan\<close>

lemma build_paged_plan_run:
  assumes "0 < ps" and "0 < count" and "0 \<le> start" and "start + int count < 2 ^ 31"
  shows "build_paged_plan (Ok start) count ps = Ok \<lparr>
     pp_write_page_ids = map (\<lambda>i. (start + int i) div ps) [0..<count],
     pp_write_offsets = map (\<lambda>i. (start + int i) mod ps) [0..<count],
     pp_page_table = map int [0..<nat ((start + int count - 1) div ps + 1)],
     pp_kv_length = start + int count\<rparr>"
proof -
  have at: "wrap32 ((start + int i) sdiv ps) = (start + int i) div ps"
    "wrap32 ((start + int i) smod ps) = (start + int i) mod ps" if "i < count" for i
  proof -
    have p: "0 \<le> start + int i" "start + int i < 2 ^ 31" using assms that by simp_all
    have "(start + int i) div ps \<le> start + int i"
      using p assms(1) by (metis div_by_1 less_eq_int_code(1) zdiv_mono2 zero_less_one int_one_le_iff_zero_less)
    moreover have "0 \<le> (start + int i) div ps" using p assms(1) by (simp add: pos_imp_zdiv_nonneg_iff)
    ultimately show "wrap32 ((start + int i) sdiv ps) = (start + int i) div ps"
      using p assms(1) by (simp add: sdiv_nonneg wrap32_pos)
    have "(start + int i) mod ps \<le> start + int i" using p assms(1) by (simp add: zmod_le_nonneg_dividend)
    then show "wrap32 ((start + int i) smod ps) = (start + int i) mod ps"
      using p assms(1) by (simp add: smod_nonneg wrap32_pos)
  qed
  let ?l = "(start + int count - 1) div ps"
  have k: "0 \<le> start + int count - 1" "start + int count - 1 < 2 ^ 31 - 1" using assms by simp_all
  have "?l \<le> start + int count - 1"
    using k assms(1) by (metis div_by_1 zdiv_mono2 zero_less_one int_one_le_iff_zero_less)
  moreover have "0 \<le> ?l" using k assms(1) by (simp add: pos_imp_zdiv_nonneg_iff)
  ultimately have l: "wrap32 ((start + int count - 1) sdiv ps) = ?l" "\<not> wrap32 (?l + 1) < 0"
    using k assms(1) by (simp_all add: sdiv_nonneg wrap32_pos)
  from assms(1,2) l at show ?thesis
    by (simp add: build_paged_plan_def Let_def)
qed






lemma paged_plans_compose:
  assumes "0 < ps" and "0 < n" and "0 < m" and "0 \<le> start" and "start + int (n + m) < 2 ^ 31"
  shows "\<exists>p q r. build_paged_plan (Ok start) n ps = Ok p \<and> build_paged_plan (Ok (start + int n)) m ps = Ok q
    \<and> build_paged_plan (Ok start) (n + m) ps = Ok r
    \<and> pp_write_page_ids r = pp_write_page_ids p @ pp_write_page_ids q
    \<and> pp_write_offsets r = pp_write_offsets p @ pp_write_offsets q
    \<and> pp_page_table r = pp_page_table q \<and> pp_kv_length r = pp_kv_length q"
proof -
  have split: "map f [0..<n + m] = map f [0..<n] @ map (\<lambda>i. f (n + i)) [0..<m]" for f :: "nat \<Rightarrow> int"
    by (rule nth_equalityI) (auto simp: nth_append)
  have r: "start + int n < 2 ^ 31" "0 \<le> start + int n" "start + int n + int m < 2 ^ 31" "0 < n + m" using assms by simp_all
  show ?thesis
    using build_paged_plan_run [OF assms(1,2,4) r(1)] build_paged_plan_run [OF assms(1,3) r(2,3)]
      build_paged_plan_run [OF assms(1) r(4) assms(4,5)]
    by (simp add: split add.assoc)
qed

end
