(* ===== verification/Executor_Safe.thy ===== *)
theory Executor_Safe
  imports Executor Paged_Plan_Safe
begin

text \<open>
  What the executor keeps of its store of values, and the position of a sequence across batches. A small
  environment (\<open>toy_env\<close>, with integers for floats) serves the concrete runs of this theory and the next.
\<close>

section \<open>Stores of named values\<close>

text \<open>What the executor expects of a store of named values, and what follows for the outputs of a step.\<close>

locale binding_store =
  fixes look :: "'s \<Rightarrow> string \<Rightarrow> 'a option" and put :: "string \<Rightarrow> 'a \<Rightarrow> 's \<Rightarrow> 's" and names :: "'s \<Rightarrow> string set"
  assumes look_put: "look (put x v s) y = (if y = x then Some v else look s y)"
    and names: "x \<in> names s \<longleftrightarrow> look s x \<noteq> None"
begin

lemma look_puts:
  "look (fold (\<lambda>(_, ref). put ref v) outs s) y = (if y \<in> snd ` set outs then Some v else look s y)"
  by (induction outs arbitrary: s) (auto simp: look_put)

lemma names_put: "names (put x v s) = insert x (names s)"
  by (rule set_eqI) (simp add: names look_put)

lemma names_puts: "names (fold (\<lambda>(_, ref). put ref v) outs s) = names s \<union> snd ` set outs"
  by (rule set_eqI) (simp add: names look_puts)

end

interpretation bindings: binding_store map_of "AList.update :: string \<Rightarrow> 'f rt_value \<Rightarrow> 'f bindings \<Rightarrow> 'f bindings"
    "\<lambda>m. fst ` set m"
  by unfold_locales (auto simp: update_conv' map_of_eq_None_iff)

definition value_names :: "('f, 'w) rt_state \<Rightarrow> string set" where
  "value_names s = fst ` set (rs_values s)"

interpretation vals: binding_store "\<lambda>s :: ('f, 'w) rt_state. map_of (rs_values s)" put_value value_names
  by unfold_locales (auto simp: put_value_def update_conv' value_names_def map_of_eq_None_iff)

lemma put_outputs_other [simp]:
  "rs_slots (put_outputs outs v s) = rs_slots s" "rs_heap (put_outputs outs v s) = rs_heap s"
  "rs_world (put_outputs outs v s) = rs_world s"
  by (induction outs arbitrary: s) (auto simp: put_outputs_def put_value_def)

lemma put_value_other [simp]:
  "rs_slots (put_value x v s) = rs_slots s" "rs_heap (put_value x v s) = rs_heap s"
  "rs_world (put_value x v s) = rs_world s"
  by (simp_all add: put_value_def)

section \<open>Tensors that stay open\<close>

definition holds :: "rt_tensor \<Rightarrow> nat \<Rightarrow> ('f, 'w) rt_state \<Rightarrow> bool" where
  "holds t a s \<longleftrightarrow> a < length (hp_tensors (rs_heap s)) \<and> hp_tensors (rs_heap s) ! a = t"

lemma close_replaced_keeps [simp]:
  "length (hp_tensors (close_replaced p v h)) = length (hp_tensors h)"
  "hp_tensors (close_replaced p (VTensor a) h) ! a = hp_tensors h ! a"
  by (auto simp: close_replaced_def close_tensor_at_def split: option.splits rt_value.splits)

lemma set_runtime_value_holds: "holds t a s \<Longrightarrow> holds t a (set_runtime_value ref (VTensor a) s)"
  by (simp add: holds_def set_runtime_value_def)

lemma set_runtime_value_slots [simp]: "rs_slots (set_runtime_value ref v s) = rs_slots s"
  by (simp add: set_runtime_value_def)

lemma store_reference_ok:
  assumes "store_reference ref (VTensor a) s = Ok s'"
  shows "is_state_ref ref \<and> (\<exists>slots. rs_slots s = Some slots \<and> rs_slots s' = Some (AList.update (state_name ref) (VTensor a) slots))
    \<and> (holds t a s \<longrightarrow> holds t a s')"
  using assms
  by (auto simp: store_reference_def set_reference_def store_set_def holds_def split: option.splits if_splits)

lemma advance_outputs:
  assumes "fold_res (advance_output (VTensor a)) outs s = Ok s'" and "holds t a s" and "rs_slots s = Some slots"
  shows "holds t a s' \<and> (\<exists>slots'. rs_slots s' = Some slots' \<and> (\<forall>y. map_of slots' y =
    (if y \<in> state_name ` {r \<in> snd ` set outs. is_state_ref r} then Some (VTensor a) else map_of slots y)))"
  using assms
proof (induction outs arbitrary: s slots)
  case (Cons out outs)
  from Cons.prems(1) obtain s1 where s1: "advance_output (VTensor a) out s = Ok s1"
    "fold_res (advance_output (VTensor a)) outs s1 = Ok s'" by auto
  show ?case
  proof (cases "is_state_ref (snd out)")
    case True
    with s1(1) have "store_reference (snd out) (VTensor a) s = Ok s1" by (simp add: advance_output_def Let_def)
    from store_reference_ok [OF this, of t] Cons.prems(2,3)
    have h: "holds t a s1" and sl: "rs_slots s1 = Some (AList.update (state_name (snd out)) (VTensor a) slots)" by auto
    have e: "state_name ` {r \<in> snd ` set (out # outs). is_state_ref r}
      = insert (state_name (snd out)) (state_name ` {r \<in> snd ` set outs. is_state_ref r})" using True by auto
    from Cons.IH [OF s1(2) h sl] obtain slots' where i: "holds t a s'" "rs_slots s' = Some slots'"
      "\<And>y. map_of slots' y = (if y \<in> state_name ` {r \<in> snd ` set outs. is_state_ref r} then Some (VTensor a)
         else map_of (AList.update (state_name (snd out)) (VTensor a) slots) y)" by blast
    then show ?thesis unfolding e by (intro conjI exI [of _ slots']) (auto simp: update_conv')
  next
    case False
    with s1(1) have e: "s1 = set_runtime_value (snd out) (VTensor a) s" by (simp add: advance_output_def Let_def)
    have h: "holds t a s1" and sl: "rs_slots s1 = Some slots"
      using Cons.prems(2,3) set_runtime_value_holds by (auto simp: e)
    have "{r \<in> snd ` set (out # outs). is_state_ref r} = {r \<in> snd ` set outs. is_state_ref r}" using False by auto
    with Cons.IH [OF s1(2) h sl] show ?thesis by simp
  qed
qed simp

section \<open>The position in the sequence\<close>

lemma upload_int32_vector_ok:
  assumes "upload_int32_vector B xs h = Ok (v, h')"
  shows "\<exists>host. v = VTensor (length (hp_tensors h)) \<and> h' = h\<lparr>hp_tensors := hp_tensors h @
    [\<lparr>te_dtype = Int32, te_dims = [int (length xs)], te_host = host, te_bytes = concat (map int32_bytes xs), te_open = True\<rparr>]\<rparr>"
  using assms by (auto simp: upload_int32_vector_def backend_upload_def split: option.splits if_splits)

lemma read_position:
  assumes "holds \<lparr>te_dtype = Int32, te_dims = [1], te_host = host, te_bytes = int32_bytes i, te_open = True\<rparr> a s" and "in32 i"
  shows "scalar_int32_value P (rs_heap s) (VTensor a) = Ok i"
  using assms int32s_of_int32_bytes [of "[i]"]
  by (simp add: scalar_int32_value_def holds_def Let_def int32_native_def int32_scalar_from_raw_tensor_def only_def
    int32_bytes_length int32_of_int32_bytes)

lemma advance_position_stores:
  assumes run: "run_advance_position E step s = Ok s'"
    and pos: "map_of (ps_in step) ''position_offset'' = Some p" "resolve_value p s = Ok pv"
      "scalar_int32_value (ex_prims E) (rs_heap s) pv = Ok start"
    and tok: "map_of (ps_in step) ''token_ids'' = Some t" "map_of (rs_values s) t = Some tv"
      "int_vector_from_value (rs_heap s) tv = Some tokens"
    and out: "is_state_ref p" "p \<in> snd ` set (ps_out step)"
    and range: "0 \<le> start" "start + int (length tokens) < 2 ^ 31"
  shows "\<exists>v. resolve_value p s' = Ok v \<and> scalar_int32_value (ex_prims E) (rs_heap s') v = Ok (start + int (length tokens))"
proof -
  let ?i = "start + int (length tokens)"
  have i: "wrap32 (start + wrap32 (int (length tokens))) = ?i" "in32 ?i" using range by (simp_all add: wrap32_pos in32_def)
  obtain slots where sl: "rs_slots s = Some slots" using run by (cases "rs_slots s") (simp_all add: run_advance_position_def)
  with run pos tok i obtain v h where u: "upload_int32_vector (ex_memory E) [?i] (rs_heap s) = Ok (v, h)"
    "fold_res (advance_output v) (ps_out step) (s\<lparr>rs_heap := h\<rparr>) = Ok s'"
    by (cases "upload_int32_vector (ex_memory E) [?i] (rs_heap s)") (auto simp: run_advance_position_def)
  from upload_int32_vector_ok [OF u(1)] obtain host where
    v: "v = VTensor (length (hp_tensors (rs_heap s)))" and h: "h = (rs_heap s)\<lparr>hp_tensors := hp_tensors (rs_heap s) @
      [\<lparr>te_dtype = Int32, te_dims = [1], te_host = host, te_bytes = int32_bytes ?i, te_open = True\<rparr>]\<rparr>" by auto
  have hold: "holds \<lparr>te_dtype = Int32, te_dims = [1], te_host = host, te_bytes = int32_bytes ?i, te_open = True\<rparr>
      (length (hp_tensors (rs_heap s))) (s\<lparr>rs_heap := h\<rparr>)" by (simp add: holds_def h)
  from advance_outputs [OF u(2) [unfolded v] hold] sl obtain slots' where
    s': "rs_slots s' = Some slots'" "holds \<lparr>te_dtype = Int32, te_dims = [1], te_host = host, te_bytes = int32_bytes ?i, te_open = True\<rparr>
      (length (hp_tensors (rs_heap s))) s'"
    and m: "map_of slots' (state_name p) = (if state_name p \<in> state_name ` {r \<in> snd ` set (ps_out step). is_state_ref r}
      then Some (VTensor (length (hp_tensors (rs_heap s)))) else map_of slots (state_name p))" by auto
  from m out have "map_of slots' (state_name p) = Some (VTensor (length (hp_tensors (rs_heap s))))" by auto
  moreover have "p \<noteq> []" using out(1) by (auto simp: is_state_ref_def state_prefix_def)
  ultimately have "resolve_value p s' = Ok (VTensor (length (hp_tensors (rs_heap s))))"
    using s'(1) out(1) by (simp add: resolve_value_def resolve_reference_def store_get_def)
  with read_position [OF s'(2) i(2)] show ?thesis by blast
qed

text \<open>
  C8. Decoding in chunks. When \<open>state.advance_position\<close> has run on a batch of \<open>n\<close> tokens at position \<open>start\<close>, with
  the state slot it reads among its outputs, the slot resolves to a position that reads back as \<open>start + n\<close>; and
  the write plan of the next \<open>m\<close> tokens at that position continues the plan of the first batch: together they
  are the plan of one batch of \<open>n + m\<close> tokens, slot by slot, with the same page table at the end.
\<close>

theorem chunked_decoding:
  assumes "run_advance_position E step s = Ok s'"
    and "map_of (ps_in step) ''position_offset'' = Some p" and "resolve_value p s = Ok pv"
    and "scalar_int32_value (ex_prims E) (rs_heap s) pv = Ok start"
    and "map_of (ps_in step) ''token_ids'' = Some t" and "map_of (rs_values s) t = Some tv"
    and "int_vector_from_value (rs_heap s) tv = Some tokens" and "tokens \<noteq> []"
    and "is_state_ref p" and "p \<in> snd ` set (ps_out step)"
    and "0 < page_size" and "0 < m" and "0 \<le> start" and "start + int (length tokens + m) < 2 ^ 31"
  shows "\<exists>v first second whole. resolve_value p s' = Ok v
    \<and> scalar_int32_value (ex_prims E) (rs_heap s') v = Ok (start + int (length tokens))
    \<and> build_paged_plan (scalar_int32_value (ex_prims E) (rs_heap s) pv) (length tokens) page_size = Ok first
    \<and> build_paged_plan (scalar_int32_value (ex_prims E) (rs_heap s') v) m page_size = Ok second
    \<and> build_paged_plan (scalar_int32_value (ex_prims E) (rs_heap s) pv) (length tokens + m) page_size = Ok whole
    \<and> pp_write_page_ids whole = pp_write_page_ids first @ pp_write_page_ids second
    \<and> pp_write_offsets whole = pp_write_offsets first @ pp_write_offsets second
    \<and> pp_page_table whole = pp_page_table second"
proof -
  have r: "start + int (length tokens) < 2 ^ 31" using assms(14) by simp
  have n: "0 < length tokens" using assms(8) by simp
  from advance_position_stores [OF assms(1-7,9,10,13) r] obtain v where v: "resolve_value p s' = Ok v"
    "scalar_int32_value (ex_prims E) (rs_heap s') v = Ok (start + int (length tokens))" by auto
  from paged_plans_compose [OF assms(11) n assms(12,13,14)] obtain a b c where
    "build_paged_plan (Ok start) (length tokens) page_size = Ok a"
    "build_paged_plan (Ok (start + int (length tokens))) m page_size = Ok b"
    "build_paged_plan (Ok start) (length tokens + m) page_size = Ok c"
    "pp_write_page_ids c = pp_write_page_ids a @ pp_write_page_ids b"
    "pp_write_offsets c = pp_write_offsets a @ pp_write_offsets b" "pp_page_table c = pp_page_table b" by blast
  with v assms(4) show ?thesis by (intro exI [of _ v] exI [of _ a] exI [of _ b] exI [of _ c]) simp
qed

section \<open>A small host\<close>

text \<open>An environment for concrete runs: standard input is a list of lines and emitted tokens are collected.\<close>

record toy_world =
  tw_lines :: "string list"
  tw_emitted :: "int list"

definition toy_hw :: float_hw where
  "toy_hw = \<lparr>hw_narrow = ucast, hw_widen = ucast, hw_of_int = word_of_int, hw_less = (<), hw_to_int8 = ucast\<rparr>"

definition toy_prims :: "int float_prims" where
  "toy_prims = \<lparr>fp_to_int = id, fp_to_int32 = wrap32, fp_of_int = id, fp_round = id, fp_bits = word_of_int,
     fp_of_bits = sint, fp_hw = toy_hw, fp_literal = \<lambda>_. 1, fp_parse = parse_int64,
     fp_add = (+), fp_sub = (-), fp_mul = (*), fp_div = (div), fp_muladd = \<lambda>x y z. x * y + z, fp_mulsub = \<lambda>x y z. z - x * y,
     fp_less = (<), fp_eq = (=), fp_exp = \<lambda>_. 1, fp_pow = \<lambda>x _. x, fp_add64 = (+), fp_of_int64 = id, fp_mul64 = (*),
     fp_zero = 0, fp_gaussian = \<lambda>_ n. replicate n 0\<rparr>"

definition toy_host :: "(int, toy_world) host_ops" where
  "toy_host = \<lparr>
     ho_read_line = \<lambda>w. (case tw_lines w of [] \<Rightarrow> (Err HostEof, w) | l # ls \<Rightarrow> (Ok l, w\<lparr>tw_lines := ls\<rparr>)),
     ho_emit_token = \<lambda>r w. (Ok (), w\<lparr>tw_emitted := tw_emitted w @ [em_token r]\<rparr>),
     ho_write_image = \<lambda>_ _ w. (Ok (), w),
     ho_encode = \<lambda>r w. (Ok (map (\<lambda>c. int (of_char c)) (er_text r)), w)\<rparr>"

definition toy_env :: "(string \<times> int rt_value) list \<Rightarrow> (int, unit, toy_world) exec_env" where
  "toy_env start = \<lparr>ex_prims = toy_prims, ex_grow = \<lambda>n. n,
     ex_memory = Some \<lparr>ub_host = True, ub_readable = \<lambda>_. True, ub_accepts = \<lambda>_ _ _. True\<rparr>,
     ex_graphs = \<lambda>_. None, ex_backend = None, ex_host = Some toy_host, ex_stdin = None,
     ex_dtype = Float32, ex_axpy = None, ex_random = \<lambda>w. (0, w), ex_sort = \<lambda>xs. rev (sort_key snd xs),
     ex_initial = start\<rparr>"

definition toy_state :: "(string \<times> int rt_value) list \<Rightarrow> (string \<times> int rt_value) list \<Rightarrow> int rt_heap \<Rightarrow> string list \<Rightarrow> (int, toy_world) rt_state" where
  "toy_state vals slots h lines = \<lparr>rs_values = vals, rs_slots = Some slots, rs_heap = h,
     rs_world = \<lparr>tw_lines = lines, tw_emitted = []\<rparr>\<rparr>"

definition toy_step :: "string \<Rightarrow> (string \<times> string) list \<Rightarrow> (string \<times> string) list \<Rightarrow> int prog_step" where
  "toy_step op ins outs = Step op op ins outs [] (\<lambda>_. None) None []"

lemmas toy_defs = toy_hw_def toy_prims_def toy_host_def toy_env_def toy_state_def toy_step_def

definition toy_advance :: "int prog_step" where
  "toy_advance = toy_step ''state.advance_position''
     [(''position_offset'', ''state.position''), (''token_ids'', ''tokens'')] [(''position'', ''state.position'')]"

definition toy_batch :: "(int, toy_world) rt_state" where
  "toy_batch = toy_state [(''tokens'', VInt32s [7, 8, 9])] [(''position'', VInt 14)]
     \<lparr>hp_tensors = [], hp_ints = [], hp_floats = [], hp_paged = [], hp_tables = []\<rparr> []"

definition toy_next :: "(int, toy_world) rt_state" where
  "toy_next = toy_state [(''tokens'', VInt32s [7, 8, 9])] [(''position'', VTensor 0)]
     \<lparr>hp_tensors = [\<lparr>te_dtype = Int32, te_dims = [1], te_host = True, te_bytes = [17, 0, 0, 0], te_open = True\<rparr>],
      hp_ints = [], hp_floats = [], hp_paged = [], hp_tables = []\<rparr> []"

lemma toy_advance_run:
  "run_advance_position (toy_env []) toy_advance toy_batch = Ok toy_next"
  "map_of (ps_in toy_advance) ''position_offset'' = Some ''state.position''"
  "resolve_value ''state.position'' toy_batch = Ok (VInt 14)"
  "scalar_int32_value (ex_prims (toy_env [])) (rs_heap toy_batch) (VInt 14) = Ok 14"
  "map_of (ps_in toy_advance) ''token_ids'' = Some ''tokens''"
  "map_of (rs_values toy_batch) ''tokens'' = Some (VInt32s [7, 8, 9])"
  "int_vector_from_value (rs_heap toy_batch) (VInt32s [7, 8, 9]) = Some [7, 8, 9]"
  "is_state_ref ''state.position''"
  "''state.position'' \<in> snd ` set (ps_out toy_advance)"
  by code_simp+

theorem chunked_decoding_witness:
  "\<exists>v. resolve_value ''state.position'' toy_next = Ok v
    \<and> scalar_int32_value (ex_prims (toy_env [])) (rs_heap toy_next) v = Ok 17"
proof -
  have r: "[7, 8, 9] \<noteq> ([] :: int list)" "0 < (16 :: int)" "0 < (2 :: nat)" "0 \<le> (14 :: int)"
    "14 + int (length [7, 8, 9 :: int] + 2) < 2 ^ 31" by simp_all
  from chunked_decoding [OF toy_advance_run(1-7) r(1) toy_advance_run(8,9) r(2-5)]
  show ?thesis by auto
qed

end
