(* ===== verification/Executor_Loops.thy ===== *)
theory Executor_Loops
  imports Executor_Safe
begin

text \<open>
  The loop until end of file. A round goes on only while the store of values gains names, and a body can only
  bind the names its steps mention; so the loop ends after at most that many rounds, however much input
  there is.
\<close>

section \<open>Errors that are never \<open>OutOfFuel\<close>\<close>

named_theorems no_fuel

lemma rbind_fuel: "rbind r k = Inl e \<longleftrightarrow> r = Inl e \<or> (\<exists>x. r = Inr x \<and> k x = Inl e)"
  by (cases r) auto

lemma traverse_fuel: "(\<And>x. f x \<noteq> Inl e) \<Longrightarrow> traverse f xs \<noteq> Inl e"
  by (induction xs) (auto simp: rbind_fuel)

lemma token_fuel [no_fuel]: "token_id_from_value P v \<noteq> Inl OutOfFuel"
  by (simp add: token_id_from_value_def split: rt_value.splits)

lemma update_fuel [no_fuel]: "state_update u t slots \<noteq> Inl OutOfFuel"
  by (auto simp: state_update_def Let_def split: option.splits rt_value.splits)

lemma set_reference_fuel [no_fuel]: "set_reference ref v z \<noteq> Inl OutOfFuel"
  by (auto simp: set_reference_def split: prod.splits)

lemma resolve_reference_fuel [no_fuel]: "resolve_reference ref slots \<noteq> Inl OutOfFuel"
  by (auto simp: resolve_reference_def split: option.splits)

lemma resolve_value_fuel [no_fuel]: "resolve_value ref s \<noteq> Inl OutOfFuel"
  by (auto simp: resolve_value_def no_fuel split: option.splits)

lemma only_fuel [no_fuel]: "only xs \<noteq> Inl OutOfFuel" by (simp add: only_def split: list.splits)

lemma scalar_fuel [no_fuel]: "scalar_int32_value P h v \<noteq> Inl OutOfFuel"
  by (auto simp: scalar_int32_value_def int32_native_def int32_scalar_from_raw_tensor_def Let_def rbind_fuel no_fuel
    split: rt_value.splits)

lemma upload_fuel [no_fuel]: "backend_upload B dims d bytes h \<noteq> Inl OutOfFuel"
  by (simp add: backend_upload_def)

lemma upload_int32_fuel [no_fuel]: "upload_int32_vector B xs h \<noteq> Inl OutOfFuel"
  by (simp add: upload_int32_vector_def no_fuel split: option.splits)

lemma plan_fuel [no_fuel]: "position \<noteq> Inl OutOfFuel \<Longrightarrow> build_paged_plan position n page_size \<noteq> Inl OutOfFuel"
  by (auto simp: build_paged_plan_def Let_def rbind_fuel)

lemma repeat_fuel [no_fuel]: "parse_repeat_count t \<noteq> Inl OutOfFuel"
  by (simp add: parse_repeat_count_def Let_def split: option.splits)

lemma checked_token_fuel: "checked_token i \<noteq> Inl OutOfFuel" by (simp add: checked_token_def)

lemma token_vector_fuel [no_fuel]: "int32_token_vector h v \<noteq> Inl OutOfFuel"
  using traverse_fuel [of checked_token, OF checked_token_fuel]
  by (auto simp: int32_token_vector_def simp del: traverse.simps split: rt_value.splits)

lemma batched_fuel [no_fuel]: "batched_token_tensor B v h \<noteq> Inl OutOfFuel"
  by (auto simp: batched_token_tensor_def Let_def rbind_fuel no_fuel split: rt_value.splits option.splits)

lemma float_vector_fuel [no_fuel]: "float32_tensor_vector P B v h \<noteq> Inl OutOfFuel"
  by (auto simp: float32_tensor_vector_def float32_vector_value_def Let_def rbind_fuel no_fuel split: rt_value.splits option.splits)

lemma graph_input_fuel [no_fuel]: "resolve_graph_input B v h \<noteq> Inl OutOfFuel"
  by (auto simp: resolve_graph_input_def resolve_paged_tensor_input_def resolve_page_table_input_def Let_def rbind_fuel no_fuel
    split: rt_value.splits option.splits)

lemma graph_input_for_fuel [no_fuel]: "resolve_graph_input_for_graph P B g x v h \<noteq> Inl OutOfFuel"
  by (auto simp: resolve_graph_input_for_graph_def rbind_fuel no_fuel split: prod.splits)

lemma commit_fuel [no_fuel]: "commit_graph_state_output previous v h \<noteq> Inl OutOfFuel"
  by (auto simp: commit_graph_state_output_def as_tensor_def Let_def rbind_fuel split: rt_value.splits)

text \<open>What the numeric steps read and compute.\<close>

lemma map_err_fuel: "(\<And>x. f x \<noteq> e) \<Longrightarrow> map_err f r \<noteq> Inl e"
  by (cases r) (simp_all add: map_err_def)

lemma config_fuel [no_fuel]:
  "required_float32_from_config P c key \<noteq> Inl OutOfFuel"
  "required_int_from_any P v \<noteq> Inl OutOfFuel"
  "required_int_from_config P c key \<noteq> Inl OutOfFuel"
  "required_int64_from_config P c key \<noteq> Inl OutOfFuel"
  by (simp_all add: required_float32_from_config_def required_int_from_any_def required_int_from_config_def
    required_int64_from_config_def split: option.split attr.split)

lemma checked_shape_fuel [no_fuel]: "checked_shape dims \<noteq> Inl OutOfFuel"
  unfolding checked_shape_def by (rule map_err_fuel) simp

lemma shape_config_fuel [no_fuel]: "required_shape_from_config P c key \<noteq> Inl OutOfFuel"
  using traverse_fuel [of "required_int_from_any P", OF config_fuel(2)]
  by (auto simp: required_shape_from_config_def dimensions_from_any_def rbind_fuel no_fuel simp del: traverse.simps
    split: option.splits attr.splits)

lemma dtype_config_fuel [no_fuel]: "float_dtype_from_config c d \<noteq> Inl OutOfFuel"
  by (auto simp: float_dtype_from_config_def rbind_fuel map_err_fuel split: option.splits attr.splits)

lemma runtime_shape_fuel [no_fuel]: "shape_from_runtime_value h v n \<noteq> Inl OutOfFuel"
  by (auto simp: shape_from_runtime_value_def rbind_fuel no_fuel split: rt_value.splits)

lemma decode_fuel [no_fuel]: "decode_floats P d bytes \<noteq> Inl OutOfFuel"
  by (auto simp: decode_floats_def rbind_fuel map_err_fuel)

lemma vector_fuel [no_fuel]: "float32_vector P h v \<noteq> Inl OutOfFuel"
  by (auto simp: float32_vector_def float32_vector_from_raw_tensor_def Let_def no_fuel split: rt_value.splits)

lemma scalar_float_fuel [no_fuel]: "runtime_scalar_float32 P h v \<noteq> Inl OutOfFuel"
  by (auto simp: runtime_scalar_float32_def float32_vector_value_def rbind_fuel no_fuel split: rt_value.splits)

lemma broadcast_fuel [no_fuel]: "apply_scalar_broadcast P xs x op \<noteq> Inl OutOfFuel"
  by (simp add: apply_scalar_broadcast_def)

lemma mu_fuel [no_fuel]: "empirical_mu P len steps c \<noteq> Inl OutOfFuel"
  by (simp add: empirical_mu_def Let_def)

lemma time_shift_fuel [no_fuel]: "time_shift_values P xs mu sigma mode \<noteq> Inl OutOfFuel"
  unfolding time_shift_values_def by (rule traverse_fuel) (simp add: time_shift_value_def Let_def)

lemma delta_fuel [no_fuel]: "scheduler_delta P xs i x \<noteq> Inl OutOfFuel" "int_from_runtime_scalar P v \<noteq> Inl OutOfFuel"
  by (simp_all add: scheduler_delta_def int_from_runtime_scalar_def Let_def split: rt_value.split)

lemma axpy_fuel [no_fuel]: "axpy_onto E y x alpha h \<noteq> Inl OutOfFuel"
proof -
  have "axpy_onto_resident E y x alpha h \<noteq> Some (Inl OutOfFuel)"
    by (simp add: axpy_onto_resident_def Let_def split: option.split rt_value.split)
  moreover have "axpy_onto_host E y xs alpha h \<noteq> Inl OutOfFuel" for xs
    by (auto simp: axpy_onto_host_def Let_def rbind_fuel no_fuel split: option.splits rt_value.splits)
  ultimately show ?thesis by (auto simp: axpy_onto_def rbind_fuel no_fuel split: option.splits)
qed

section \<open>Steps that keep a relation of the store of values\<close>

definition tame ::
  "(('f, 'w) rt_state \<Rightarrow> ('f, 'w) rt_state \<Rightarrow> bool) \<Rightarrow> ('b \<Rightarrow> ('f, 'w) rt_state) \<Rightarrow> ('f, 'w) rt_state
    \<Rightarrow> (rt_error \<times> ('f, 'w) rt_state, 'b) res \<Rightarrow> bool" where
  "tame R p s r = (case r of Inl (e, _) \<Rightarrow> e \<noteq> OutOfFuel | Inr y \<Rightarrow> R s (p y))"

lemma tame_simps [simp]: "tame R p s (Inr y) = R s (p y)" "tame R p s (Inl (e, t)) = (e \<noteq> OutOfFuel)"
  by (simp_all add: tame_def)

lemma from_host_fuel [simp]: "from_host e \<noteq> OutOfFuel" by (cases e) (simp_all add: from_host_def)









section \<open>The names and the shape of a step\<close>







section \<open>Growing stores\<close>















section \<open>The loop ends\<close>




section \<open>A chat\<close>







end
