(* ===== verification/Executor_Ends.thy ===== *)
theory Executor_Ends
  imports Executor_Safe
begin

text \<open>
  Ownership in the executor: which tensors the end of a program closes, and what \<open>append\<close> does to a list of
  integers that other names share. Tokens that leave the program for a graph survive the upload.
\<close>

section \<open>The end of a program\<close>

definition final_state :: "('f, 'w) outcome \<Rightarrow> ('f, 'w) rt_state" where
  "final_state r = (case r of Inl (_, t) \<Rightarrow> t | Inr t \<Rightarrow> t)"

lemma tensor_open_close: "tensor_open (close_tensor_at b h) a \<longleftrightarrow> tensor_open h a \<and> a \<noteq> b"
  by (auto simp: tensor_open_def close_tensor_at_def nth_list_update)

lemma close_all_open:
  "tensor_open (fold (\<lambda>(ref, v) h. case v of VTensor b \<Rightarrow> if ref \<in> I \<or> b \<in> S then h else close_tensor_at b h | _ \<Rightarrow> h) xs h) a
    \<longleftrightarrow> tensor_open h a \<and> \<not> (\<exists>ref. (ref, VTensor a) \<in> set xs \<and> ref \<notin> I \<and> a \<notin> S)"
  by (induction xs arbitrary: h) (auto simp: tensor_open_close split: rt_value.splits if_splits)

text \<open>The state after the last step of a program that ran, before its tensors are closed.\<close>

definition after_steps :: "nat \<Rightarrow> ('f, 'v, 'w) exec_env \<Rightarrow> 'f prog_step list \<Rightarrow> ('f, 'w) rt_state \<Rightarrow> ('f, 'w) rt_state" where
  "after_steps fuel E steps s = final_state (fold_res (run_named_step fuel E) steps (s\<lparr>rs_values := ex_initial E\<rparr>))"

text \<open>
  C10. What the end of a program closes. Whether its steps succeed or fail, a tensor is open after \<open>run_program\<close> if
  and only if it was open after the last step and is not bound to any name outside the initial values, unless
  a slot of the state store holds it.
\<close>

theorem program_end_closes:
  "tensor_open (rs_heap (final_state (run_program fuel E (Some steps) s))) a \<longleftrightarrow>
     tensor_open (rs_heap (after_steps fuel E steps s)) a
     \<and> \<not> (\<exists>ref. (ref, VTensor a) \<in> set (rs_values (after_steps fuel E steps s)) \<and> ref \<notin> fst ` set (ex_initial E)
           \<and> a \<notin> set (state_tensors (after_steps fuel E steps s)))"
proof -
  have "final_state (run_program fuel E (Some steps) s) = close_runtime_values E (after_steps fuel E steps s)"
    by (auto simp: run_program_def after_steps_def final_state_def split: sum.splits)
  then show ?thesis
    using close_all_open [of "set (map fst (ex_initial E))"] by (simp add: close_runtime_values_def)
qed

definition toy_tensor :: rt_tensor where
  "toy_tensor = \<lparr>te_dtype = Int32, te_dims = [1], te_host = True, te_bytes = [5, 0, 0, 0], te_open = True\<rparr>"

definition toy_inputs :: "(int, toy_world) rt_state" where
  "toy_inputs = toy_state [] [] \<lparr>hp_tensors = [toy_tensor], hp_ints = [], hp_floats = [], hp_paged = [], hp_tables = []\<rparr> []"

text \<open>
  An alias of an initial value. The tensors of the initial values belong to the caller and stay open; but a
  program that only assigns one to a second name closes it when it ends, since that name is not initial.
\<close>

theorem aliased_input_is_closed:
  "\<not> tensor_open (rs_heap (final_state (run_program 1 (toy_env [(''x'', VTensor 0)])
       (Some [toy_step ''value.assign'' [(''value'', ''x'')] [(''out'', ''y'')]]) toy_inputs))) 0"
  by code_simp



section \<open>Appending\<close>

definition slice_ok :: "'f rt_heap \<Rightarrow> int_slice \<Rightarrow> bool" where
  "slice_ok h s \<longleftrightarrow> sl_array s < length (hp_ints h) \<and> sl_len s \<le> length (hp_ints h ! sl_array s)"


definition toy_append :: "string \<Rightarrow> string \<Rightarrow> string \<Rightarrow> int prog_step" where
  "toy_append target token out = Step ''append'' ''value.append'' [(''token'', token)] [(''out'', out)] []
     [''target'' \<mapsto> AString target] None []"

definition toy_lists :: "int prog_step list" where
  "toy_lists = [toy_step ''tokenizer.encode'' [(''text'', ''text'')] [(''out'', ''a'')],
     toy_step ''value.assign'' [(''value'', ''a'')] [(''out'', ''b'')],
     toy_append ''a'' ''one'' ''c'', toy_append ''b'' ''two'' ''d'']"

text \<open>
  C9. Appending to an alias. With capacity to spare, \<open>append\<close> to \<open>b\<close> overwrites the element that was appended to \<open>a\<close>
  after \<open>b := a\<close>: \<open>a\<close> was [104, 105, 1] and becomes [104, 105, 2].
\<close>

theorem append_overwrites_alias:
  "\<exists>t. fold_res (run_step 1 (toy_env [])) toy_lists
      (toy_inputs\<lparr>rs_values := [(''text'', VString ''hi''), (''one'', VInt 1), (''two'', VInt 2)]\<rparr>) = Ok t
    \<and> existing_ints t ''b'' = Some [104, 105, 2] \<and> existing_ints t ''a'' = Some [104, 105, 2]"
proof -
  let ?r = "fold_res (run_step 1 (toy_env [])) toy_lists
      (toy_inputs\<lparr>rs_values := [(''text'', VString ''hi''), (''one'', VInt 1), (''two'', VInt 2)]\<rparr>)"
  have "case ?r of Inl _ \<Rightarrow> False | Inr t \<Rightarrow> existing_ints t ''b'' = Some [104, 105, 2] \<and> existing_ints t ''a'' = Some [104, 105, 2]"
    by code_simp
  then show ?thesis by (auto split: sum.splits)
qed

section \<open>Tokens of a graph call\<close>

lemma traverse_checked:
  "traverse checked_token xs = Ok ys \<Longrightarrow> ys = xs \<and> (\<forall>i \<in> set xs. in32 i)"
  by (induction xs arbitrary: ys) (auto simp: checked_token_def in32_def split: if_splits)

lemma traverse_checked_ok: "\<forall>i \<in> set xs. in32 i \<Longrightarrow> traverse checked_token xs = Ok xs"
  by (induction xs) (auto simp: checked_token_def in32_def)

lemma traverse_checked_err:
  "traverse checked_token xs = Inl e \<Longrightarrow> \<exists>i \<in> set xs. \<not> in32 i \<and> e = TokenOverflow i"
  by (induction xs) (auto simp: checked_token_def in32_def rbind_def split: if_splits sum.splits)

text \<open>
  C39. Tokens of a graph call. A list of integers for an input that expects batched tokens becomes a tensor of
  shape [1, n] from which the graph reads back exactly these tokens and which has the launch length of the
  list; only if all of them fit 32 bits does it get that far, and else the error names one that does not.
\<close>

theorem batched_tokens_roundtrip:
  assumes "ub_accepts B [1, int (length (read_ints h s))] Int32 (concat (map int32_bytes (read_ints h s)))"
    and "slice_ok h s"
  shows "if \<forall>i \<in> set (read_ints h s). in32 i
    then \<exists>a h'. batched_token_tensor (Some B) (VInts s) h = Ok (VTensor a, h')
      \<and> te_dims (hp_tensors h' ! a) = [1, int (sl_len s)] \<and> int32_native (hp_tensors h' ! a) = Ok (read_ints h s)
      \<and> token_sequence_length h' (VTensor a) = token_sequence_length h (VInts s)
    else \<exists>i \<in> set (read_ints h s). \<not> in32 i \<and> batched_token_tensor (Some B) (VInts s) h = Err (TokenOverflow i)"
proof (cases "\<forall>i \<in> set (read_ints h s). in32 i")
  case True
  have "length (read_ints h s) = sl_len s" using assms(2) by (simp add: read_ints_def slice_ok_def)
  with True assms(1) show ?thesis
    by (simp add: batched_token_tensor_def int32_token_vector_def traverse_checked_ok backend_upload_def int32_native_def
      int32s_of_int32_bytes token_sequence_length_def Let_def)
next
  case False
  show ?thesis
  proof (cases "traverse checked_token (read_ints h s)")
    case (Inl e)
    with traverse_checked_err False show ?thesis
      by (auto simp: batched_token_tensor_def int32_token_vector_def)
  next
    case (Inr ys)
    with traverse_checked False show ?thesis by blast
  qed
qed

definition toy_memory :: upload_backend where
  "toy_memory = \<lparr>ub_host = False, ub_readable = \<lambda>_. True, ub_accepts = \<lambda>_ _ _. True\<rparr>"

theorem batched_tokens_roundtrip_witness:
  "\<exists>a h'. batched_token_tensor (Some toy_memory) (VInts \<lparr>sl_array = 0, sl_len = 2\<rparr>)
      (\<lparr>hp_tensors = [], hp_ints = [[5, -6, 7]], hp_floats = [], hp_paged = [], hp_tables = []\<rparr> :: int rt_heap) = Ok (VTensor a, h')
    \<and> int32_native (hp_tensors h' ! a) = Ok [5, -6]"
  using batched_tokens_roundtrip [of toy_memory "\<lparr>hp_tensors = [], hp_ints = [[5, -6, 7]], hp_floats = [], hp_paged = [], hp_tables = []\<rparr> :: int rt_heap"
      "\<lparr>sl_array = 0, sl_len = 2\<rparr>"]
  by (auto simp: toy_memory_def slice_ok_def read_ints_def in32_def numeral_2_eq_2)


end
