(* ===== verification/Sampling_Safe.thy ===== *)
theory Sampling_Safe
  imports Executor_Safe "HOL-Library.Multiset"
begin

text \<open>
  The sampling of a token: what \<open>sampleTopK\<close> may return. \<open>sort.Slice\<close> orders the scores by descending logit, in any order
  among equal ones; that it can is a hypothesis, since it need not when a logit is not a number.
\<close>

section \<open>Picking a candidate\<close>

lemma pick_candidate_in: "pick_candidate P threshold acc cs ws = Some x \<Longrightarrow> x \<in> fst ` set cs"
  by (induction P threshold acc cs ws rule: pick_candidate.induct) (auto simp: Let_def split: if_splits)

definition top_count :: "'f list \<Rightarrow> int \<Rightarrow> nat" where
  "top_count logits k = (if k \<le> 0 \<or> k > int (length logits) then length logits else nat k)"

lemma sample_position:
  assumes "logits \<noteq> []" and "fp_less (ex_prims E) (fp_zero (ex_prims E)) temperature"
    and len: "length (ex_sort E (zip (map int [0..<length logits]) logits)) = length logits"
  shows "\<exists>j < top_count logits k. sample_top_k E logits temperature k w
    = (Ok (fst (ex_sort E (zip (map int [0..<length logits]) logits) ! j)), snd (ex_random E w))"
proof -
  let ?ys = "ex_sort E (zip (map int [0..<length logits]) logits)"
  let ?cs = "take (top_count logits k) ?ys"
  define r where "r = (case pick_candidate (ex_prims E)
      (fp_mul64 (ex_prims E) (fst (ex_random E w)) (snd (top_k_weights (ex_prims E) ?cs temperature)))
      (fp_zero (ex_prims E)) ?cs (fst (top_k_weights (ex_prims E) ?cs temperature)) of
        Some token \<Rightarrow> token | None \<Rightarrow> fst (last ?cs))"
  have n: "0 < top_count logits k" "top_count logits k \<le> length logits"
    using assms(1) by (auto simp: top_count_def)
  then have "?cs \<noteq> []" using len by auto
  then have "r \<in> fst ` set ?cs" by (auto simp: r_def pick_candidate_in split: option.split)
  then obtain j where j: "j < top_count logits k" "r = fst (?ys ! j)"
    using n len by (auto simp: in_set_conv_nth)
  have "sample_top_k E logits temperature k w = (Ok r, snd (ex_random E w))"
    using assms(1,2) by (simp add: sample_top_k_def Let_def r_def case_prod_beta flip: top_count_def)
  with j show ?thesis by auto
qed

text \<open>
  C27. Sampling a token from the top k. Without logits or with a temperature that is not positive sampling fails and leaves
  the random source alone. Else it draws one random number and returns the index of a logit that fewer than k
  others exceed, where a k that is not positive or above the number of logits stands for all of them.
\<close>

theorem sample_top_k_sound:
  assumes "mset (ex_sort E (zip (map int [0..<length logits]) logits)) = mset (zip (map int [0..<length logits]) logits)"
    and "sorted_wrt (\<lambda>a b. \<not> fp_less (ex_prims E) (snd a) (snd b)) (ex_sort E (zip (map int [0..<length logits]) logits))"
  shows "if logits = [] \<or> \<not> fp_less (ex_prims E) (fp_zero (ex_prims E)) temperature
    then \<exists>m. sample_top_k E logits temperature k w = (Err (HostFailure m), w)
    else \<exists>token < length logits. sample_top_k E logits temperature k w = (Ok (int token), snd (ex_random E w))
      \<and> card {i. i < length logits \<and> i \<noteq> token \<and> fp_less (ex_prims E) (logits ! token) (logits ! i)}
          < (if k \<le> 0 \<or> k > int (length logits) then length logits else nat k)"
proof (cases "logits = [] \<or> \<not> fp_less (ex_prims E) (fp_zero (ex_prims E)) temperature")
  case False
  let ?xs = "zip (map int [0..<length logits]) logits"
  let ?ys = "ex_sort E ?xs"
  have len: "length ?ys = length logits" using mset_eq_length [OF assms(1)] by simp
  have elems: "set ?ys = set ?xs" using mset_eq_setD [OF assms(1)] .
  have score: "\<exists>i < length logits. ?ys ! p = (int i, logits ! i)" if "p < length logits" for p
  proof -
    have "?ys ! p \<in> set ?xs" using that len elems nth_mem [of p ?ys] by simp
    then show ?thesis by (auto simp: in_set_conv_nth)
  qed
  have place: "\<exists>p < length logits. ?ys ! p = (int i, logits ! i)" if "i < length logits" for i
  proof -
    have "(int i, logits ! i) = ?xs ! i" and "i < length ?xs" using that by simp_all
    then have "(int i, logits ! i) \<in> set ?ys" using elems nth_mem [of i ?xs] by metis
    then show ?thesis using len by (auto simp: in_set_conv_nth)
  qed
  obtain j where j: "j < top_count logits k" and run: "sample_top_k E logits temperature k w = (Ok (fst (?ys ! j)), snd (ex_random E w))"
    using sample_position [OF _ _ len] False by blast
  have "j < length logits" using j by (auto simp: top_count_def split: if_splits)
  then obtain t where t: "t < length logits" "?ys ! j = (int t, logits ! t)" using score by blast
  let ?above = "{i. i < length logits \<and> i \<noteq> t \<and> fp_less (ex_prims E) (logits ! t) (logits ! i)}"
  have "?above \<subseteq> (\<lambda>p. nat (fst (?ys ! p))) ` {..<j}"
  proof
    fix i assume i: "i \<in> ?above"
    then obtain p where p: "p < length logits" "?ys ! p = (int i, logits ! i)" using place by blast
    have "\<not> j < p" using sorted_wrt_nth_less [OF assms(2), of j p] p t(2) i len by auto
    moreover have "p \<noteq> j" using p t(2) i by auto
    ultimately have "p \<in> {..<j}" by simp
    then show "i \<in> (\<lambda>p. nat (fst (?ys ! p))) ` {..<j}" using p(2) by force
  qed
  then have "card ?above \<le> j" using surj_card_le [of "{..<j}"] by fastforce
  with j have "card ?above < (if k \<le> 0 \<or> k > int (length logits) then length logits else nat k)"
    by (simp add: top_count_def)
  with False t run show ?thesis by auto
qed (auto simp: sample_top_k_def Let_def)

theorem sample_top_k_sound_witness:
  "\<exists>token < 3. sample_top_k (toy_env []) [3, 9, 5] 1 2 \<lparr>tw_lines = [], tw_emitted = []\<rparr> = (Ok (int token), \<lparr>tw_lines = [], tw_emitted = []\<rparr>)
    \<and> card {i. i < 3 \<and> i \<noteq> token \<and> [3, 9, 5 :: int] ! token < [3, 9, 5] ! i} < 2"
proof -
  let ?xs = "zip (map int [0..<length [3, 9, 5 :: int]]) [3, 9, 5 :: int]"
  have s: "ex_sort (toy_env []) ?xs = [(1, 9), (2, 5), (0, 3)]"
    by (simp add: toy_env_def upt_rec)
  have m: "mset (ex_sort (toy_env []) ?xs) = mset ?xs" unfolding s by (simp add: upt_rec)
  have o: "sorted_wrt (\<lambda>a b. \<not> fp_less (ex_prims (toy_env [])) (snd a) (snd b)) (ex_sort (toy_env []) ?xs)"
    unfolding s by (simp add: toy_env_def toy_prims_def)
  show ?thesis
    using sample_top_k_sound [OF m o, of 1 2 "\<lparr>tw_lines = [], tw_emitted = []\<rparr>"] by (simp add: toy_env_def toy_prims_def eval_nat_numeral)
qed

end
